(* ===== verification/Minesql_Prelude.thy ===== *)
theory Minesql_Prelude
  imports Main "HOL-Library.Word" "HOL-Library.Signed_Division" "HOL-Library.AList"
begin

text \<open>
  Shared ground of the mineSQL development: the names of the types every component uses, the
  collections of rewrite rules the component proofs are driven by, and the generic facts on lists,
  words and association lists that more than one component needs.

  Conventions used throughout.
  \<^item> A Go \<open>byte\<close> is an 8 bit word, a \<open>[]byte\<close> a list of them. Where the code tells a nil slice
    from an empty one, the slice is a \<open>bytes option\<close> and nil is \<open>None\<close>.
  \<^item> A Go \<open>string\<close> is a \<open>string\<close>: an Isabelle character is one of 256 values, so it is exactly one
    byte of the Go string, and \<open>length\<close> is Go's \<open>len\<close>.
  \<^item> \<open>int\<close>, \<open>int64\<close> and \<open>int32\<close> are mathematical integers; every operation of the code that can leave
    the range of its type is wrapped explicitly (theory \<open>Go_Int\<close>).
  \<^item> \<open>(T, error)\<close> is \<open>'e + 't\<close>, with \<open>Inl\<close> the non-nil error.
\<close>

type_synonym byte = "8 word"
type_synonym bytes = "8 word list"
type_synonym 'v gomap = "(string \<times> 'v) list"

text \<open>Rules that evaluate the model of the Go library.\<close>

named_theorems go_simps

text \<open>Conversions between Go's \<open>string\<close> and \<open>[]byte\<close>.\<close>

definition byte_of_char :: "char \<Rightarrow> byte" where
  "byte_of_char c = of_nat (of_char c)"

definition char_of_byte :: "byte \<Rightarrow> char" where
  "char_of_byte b = char_of (unat b)"

definition bytes_of_string :: "string \<Rightarrow> bytes" where
  "bytes_of_string s = map byte_of_char s"

definition string_of_bytes :: "bytes \<Rightarrow> string" where
  "string_of_bytes bs = map char_of_byte bs"

text \<open>\<open>string(data)\<close> and \<open>len(data)\<close> of a slice that may be nil.\<close>

definition slice_bytes :: "bytes option \<Rightarrow> bytes" where
  "slice_bytes d = (case d of None \<Rightarrow> [] | Some bs \<Rightarrow> bs)"

definition slice_string :: "bytes option \<Rightarrow> string" where
  "slice_string d = string_of_bytes (slice_bytes d)"

definition slice_len :: "bytes option \<Rightarrow> nat" where
  "slice_len d = length (slice_bytes d)"

text \<open>
  A Go map with string keys is an association list with distinct keys: \<open>map_of\<close> reads it and
  \<^const>\<open>AList.update\<close> is the assignment \<open>m[k] = v\<close>.
\<close>

definition gomap_ok :: "'v gomap \<Rightarrow> bool" where
  "gomap_ok m = distinct (map fst m)"

subsection \<open>Bytes and characters\<close>

lemma unat_byte_less [simp]: "unat (b :: byte) < 256"
proof -
  have "unat b < 2 ^ LENGTH(8)" by (rule unsigned_less)
  then show ?thesis by simp
qed

lemma uint_byte_less [simp]: "uint (b :: byte) < 256"
proof -
  have "uint b < 2 ^ LENGTH(8)" by (rule unsigned_less)
  then show ?thesis by simp
qed

lemma char_of_byte_of_char [simp]: "char_of_byte (byte_of_char c) = c"
  by (simp add: char_of_byte_def byte_of_char_def unat_of_nat)

lemma byte_of_char_of_byte [simp]: "byte_of_char (char_of_byte b) = b"
  by (simp add: char_of_byte_def byte_of_char_def)

lemma string_of_bytes_of_string [simp, go_simps]: "string_of_bytes (bytes_of_string s) = s"
  by (induction s) (simp_all add: string_of_bytes_def bytes_of_string_def)

lemma bytes_of_string_of_bytes [simp, go_simps]: "bytes_of_string (string_of_bytes bs) = bs"
  by (induction bs) (simp_all add: string_of_bytes_def bytes_of_string_def)

lemma length_bytes_of_string [simp, go_simps]: "length (bytes_of_string s) = length s"
  by (simp add: bytes_of_string_def)

lemma length_string_of_bytes [simp, go_simps]: "length (string_of_bytes bs) = length bs"
  by (simp add: string_of_bytes_def)

lemma bytes_of_string_Nil [simp]: "bytes_of_string s = [] \<longleftrightarrow> s = []"
  by (simp add: bytes_of_string_def)

lemma bytes_of_string_inject [simp]: "bytes_of_string s = bytes_of_string t \<longleftrightarrow> s = t"
  by (metis string_of_bytes_of_string)

lemma slice_simps [simp, go_simps]:
  "slice_bytes None = []" "slice_bytes (Some bs) = bs"
  "slice_string None = []" "slice_string (Some bs) = string_of_bytes bs"
  "slice_len None = 0" "slice_len (Some bs) = length bs"
  by (simp_all add: slice_bytes_def slice_string_def slice_len_def string_of_bytes_def)

lemma slice_len_0: "slice_len d = 0 \<longleftrightarrow> d = None \<or> d = Some []"
  by (cases d) auto

subsection \<open>Maps\<close>

lemma gomap_ok_update [simp, intro]: "gomap_ok m \<Longrightarrow> gomap_ok (AList.update k v m)"
  by (simp add: gomap_ok_def distinct_update)

lemma map_of_update [go_simps]: "map_of (AList.update k v m) k' = (if k' = k then Some v else map_of m k')"
  by (simp add: update_conv)

subsection \<open>Lists\<close>

lemma take_append_drop_chunk:
  "0 < n \<Longrightarrow> xs \<noteq> [] \<Longrightarrow> length (drop n xs) < length xs"
  by (cases xs) auto

end
