(* ===== verification/Go_Int.thy ===== *)
theory Go_Int
  imports Minesql_Prelude
begin

text \<open>
  Go's fixed-width integers as the code uses them: conversion by truncation, signed division,
  big-endian byte order (\<open>encoding/binary\<close>), decimal output (\<open>%d\<close>) and decimal input
  (\<open>strconv.ParseInt(s, 10, 64)\<close> and \<open>strconv.Atoi\<close>), with the round trips between them.
\<close>

subsection \<open>Ranges and conversions\<close>

definition in_i64 :: "int \<Rightarrow> bool" where
  "in_i64 x \<longleftrightarrow> - (2 ^ 63) \<le> x \<and> x < 2 ^ 63"

definition in_i32 :: "int \<Rightarrow> bool" where
  "in_i32 x \<longleftrightarrow> - (2 ^ 31) \<le> x \<and> x < 2 ^ 31"

text \<open>The value of an arithmetic result, or of a conversion, in \<open>int64\<close> (or \<open>int\<close>) and \<open>int32\<close>.\<close>

definition wrap64 :: "int \<Rightarrow> int" where
  "wrap64 x = signed_take_bit 63 x"

definition wrap32 :: "int \<Rightarrow> int" where
  "wrap32 x = signed_take_bit 31 x"

text \<open>The unsigned conversions \<open>uint32(v)\<close> and \<open>uint64(v)\<close>.\<close>

definition uint32_of :: "int \<Rightarrow> int" where
  "uint32_of x = x mod 2 ^ 32"

definition uint64_of :: "int \<Rightarrow> int" where
  "uint64_of x = x mod 2 ^ 64"

text \<open>The division \<open>/\<close> of Go truncates towards zero.\<close>

definition go_quot :: "int \<Rightarrow> int \<Rightarrow> int" where
  "go_quot a b = a sdiv b"

subsection \<open>Big-endian byte order\<close>

text \<open>\<open>PutUint32\<close>, \<open>PutUint64\<close> and \<open>Uint32\<close>, \<open>Uint64\<close> at 4 and 8 bytes.\<close>

fun be_put :: "nat \<Rightarrow> int \<Rightarrow> bytes" where
  "be_put 0 x = []"
| "be_put (Suc n) x = of_int (x div 256 ^ n) # be_put n x"

definition be_get :: "bytes \<Rightarrow> int" where
  "be_get bs = foldl (\<lambda>a b. 256 * a + uint b) 0 bs"

definition PutUint32 :: "int \<Rightarrow> bytes" where
  "PutUint32 v = be_put 4 v"

definition PutUint64 :: "int \<Rightarrow> bytes" where
  "PutUint64 v = be_put 8 v"

definition Uint32 :: "bytes \<Rightarrow> int" where
  "Uint32 bs = be_get (take 4 bs)"

definition Uint64 :: "bytes \<Rightarrow> int" where
  "Uint64 bs = be_get (take 8 bs)"

subsection \<open>Decimal output and input\<close>

definition digit_char :: "int \<Rightarrow> char" where
  "digit_char d = char_of (48 + nat d)"

function dec_digits :: "int \<Rightarrow> string" where
  "dec_digits n = (if n < 10 then [digit_char n] else dec_digits (n div 10) @ [digit_char (n mod 10)])"
  by pat_completeness auto
termination
  by (relation "measure nat") auto

text \<open>\<open>fmt.Sprintf("%d", i)\<close>.\<close>

definition fmt_d :: "int \<Rightarrow> string" where
  "fmt_d i = (if i < 0 then CHR ''-'' # dec_digits (- i) else dec_digits i)"

datatype num_error = ErrSyntax | ErrRange

definition is_digit :: "char \<Rightarrow> bool" where
  "is_digit c \<longleftrightarrow> 48 \<le> (of_char c :: nat) \<and> (of_char c :: nat) \<le> 57"

definition digit_val :: "char \<Rightarrow> int" where
  "digit_val c = int (of_char c) - 48"

text \<open>
  The digit loop of \<open>strconv.ParseUint(s, 10, 64)\<close>: a character that is no digit is a syntax error, a
  value that leaves the range of \<open>uint64\<close> a range error at once, with the largest value.
\<close>

fun parse_uint_loop :: "int \<Rightarrow> string \<Rightarrow> int \<times> num_error option" where
  "parse_uint_loop n [] = (n, None)"
| "parse_uint_loop n (c # cs) =
     (if \<not> is_digit c then (0, Some ErrSyntax)
      else if 10 * n + digit_val c \<ge> 2 ^ 64 then (2 ^ 64 - 1, Some ErrRange)
      else parse_uint_loop (10 * n + digit_val c) cs)"

definition ParseUint :: "string \<Rightarrow> int \<times> num_error option" where
  "ParseUint s = (if s = [] then (0, Some ErrSyntax) else parse_uint_loop 0 s)"

definition ParseInt_signed :: "bool \<Rightarrow> string \<Rightarrow> int \<times> num_error option" where
  "ParseInt_signed neg s =
     (case ParseUint s of
        (_, Some ErrSyntax) \<Rightarrow> (0, Some ErrSyntax)
      | (un, _) \<Rightarrow>
          if \<not> neg \<and> un \<ge> 2 ^ 63 then (2 ^ 63 - 1, Some ErrRange)
          else if neg \<and> un > 2 ^ 63 then (- (2 ^ 63), Some ErrRange)
          else (if neg then - un else un, None))"

fun ParseInt :: "string \<Rightarrow> int \<times> num_error option" where
  "ParseInt [] = (0, Some ErrSyntax)"
| "ParseInt (c # cs) =
     (if c = CHR ''+'' then ParseInt_signed False cs
      else if c = CHR ''-'' then ParseInt_signed True cs
      else ParseInt_signed False (c # cs))"

text \<open>The result as the callers read it: the value, or the error.\<close>

definition parse_int :: "string \<Rightarrow> num_error + int" where
  "parse_int s = (case ParseInt s of (_, Some e) \<Rightarrow> Inl e | (v, None) \<Rightarrow> Inr v)"

subsection \<open>Ranges\<close>

lemma wrap64_id [simp]: "in_i64 x \<Longrightarrow> wrap64 x = x"
  by (simp add: in_i64_def wrap64_def signed_take_bit_int_eq_self)

lemma wrap32_id [simp]: "in_i32 x \<Longrightarrow> wrap32 x = x"
  by (simp add: in_i32_def wrap32_def signed_take_bit_int_eq_self)

lemma in_i64_wrap64 [simp]: "in_i64 (wrap64 x)"
  using signed_take_bit_int_greater_eq_minus_exp [of 63 x] signed_take_bit_int_less_exp [of 63 x]
  by (simp add: in_i64_def wrap64_def)

lemma in_i32_wrap32 [simp]: "in_i32 (wrap32 x)"
  using signed_take_bit_int_greater_eq_minus_exp [of 31 x] signed_take_bit_int_less_exp [of 31 x]
  by (simp add: in_i32_def wrap32_def)

lemma in_i32_in_i64: "in_i32 x \<Longrightarrow> in_i64 x"
  by (simp add: in_i32_def in_i64_def)

lemma wrap32_uint32_of [simp]: "wrap32 (uint32_of x) = wrap32 x"
  by (simp add: wrap32_def uint32_of_def signed_take_bit_eq_iff_take_bit_eq take_bit_eq_mod)

lemma wrap64_uint64_of [simp]: "wrap64 (uint64_of x) = wrap64 x"
  by (simp add: wrap64_def uint64_of_def signed_take_bit_eq_iff_take_bit_eq take_bit_eq_mod)

lemma uint32_of_mod [simp]: "uint32_of x mod 2 ^ 32 = uint32_of x"
  by (simp add: uint32_of_def)

lemma uint64_of_mod [simp]: "uint64_of x mod 2 ^ 64 = uint64_of x"
  by (simp add: uint64_of_def)

lemma go_quot_nonneg: "0 \<le> a \<Longrightarrow> 0 < b \<Longrightarrow> go_quot a b = a div b"
  by (simp add: go_quot_def signed_divide_int_def sgn_if)

lemma go_quot_neg: "a \<le> 0 \<Longrightarrow> 0 < b \<Longrightarrow> go_quot a b = - ((- a) div b)"
  by (simp add: go_quot_def signed_divide_int_def sgn_if)

subsection \<open>Byte order\<close>

lemma length_be_put [simp]: "length (be_put n x) = n"
  by (induction n) auto

lemma foldl_be: "foldl (\<lambda>a b. 256 * a + uint b) k bs = k * 256 ^ length bs + be_get (bs :: bytes)"
proof (induction bs arbitrary: k)
  case (Cons b bs)
  show ?case
    using Cons.IH [of "256 * k + uint b"] Cons.IH [of "uint b"]
    by (simp add: be_get_def algebra_simps)
qed (simp add: be_get_def)

lemma be_get_Nil [simp]: "be_get [] = 0"
  by (simp add: be_get_def)

lemma be_get_Cons [simp]: "be_get (b # bs) = uint b * 256 ^ length bs + be_get bs"
  using foldl_be [of "uint b" bs] by (simp add: be_get_def)

lemma be_get_range: "0 \<le> be_get bs \<and> be_get bs < 256 ^ length bs"
proof (induction bs)
  case (Cons b bs)
  have b: "0 \<le> uint b" "uint b \<le> 255" using uint_byte_less [of b] by (simp, linarith)
  then have "uint b * 256 ^ length bs \<le> 255 * 256 ^ length bs" by (intro mult_right_mono) auto
  with Cons.IH have "uint b * 256 ^ length bs + be_get bs < 256 * 256 ^ length bs" by linarith
  with Cons.IH b show ?case by simp
qed simp

lemma be_get_put [simp]: "be_get (be_put n x) = x mod 256 ^ n"
proof (induction n)
  case (Suc n)
  have "x mod (256 ^ n * 256) = 256 ^ n * (x div 256 ^ n mod 256) + x mod 256 ^ n"
    by (rule zmod_zmult2_eq) simp
  with Suc show ?case
    by (simp add: uint_word_of_int mult.commute)
qed simp

lemma be_put_add: "be_put m (k * 256 ^ m + y) = be_put m y"
proof (induction m arbitrary: k y)
  case (Suc m)
  have "(k * 256 ^ Suc m + y) div 256 ^ m = 256 * k + y div 256 ^ m"
    using div_mult_self3 [of "256 ^ m :: int" "256 * k" y] by (simp add: mult_ac)
  moreover have "be_put m (k * 256 ^ Suc m + y) = be_put m y"
    using Suc.IH [of "256 * k" y] by (simp add: mult_ac)
  moreover have "of_int (256 * k + y div 256 ^ m) = (of_int (y div 256 ^ m) :: byte)"
    by (simp add: word_of_int_eq_iff take_bit_eq_mod del: of_int_add of_int_mult)
  ultimately show ?case by simp
qed simp

lemma be_put_get: "length bs = n \<Longrightarrow> be_put n (be_get bs) = bs"
proof (induction bs arbitrary: n)
  case (Cons b bs)
  have "(uint b * 256 ^ length bs + be_get bs) div 256 ^ length bs = uint b"
    using be_get_range [of bs] by simp
  with Cons be_put_add show ?case by auto
qed simp

lemma length_PutUint32 [simp]: "length (PutUint32 v) = 4"
  by (simp add: PutUint32_def)

lemma length_PutUint64 [simp]: "length (PutUint64 v) = 8"
  by (simp add: PutUint64_def)

lemma Uint32_Put [simp, go_simps]: "Uint32 (PutUint32 v @ bs) = v mod 2 ^ 32"
  by (simp add: Uint32_def PutUint32_def)

lemma Uint64_Put [simp, go_simps]: "Uint64 (PutUint64 v @ bs) = v mod 2 ^ 64"
  by (simp add: Uint64_def PutUint64_def)

lemma Uint32_range: "0 \<le> Uint32 bs \<and> Uint32 bs < 2 ^ 32"
proof -
  have "0 \<le> be_get (take 4 bs)" "be_get (take 4 bs) < 256 ^ length (take 4 bs)"
    using be_get_range [of "take 4 bs"] by blast+
  moreover have "(256 :: int) ^ length (take 4 bs) \<le> 256 ^ 4" by (rule power_increasing) auto
  ultimately show ?thesis by (simp add: Uint32_def)
qed

subsection \<open>Decimal round trip\<close>

declare dec_digits.simps [simp del]

lemma of_char_digit_char: "0 \<le> d \<Longrightarrow> d < 10 \<Longrightarrow> of_char (digit_char d) = 48 + nat d"
  by (simp add: digit_char_def)

lemma is_digit_digit_char [simp]: "0 \<le> d \<Longrightarrow> d < 10 \<Longrightarrow> is_digit (digit_char d)"
  by (simp add: is_digit_def of_char_digit_char)

lemma digit_val_digit_char [simp]: "0 \<le> d \<Longrightarrow> d < 10 \<Longrightarrow> digit_val (digit_char d) = d"
  by (simp add: digit_val_def of_char_digit_char)

lemma dec_digits_ne [simp]: "dec_digits n \<noteq> []"
  by (subst dec_digits.simps) simp

lemma dec_digits_digits: "0 \<le> n \<Longrightarrow> list_all is_digit (dec_digits n)"
proof (induction n rule: dec_digits.induct)
  case (1 n)
  then show ?case by (subst dec_digits.simps) simp
qed

lemma parse_uint_loop_append:
  "parse_uint_loop n xs = (m, None) \<Longrightarrow> parse_uint_loop n (xs @ ys) = parse_uint_loop m ys"
  by (induction xs arbitrary: n) (auto split: if_splits)

lemma parse_uint_loop_dec: "0 \<le> n \<Longrightarrow> n < 2 ^ 64 \<Longrightarrow> parse_uint_loop 0 (dec_digits n) = (n, None)"
proof (induction n rule: dec_digits.induct)
  case (1 n)
  show ?case
  proof (cases "n < 10")
    case True
    with "1.prems" show ?thesis by (subst dec_digits.simps) simp
  next
    case False
    then have "parse_uint_loop 0 (dec_digits (n div 10)) = (n div 10, None)"
      using "1.IH" "1.prems" by simp
    then have "parse_uint_loop 0 (dec_digits n) = parse_uint_loop (n div 10) [digit_char (n mod 10)]"
      using False by (subst dec_digits.simps) (simp add: parse_uint_loop_append)
    also have "\<dots> = (n, None)"
      using "1.prems" by simp
    finally show ?thesis .
  qed
qed

lemma is_digit_not_sign: "is_digit c \<Longrightarrow> c \<noteq> CHR ''+'' \<and> c \<noteq> CHR ''-''"
  by (auto simp: is_digit_def)

lemma ParseInt_fmt_d [simp]:
  assumes "in_i64 i"
  shows "ParseInt (fmt_d i) = (i, None)"
proof (cases "i < 0")
  case True
  then have "- i < 2 ^ 64" "- i \<le> 2 ^ 63"
    using assms by (auto simp: in_i64_def)
  with True show ?thesis
    by (simp add: fmt_d_def ParseInt_signed_def ParseUint_def parse_uint_loop_dec)
next
  case False
  then have "i < 2 ^ 63" "i < 2 ^ 64"
    using assms by (auto simp: in_i64_def)
  moreover obtain c cs where c: "dec_digits i = c # cs"
    by (cases "dec_digits i") auto
  then have "is_digit c" using dec_digits_digits [of i] False by simp
  ultimately show ?thesis
    using False c is_digit_not_sign parse_uint_loop_dec [of i]
    by (simp add: fmt_d_def ParseInt_signed_def ParseUint_def)
qed

lemma parse_int_fmt_d [simp, go_simps]: "in_i64 i \<Longrightarrow> parse_int (fmt_d i) = Inr i"
  by (simp add: parse_int_def)

lemma parse_uint_loop_nonneg: "0 \<le> n \<Longrightarrow> parse_uint_loop n s = (v, e) \<Longrightarrow> 0 \<le> v"
proof (induction s arbitrary: n)
  case (Cons c s)
  have "is_digit c \<Longrightarrow> 0 \<le> digit_val c"
    by (simp add: is_digit_def digit_val_def)
  with Cons.prems Cons.IH [of "10 * n + digit_val c"] show ?case by (auto split: if_splits)
qed simp

lemma ParseUint_nonneg: "ParseUint s = (v, e) \<Longrightarrow> 0 \<le> v"
  using parse_uint_loop_nonneg [of 0 s v e] by (auto simp: ParseUint_def split: if_splits)

lemma ParseInt_range: "ParseInt s = (v, e) \<Longrightarrow> in_i64 v"
  by (induction s rule: ParseInt.induct)
     (auto simp: ParseInt_signed_def in_i64_def dest: ParseUint_nonneg
       split: prod.splits option.splits num_error.splits if_splits)

lemma parse_int_range: "parse_int s = Inr v \<Longrightarrow> in_i64 v"
  by (auto simp: parse_int_def split: prod.splits option.splits dest: ParseInt_range)

text \<open>The characters of a decimal number: what its surroundings can rely on.\<close>

lemma fmt_d_chars: "c \<in> set (fmt_d i) \<Longrightarrow> is_digit c \<or> c = CHR ''-''"
  using dec_digits_digits [of i] dec_digits_digits [of "- i"]
  by (auto simp: fmt_d_def list_all_iff split: if_splits)

lemma fmt_d_no_newline [simp]: "CHR 0x0A \<notin> set (fmt_d i)"
  using fmt_d_chars [of "CHR 0x0A" i] by (auto simp: is_digit_def)

lemma fmt_d_no_comma [simp]: "CHR '','' \<notin> set (fmt_d i)"
  using fmt_d_chars [of "CHR '',''" i] by (auto simp: is_digit_def)

lemma fmt_d_ne [simp]: "fmt_d i \<noteq> []"
  by (simp add: fmt_d_def)

lemma dec_digits_value: "0 \<le> n \<Longrightarrow> foldl (\<lambda>a c. 10 * a + digit_val c) 0 (dec_digits n) = n"
proof (induction n rule: dec_digits.induct)
  case (1 n)
  then show ?case by (subst dec_digits.simps) simp
qed

lemma dec_digits_inject [simp]: "0 \<le> n \<Longrightarrow> 0 \<le> m \<Longrightarrow> dec_digits n = dec_digits m \<longleftrightarrow> n = m"
  by (metis dec_digits_value)

lemma fmt_d_inject [simp]: "fmt_d i = fmt_d j \<longleftrightarrow> i = j"
proof -
  have "0 \<le> n \<Longrightarrow> dec_digits n \<noteq> CHR ''-'' # cs" for n cs
    using dec_digits_digits [of n] by (auto simp: is_digit_def)
  from this this [symmetric] show ?thesis
    by (auto simp: fmt_d_def)
qed

end
