(* ===== verification/Go_Strings.thy ===== *)
theory Go_Strings
  imports Go_Int
begin

text \<open>
  The functions of Go's \<open>strings\<close> and \<open>encoding/hex\<close> packages the code calls, with the facts the
  round trips of the write-ahead log and of the block encodings rest on: when splitting undoes
  joining, and that decoding hexadecimal text undoes encoding it.
\<close>

subsection \<open>strings\<close>

definition HasPrefix :: "string \<Rightarrow> string \<Rightarrow> bool" where
  "HasPrefix s p \<longleftrightarrow> take (length p) s = p"

definition TrimPrefix :: "string \<Rightarrow> string \<Rightarrow> string" where
  "TrimPrefix s p = (if HasPrefix s p then drop (length p) s else s)"

text \<open>\<open>strings.Index\<close>, with \<open>None\<close> for \<open>-1\<close>.\<close>

fun Index :: "string \<Rightarrow> string \<Rightarrow> nat option" where
  "Index [] sep = (if sep = [] then Some 0 else None)"
| "Index (c # cs) sep = (if HasPrefix (c # cs) sep then Some 0 else map_option Suc (Index cs sep))"

lemma Index_Some_length: "Index s sep = Some i \<Longrightarrow> i + length sep \<le> length s"
proof (induction s sep arbitrary: i rule: Index.induct)
  case (2 c cs sep)
  show ?case
  proof (cases "HasPrefix (c # cs) sep")
    case True
    then have "length (take (length sep) (c # cs)) = length sep" by (simp add: HasPrefix_def)
    with True "2.prems" show ?thesis by auto
  next
    case False
    with "2.prems" "2.IH" show ?thesis by fastforce
  qed
qed (auto split: if_splits)

text \<open>\<open>strings.Split\<close>; the separator is a non-empty constant at every call.\<close>

function Split :: "string \<Rightarrow> string \<Rightarrow> string list" where
  "Split s sep =
     (case Index s sep of
        None \<Rightarrow> [s]
      | Some i \<Rightarrow> if sep = [] then [s] else take i s # Split (drop (i + length sep) s) sep)"
  by pat_completeness auto
termination
proof (relation "measure (\<lambda>(s, sep). length s)")
  fix s sep i
  assume "Index s sep = Some i" "(sep :: string) \<noteq> []"
  moreover from this(1) have "i + length sep \<le> length s" by (rule Index_Some_length)
  ultimately show "((drop (i + length sep) s, sep), (s, sep)) \<in> measure (\<lambda>(s, sep). length s)"
    by (cases sep) auto
qed simp

text \<open>\<open>strings.SplitN\<close> with a count that is not negative: the last part keeps the rest unsplit.\<close>

fun SplitN :: "string \<Rightarrow> string \<Rightarrow> nat \<Rightarrow> string list" where
  "SplitN s sep 0 = []"
| "SplitN s sep (Suc 0) = [s]"
| "SplitN s sep (Suc (Suc n)) =
     (case Index s sep of
        None \<Rightarrow> [s]
      | Some i \<Rightarrow> take i s # SplitN (drop (i + length sep) s) sep (Suc n))"

fun Join :: "string list \<Rightarrow> string \<Rightarrow> string" where
  "Join [] sep = []"
| "Join [x] sep = x"
| "Join (x # y # xs) sep = x @ sep @ Join (y # xs) sep"

subsection \<open>encoding/hex\<close>

definition hex_digit :: "nat \<Rightarrow> char" where
  "hex_digit n = ''0123456789abcdef'' ! n"

definition EncodeToString :: "bytes \<Rightarrow> string" where
  "EncodeToString bs = concat (map (\<lambda>b. [hex_digit (unat b div 16), hex_digit (unat b mod 16)]) bs)"

definition from_hex :: "char \<Rightarrow> nat option" where
  "from_hex c =
     (let n = of_char c :: nat in
      if 48 \<le> n \<and> n \<le> 57 then Some (n - 48)
      else if 97 \<le> n \<and> n \<le> 102 then Some (n - 87)
      else if 65 \<le> n \<and> n \<le> 70 then Some (n - 55)
      else None)"

datatype hex_error = InvalidByteError char | ErrLength

fun DecodeString :: "string \<Rightarrow> hex_error + bytes" where
  "DecodeString [] = Inr []"
| "DecodeString [p] = (case from_hex p of None \<Rightarrow> Inl (InvalidByteError p) | Some _ \<Rightarrow> Inl ErrLength)"
| "DecodeString (p # q # s) =
     (case from_hex p of
        None \<Rightarrow> Inl (InvalidByteError p)
      | Some a \<Rightarrow>
          (case from_hex q of
             None \<Rightarrow> Inl (InvalidByteError q)
           | Some b \<Rightarrow>
               (case DecodeString s of
                  Inl e \<Rightarrow> Inl e
                | Inr bs \<Rightarrow> Inr (of_nat (16 * a + b) # bs))))"

subsection \<open>Prefixes\<close>

lemma HasPrefix_append [simp]: "HasPrefix (p @ s) p"
  by (simp add: HasPrefix_def)

lemma TrimPrefix_append [simp]: "TrimPrefix (p @ s) p = s"
  by (simp add: TrimPrefix_def)

lemma HasPrefix_Cons [simp]: "HasPrefix (c # s) (d # p) \<longleftrightarrow> c = d \<and> HasPrefix s p"
  by (auto simp: HasPrefix_def)

lemma HasPrefix_Nil [simp]: "HasPrefix s []" "HasPrefix [] (d # p) \<longleftrightarrow> False"
  by (auto simp: HasPrefix_def)

subsection \<open>Splitting and joining\<close>

declare Split.simps [simp del]

text \<open>
  A part \<open>p\<close> is safe before a separator when the first occurrence of the separator in \<open>p\<close>, the
  separator and anything more is the one behind \<open>p\<close>.
\<close>

definition sep_safe :: "string \<Rightarrow> string \<Rightarrow> bool" where
  "sep_safe sep p \<longleftrightarrow> (\<forall>rest. Index (p @ sep @ rest) sep = Some (length p))"

lemma Index_Nil_append [simp]: "Index (sep @ rest) sep = Some 0"
  using HasPrefix_append [of sep rest] by (cases "sep @ rest") auto

lemma sep_safe_Nil [simp]: "sep_safe sep []"
  by (simp add: sep_safe_def)

lemma sep_safe_Cons:
  "sep_safe sep p \<Longrightarrow> (\<And>rest. \<not> HasPrefix (c # p @ sep @ rest) sep) \<Longrightarrow> sep_safe sep (c # p)"
  by (simp add: sep_safe_def)

lemma Split_append_sep: "sep_safe sep p \<Longrightarrow> sep \<noteq> [] \<Longrightarrow> Split (p @ sep @ rest) sep = p # Split rest sep"
  by (subst Split.simps) (simp add: sep_safe_def)

lemma Split_single: "Index p sep = None \<Longrightarrow> Split p sep = [p]"
  by (subst Split.simps) simp

theorem Split_Join:
  assumes "sep \<noteq> []" "ps \<noteq> []" "list_all (sep_safe sep) (butlast ps)" "Index (last ps) sep = None"
  shows "Split (Join ps sep) sep = ps"
  using assms
proof (induction ps sep rule: Join.induct)
  case (2 x sep)
  then show ?case by (simp add: Split_single)
next
  case (3 x y xs sep)
  then have "Split (Join (y # xs) sep) sep = y # xs" and "sep_safe sep x"
    by auto
  then show ?case using "3.prems" by (simp add: Split_append_sep)
qed simp

lemma SplitN_append_sep: "sep_safe sep p \<Longrightarrow> SplitN (p @ sep @ rest) sep (Suc (Suc n)) = p # SplitN rest sep (Suc n)"
  by (simp add: sep_safe_def)

text \<open>A separator of one character.\<close>

lemma Index_char_None: "c \<notin> set p \<Longrightarrow> Index p [c] = None"
  by (induction p) auto

lemma sep_safe_char: "c \<notin> set p \<Longrightarrow> sep_safe [c] p"
  by (induction p) (auto intro: sep_safe_Cons)

subsection \<open>Hexadecimal round trip\<close>

lemma from_hex_hex_digit [simp]: "n < 16 \<Longrightarrow> from_hex (hex_digit n) = Some n"
proof -
  have "list_all (\<lambda>n. from_hex (hex_digit n) = Some n) [0..<16]"
    by code_simp
  then show "n < 16 \<Longrightarrow> from_hex (hex_digit n) = Some n"
    by (simp add: list_all_iff)
qed

lemma hex_byte: "(of_nat (16 * (unat b div 16) + unat b mod 16) :: byte) = b"
  by (simp only: mult_div_mod_eq) simp

lemma DecodeString_Encode [simp, go_simps]: "DecodeString (EncodeToString bs) = Inr bs"
proof (induction bs)
  case (Cons b bs)
  have "unat b div 16 < 16" using unat_byte_less [of b] by linarith
  with Cons show ?case by (simp add: EncodeToString_def hex_byte del: of_nat_add of_nat_mult)
qed (simp add: EncodeToString_def)

lemma length_EncodeToString [simp]: "length (EncodeToString bs) = 2 * length bs"
  by (induction bs) (simp_all add: EncodeToString_def)

lemma EncodeToString_inject [simp]: "EncodeToString xs = EncodeToString ys \<longleftrightarrow> xs = ys"
  by (metis DecodeString_Encode sum.inject(2))

lemma DecodeString_length: "DecodeString s = Inr bs \<Longrightarrow> length s = 2 * length bs"
  by (induction s arbitrary: bs rule: DecodeString.induct) (auto split: option.splits sum.splits)

end
