(* ===== verification/Codec.thy ===== *)
theory Codec
  imports Go_Strings
begin

text \<open>
  The block encodings of \<open>internal/storage/codec.go\<close>: integers and booleans as the 6 bytes of a banner,
  masked and written in hexadecimal, text as the 4 lines of 16 bytes of a sign. The lemmas give the
  round trip of every encoding, the shape the encoded blocks have, every error of the decoders, and
  that the null sentinel of a column of 8 bytes is no encoded value.
\<close>

unbundle bit_operations_syntax

subsection \<open>The codec\<close>

definition xormask :: byte where
  "xormask = 0x55"

definition bytesPerBanner :: nat where
  "bytesPerBanner = 6"

definition signLineLen :: nat where
  "signLineLen = 16"

definition signLines :: nat where
  "signLines = 4"

definition signMaxLen :: nat where
  "signMaxLen = signLineLen * signLines"

definition nullHex :: string where
  "nullHex = ''aaaaaaaaaaaa''"

definition nullTextMarker :: string where
  "nullTextMarker = CHR 0x00 # ''NULL'' @ [CHR 0x00]"

datatype codec_error =
    CodecInvalidHex hex_error
  | CodecInvalidHex1 hex_error
  | CodecInvalidHex2 hex_error
  | CodecExpectedBytes nat
  | CodecExpectedBytesPerBanner

text \<open>The loop \<open>b[i] ^= xormask\<close> over a slice.\<close>

definition xor_bytes :: "bytes \<Rightarrow> bytes" where
  "xor_bytes b = map (\<lambda>x. x XOR xormask) b"

definition EncodeInt32 :: "int \<Rightarrow> string" where
  "EncodeInt32 v =
     (let b = PutUint32 (uint32_of v) @ replicate (bytesPerBanner - 4) 0
      in EncodeToString (xor_bytes b))"

definition DecodeInt32 :: "string \<Rightarrow> codec_error + int" where
  "DecodeInt32 s =
     (case DecodeString s of
        Inl e \<Rightarrow> Inl (CodecInvalidHex e)
      | Inr b \<Rightarrow>
          if length b \<noteq> bytesPerBanner then Inl (CodecExpectedBytes (length b))
          else Inr (wrap32 (Uint32 (xor_bytes b))))"

definition EncodeInt64 :: "int \<Rightarrow> string \<times> string" where
  "EncodeInt64 v =
     (let b = xor_bytes (PutUint64 (uint64_of v) @ replicate (bytesPerBanner * 2 - 8) 0)
      in (EncodeToString (take 6 b), EncodeToString (take 6 (drop 6 b))))"

definition DecodeInt64 :: "string \<Rightarrow> string \<Rightarrow> codec_error + int" where
  "DecodeInt64 s1 s2 =
     (case DecodeString s1 of
        Inl e \<Rightarrow> Inl (CodecInvalidHex1 e)
      | Inr b1 \<Rightarrow>
          (case DecodeString s2 of
             Inl e \<Rightarrow> Inl (CodecInvalidHex2 e)
           | Inr b2 \<Rightarrow>
               if length b1 \<noteq> bytesPerBanner \<or> length b2 \<noteq> bytesPerBanner
               then Inl CodecExpectedBytesPerBanner
               else Inr (wrap64 (Uint64 (xor_bytes (take 6 b1 @ take 2 b2))))))"

definition EncodeNull :: "string \<times> string" where
  "EncodeNull = (nullHex, nullHex)"

definition IsNull :: "string \<Rightarrow> string \<Rightarrow> bool" where
  "IsNull s1 s2 \<longleftrightarrow> s1 = nullHex \<and> s2 = nullHex"

definition EncodeBool :: "bool \<Rightarrow> string" where
  "EncodeBool v =
     (let b = (if v then 1 else 0) # replicate (bytesPerBanner - 1) 0
      in EncodeToString (xor_bytes b))"

definition DecodeBool :: "string \<Rightarrow> codec_error + bool" where
  "DecodeBool s =
     (case DecodeString s of
        Inl e \<Rightarrow> Inl (CodecInvalidHex e)
      | Inr b \<Rightarrow>
          if length b \<noteq> bytesPerBanner then Inl (CodecExpectedBytes (length b))
          else Inr (b ! 0 XOR xormask \<noteq> 0))"

text \<open>
  \<open>[4]string\<close> is a list of four strings. The first loop of \<open>EncodeText\<close> runs over the lines with the
  position reached so far; the second takes the lines of the truncated text by their index.
\<close>

fun text_lines :: "nat \<Rightarrow> nat \<Rightarrow> string \<Rightarrow> string list" where
  "text_lines 0 pos b = []"
| "text_lines (Suc k) pos b =
     (let n = (if pos + signLineLen > length b then length b - pos else signLineLen)
      in (if n > 0 then take n (drop pos b) else []) # text_lines k (pos + n) b)"

definition content_line :: "string \<Rightarrow> nat \<Rightarrow> string" where
  "content_line content i =
     (let start = i * signLineLen; end = start + signLineLen
      in if start < length content
         then (let end = (if end > length content then length content else end)
               in take (end - start) (drop start content))
         else [])"

definition EncodeText :: "string \<Rightarrow> string list" where
  "EncodeText b =
     (if length b \<le> signMaxLen then text_lines signLines 0 b
      else
        (let content = take (signMaxLen - 3) b;
             start = (signLines - 1) * signLineLen
         in map (content_line content) [0..<signLines - 1] @
            [if start < length content then drop start content @ ''...'' else ''...'']))"

definition DecodeText :: "string list \<Rightarrow> string" where
  "DecodeText lines = lines ! 0 @ lines ! 1 @ lines ! 2 @ lines ! 3"

definition NullText :: "string list" where
  "NullText = [nullTextMarker, [], [], []]"

definition IsNullText :: "string list \<Rightarrow> bool" where
  "IsNullText lines \<longleftrightarrow> lines ! 0 = nullTextMarker"

subsection \<open>Masking\<close>

lemmas codec_consts = bytesPerBanner_def signLineLen_def signLines_def signMaxLen_def

lemma xor_bytes_xor_bytes [simp]: "xor_bytes (xor_bytes b) = b"
  by (induction b) (simp_all add: xor_bytes_def xor.assoc)

lemma length_xor_bytes [simp]: "length (xor_bytes b) = length b"
  by (simp add: xor_bytes_def)

lemma xor_bytes_append [simp]: "xor_bytes (a @ b) = xor_bytes a @ xor_bytes b"
  by (simp add: xor_bytes_def)

lemma take_drop_xor_bytes: "take n (xor_bytes b) = xor_bytes (take n b)" "drop n (xor_bytes b) = xor_bytes (drop n b)"
  by (simp_all add: xor_bytes_def take_map drop_map)

lemma xor_mask_zero: "x XOR xormask = 0 \<longleftrightarrow> x = xormask"
  by (metis xor.right_neutral xor.assoc xor_self_eq xor.left_neutral)

subsection \<open>Integers and booleans\<close>

lemma decode_encode_int32 [simp, go_simps]: "in_i32 v \<Longrightarrow> DecodeInt32 (EncodeInt32 v) = Inr v"
  using uint32_of_mod [of v]
  by (simp add: DecodeInt32_def EncodeInt32_def Let_def codec_consts numeral_2_eq_2)

text \<open>The two banners of an \<open>int64\<close>: its first 6 bytes, and its last 2 with 4 bytes of padding.\<close>

lemma EncodeInt64_eq:
  "EncodeInt64 v =
     (let p = PutUint64 (uint64_of v)
      in (EncodeToString (xor_bytes (take 6 p)), EncodeToString (xor_bytes (drop 6 p @ replicate 4 0))))"
  by (simp add: EncodeInt64_def Let_def codec_consts take_drop_xor_bytes del: xor_bytes_append)

lemma decode_encode_int64:
  assumes "in_i64 v"
  shows "DecodeInt64 (fst (EncodeInt64 v)) (snd (EncodeInt64 v)) = Inr v"
proof -
  let ?p = "PutUint64 (uint64_of v)"
  have "take 2 (drop 6 ?p @ replicate 4 0) = drop 6 ?p"
    by simp
  then have "xor_bytes (take 6 (xor_bytes (take 6 ?p)) @ take 2 (xor_bytes (drop 6 ?p @ replicate 4 0))) = ?p"
    by (simp add: take_drop_xor_bytes del: xor_bytes_append take_append) (simp add: append_take_drop_id)
  moreover have "Uint64 ?p = uint64_of v"
    using Uint64_Put [of "uint64_of v" "[]"] uint64_of_mod [of v] by simp
  ultimately show ?thesis
    using assms by (simp add: DecodeInt64_def EncodeInt64_eq Let_def codec_consts del: xor_bytes_append take_append)
qed

lemma decode_encode_int64_pair [simp, go_simps]:
  "in_i64 v \<Longrightarrow> EncodeInt64 v = (a, b) \<Longrightarrow> DecodeInt64 a b = Inr v"
  using decode_encode_int64 [of v] by simp

lemma DecodeInt32_range: "DecodeInt32 s = Inr v \<Longrightarrow> in_i32 v"
  by (auto simp: DecodeInt32_def split: sum.splits if_splits)

lemma DecodeInt64_range: "DecodeInt64 a b = Inr v \<Longrightarrow> in_i64 v"
  by (auto simp: DecodeInt64_def split: sum.splits if_splits)

text \<open>The mask turns the zero padding of the second banner into \<open>0x55\<close>; the sentinel has \<open>0xaa\<close> there.\<close>

lemma nullHex_eq: "nullHex = EncodeToString (replicate 6 0xAA)"
  by code_simp

lemma xor_bytes_zeros: "xor_bytes (replicate n 0) = replicate n xormask"
  by (simp add: xor_bytes_def)

lemma EncodeInt64_not_null: "snd (EncodeInt64 v) \<noteq> nullHex"
proof
  let ?p = "PutUint64 (uint64_of v)"
  assume "snd (EncodeInt64 v) = nullHex"
  then have "xor_bytes (drop 6 ?p) @ replicate 4 xormask = replicate 6 0xAA"
    by (simp add: EncodeInt64_eq Let_def nullHex_eq xor_bytes_zeros)
  then have "last (xor_bytes (drop 6 ?p) @ replicate 4 xormask) = last (replicate 6 0xAA)"
    by (rule arg_cong)
  then show False
    by (simp add: xormask_def)
qed

lemma IsNull_EncodeInt64 [simp, go_simps]: "EncodeInt64 v = (a, b) \<Longrightarrow> \<not> IsNull a b"
  using EncodeInt64_not_null [of v] by (simp add: IsNull_def)

lemma IsNull_EncodeNull [simp, go_simps]: "IsNull (fst EncodeNull) (snd EncodeNull)"
  by (simp add: IsNull_def EncodeNull_def)

lemma decode_encode_bool [simp, go_simps]: "DecodeBool (EncodeBool v) = Inr v"
  by (simp add: DecodeBool_def EncodeBool_def Let_def codec_consts xor_bytes_def xormask_def)

text \<open>Every encoded block is the 12 hexadecimal digits of one banner.\<close>

lemma length_EncodeInt32 [simp]: "length (EncodeInt32 v) = 12"
  by (simp add: EncodeInt32_def Let_def codec_consts)

lemma length_EncodeBool [simp]: "length (EncodeBool v) = 12"
  by (simp add: EncodeBool_def Let_def codec_consts)

lemma length_EncodeInt64: "length (fst (EncodeInt64 v)) = 12" "length (snd (EncodeInt64 v)) = 12"
  by (simp_all add: EncodeInt64_eq Let_def)

lemma length_EncodeInt64_pair [simp]: "EncodeInt64 v = (a, b) \<Longrightarrow> length a = 12 \<and> length b = 12"
  using length_EncodeInt64 [of v] by simp

lemma length_nullHex [simp]: "length nullHex = 12"
  by (simp add: nullHex_def)

lemma EncodeInt64_inject:
  "in_i64 v \<Longrightarrow> in_i64 w \<Longrightarrow> EncodeInt64 v = EncodeInt64 w \<longleftrightarrow> v = w"
  by (metis decode_encode_int64 sum.inject(2))

subsection \<open>Text\<close>

lemma text_lines_eq:
  "text_lines k (min (length b) pos) b = map (\<lambda>i. take signLineLen (drop (pos + signLineLen * i) b)) [0..<k]"
proof (induction k arbitrary: pos)
  case (Suc k)
  have "text_lines (Suc k) (min (length b) pos) b =
      take signLineLen (drop pos b) # text_lines k (min (length b) (pos + signLineLen)) b"
    by (auto simp: Let_def min_def)
  with Suc show ?case by (simp add: map_upt_Suc add.assoc del: upt_Suc text_lines.simps)
qed simp

lemma upt_lines: "[0..<3] = [0, 1, 2]" "[0..<4] = [0, 1, 2, 3]"
  by (simp_all add: upt_rec)

lemma EncodeText_short:
  assumes "length b \<le> signMaxLen"
  shows "EncodeText b = [take 16 b, take 16 (drop 16 b), take 16 (drop 32 b), drop 48 b]"
  using assms text_lines_eq [of 4 b 0] by (simp add: EncodeText_def codec_consts upt_lines)

lemma EncodeText_long:
  assumes "length b > signMaxLen"
  shows "EncodeText b = [take 16 b, take 16 (drop 16 b), take 16 (drop 32 b), take 13 (drop 48 b) @ ''...'']"
  using assms by (simp add: EncodeText_def content_line_def codec_consts Let_def upt_lines drop_take)

lemma length_EncodeText [simp]: "length (EncodeText b) = 4"
  by (cases "length b \<le> signMaxLen") (simp_all add: EncodeText_short EncodeText_long)

lemma EncodeText_lines:
  "list_all (\<lambda>l. length l \<le> signLineLen) (EncodeText b)"
  by (cases "length b \<le> signMaxLen") (auto simp: EncodeText_short EncodeText_long codec_consts)

lemma lines_append:
  "take 16 b @ take 16 (drop 16 b) @ take 16 (drop 32 b) @ take n (drop 48 b) = take (48 + n) b"
  using take_add [of 48 n b] take_add [of 32 16 b] take_add [of 16 16 b] by simp

lemma decode_encode_text:
  "DecodeText (EncodeText b) =
     (if length b \<le> signMaxLen then b else take (signMaxLen - 3) b @ ''...'')"
proof (cases "length b \<le> signMaxLen")
  case True
  have "take 16 b @ take 16 (drop 16 b) @ take 16 (drop 32 b) @ drop 48 b = b"
    using lines_append [of b "length b"] by simp
  with True show ?thesis by (simp add: DecodeText_def EncodeText_short)
next
  case False
  with lines_append [of b 13] show ?thesis
    by (simp add: DecodeText_def EncodeText_long codec_consts)
qed

lemma IsNullText_NullText [simp]: "IsNullText NullText"
  by (simp add: IsNullText_def NullText_def)

lemma IsNullText_EncodeText: "IsNullText (EncodeText b) \<longleftrightarrow> b = nullTextMarker"
proof -
  have "EncodeText b ! 0 = take 16 b"
    by (cases "length b \<le> signMaxLen") (simp_all add: EncodeText_short EncodeText_long)
  moreover have "take 16 b = nullTextMarker \<longleftrightarrow> b = nullTextMarker"
  proof
    assume *: "take 16 b = nullTextMarker"
    then have "length (take 16 b) = 6" by (simp add: nullTextMarker_def)
    then have "take 16 b = b" by simp
    with * show "b = nullTextMarker" by simp
  qed (simp add: nullTextMarker_def)
  ultimately show ?thesis by (simp add: IsNullText_def)
qed


subsection \<open>What the decoders accept\<close>

lemma DecodeString_ok: "(\<exists>bs. DecodeString s = Inr bs) \<longleftrightarrow> even (length s) \<and> list_all (\<lambda>c. from_hex c \<noteq> None) s"
proof (induction s rule: DecodeString.induct)
  case (3 p q s)
  then show ?case
    by (cases "from_hex p"; cases "from_hex q"; cases "DecodeString s") auto
qed (auto split: option.splits)

definition is_banner :: "string \<Rightarrow> bool" where
  "is_banner s \<longleftrightarrow> length s = 12 \<and> list_all (\<lambda>c. from_hex c \<noteq> None) s"

lemma is_banner_DecodeString: "is_banner s \<longleftrightarrow> (\<exists>bs. DecodeString s = Inr bs \<and> length bs = bytesPerBanner)"
proof
  assume b: "is_banner s"
  then obtain bs where "DecodeString s = Inr bs"
    using DecodeString_ok [of s] by (auto simp: is_banner_def)
  with b DecodeString_length [OF this] show "\<exists>bs. DecodeString s = Inr bs \<and> length bs = bytesPerBanner"
    by (auto simp: is_banner_def codec_consts)
next
  assume "\<exists>bs. DecodeString s = Inr bs \<and> length bs = bytesPerBanner"
  then obtain bs where bs: "DecodeString s = Inr bs" "length bs = bytesPerBanner" by blast
  with DecodeString_ok [of s] DecodeString_length [OF bs(1)] show "is_banner s"
    by (auto simp: is_banner_def codec_consts)
qed

lemma EncodeInt32_banner: "is_banner (EncodeInt32 v)"
  by (simp add: is_banner_DecodeString EncodeInt32_def Let_def codec_consts)

lemma EncodeBool_banner: "is_banner (EncodeBool v)"
  by (simp add: is_banner_DecodeString EncodeBool_def Let_def codec_consts)

lemma EncodeInt64_banner: "is_banner (fst (EncodeInt64 v))" "is_banner (snd (EncodeInt64 v))"
  by (simp_all add: is_banner_DecodeString EncodeInt64_eq Let_def codec_consts)

subsection \<open>Properties\<close>

text \<open>
  Property C19: a banner holds every value its column type allows. Encoding an \<open>int32\<close>, an \<open>int64\<close> or a
  boolean and decoding the result gives the value back, each block is the 12 hexadecimal digits of one
  banner, and the two banners of an \<open>int64\<close> are never the null sentinel that marks a live row.
\<close>

theorem banner_roundtrip:
  assumes "in_i32 v" "in_i64 n"
  shows "DecodeInt32 (EncodeInt32 v) = Inr v \<and> is_banner (EncodeInt32 v) \<and>
    (case EncodeInt64 n of (a, b) \<Rightarrow>
       DecodeInt64 a b = Inr n \<and> is_banner a \<and> is_banner b \<and> \<not> IsNull a b) \<and>
    DecodeBool (EncodeBool p) = Inr p \<and> is_banner (EncodeBool p)"
  using assms decode_encode_int64_pair [of n] EncodeInt64_banner [of n]
  by (auto simp: EncodeInt32_banner EncodeBool_banner split: prod.splits)

theorem banner_roundtrip_witness:
  "DecodeInt32 (EncodeInt32 (- 5)) = Inr (- 5) \<and>
   (case EncodeInt64 (- (2 ^ 63)) of (a, b) \<Rightarrow> DecodeInt64 a b = Inr (- (2 ^ 63)) \<and> \<not> IsNull a b)"
  using banner_roundtrip [of "- 5" "- (2 ^ 63)" True] by (simp add: in_i32_def in_i64_def split: prod.splits)

text \<open>
  Property C20: the decoders of banners reject exactly the blocks that are not the 12 hexadecimal
  digits of one banner (of two, for an \<open>int64\<close>), and every number they return is in the range of its type.
\<close>

theorem banner_decode_total:
  "((\<exists>v. DecodeInt32 s = Inr v \<and> in_i32 v) \<longleftrightarrow> is_banner s) \<and>
   ((\<exists>p. DecodeBool s = Inr p) \<longleftrightarrow> is_banner s) \<and>
   ((\<exists>n. DecodeInt64 s t = Inr n \<and> in_i64 n) \<longleftrightarrow> is_banner s \<and> is_banner t)"
  by (auto simp: is_banner_DecodeString DecodeInt32_def DecodeInt64_def DecodeBool_def split: sum.splits)

text \<open>
  Property C21: a sign holds a text of at most 64 bytes unchanged; of a longer one it keeps the first 61
  bytes and ends in three dots. Whatever the text, the sign has 4 lines of at most 16 bytes, and only
  the null marker itself is taken for a null text.
\<close>

theorem sign_roundtrip:
  "DecodeText (EncodeText b) = (if length b \<le> 64 then b else take 61 b @ ''...'') \<and>
   length (EncodeText b) = 4 \<and> list_all (\<lambda>l. length l \<le> 16) (EncodeText b) \<and>
   (IsNullText (EncodeText b) \<longleftrightarrow> b = nullTextMarker)"
  using decode_encode_text [of b] EncodeText_lines [of b] IsNullText_EncodeText [of b]
  by (simp add: codec_consts)

end
