(* ===== verification/Hal.thy ===== *)
theory Hal
  imports Codec
begin

text \<open>
  The storage interface of \<open>internal/hal/hal.go\<close>. A Go value of the interface type \<open>hal.Storage\<close> is a
  record of its six methods, each taking the state \<open>'w\<close> of the implementation behind it and
  returning the new one; \<open>'e\<close> is the implementation's error type. The context argument carries only
  deadlines and cancellation, which an implementation may answer with an error.

  The locale \<open>hal_store\<close> states what the write-ahead log and the storage layer rely on: a block store
  whose reads return what the last write to a position left there, and where a failed call may have
  happened or not (for a batch: in part, in order). \<open>hal_reliable\<close> adds that no call fails. The mock
  (theory \<open>Hal_Mock\<close>) is an instance of both; the same mock behind a connection that breaks
  after some number of calls is an instance of the first.
\<close>

definition BlockTypeBarrel :: byte where "BlockTypeBarrel = 0x00"

definition BlockTypeBanner :: byte where "BlockTypeBanner = 0x01"

definition BlockTypeSign :: byte where "BlockTypeSign = 0x02"

definition BlockTypeLectern :: byte where "BlockTypeLectern = 0x03"

record BlockPos =
  PosX :: int
  PosY :: int
  PosZ :: int

record BlockWrite =
  Pos :: BlockPos
  BlockType :: byte
  Data :: bytes

record ('w, 'e) hal =
  ReadBlock :: "int \<Rightarrow> int \<Rightarrow> int \<Rightarrow> 'w \<Rightarrow> ('e + bytes option) \<times> 'w"
  WriteBlock :: "int \<Rightarrow> int \<Rightarrow> int \<Rightarrow> byte \<Rightarrow> bytes \<Rightarrow> 'w \<Rightarrow> ('e + unit) \<times> 'w"
  BatchRead :: "BlockPos list \<Rightarrow> 'w \<Rightarrow> ('e + bytes option list) \<times> 'w"
  BatchWrite :: "BlockWrite list \<Rightarrow> 'w \<Rightarrow> ('e + unit) \<times> 'w"
  ForceLoadChunk :: "int \<Rightarrow> int \<Rightarrow> 'w \<Rightarrow> ('e + unit) \<times> 'w"
  IsChunkLoaded :: "int \<Rightarrow> int \<Rightarrow> 'w \<Rightarrow> ('e + bool) \<times> 'w"

text \<open>The world as a client sees it: the data of every block, with none for air.\<close>

type_synonym blocks = "int \<times> int \<times> int \<Rightarrow> bytes option"

text \<open>Writing a block: no data sets it to air.\<close>

definition put_block :: "int \<times> int \<times> int \<Rightarrow> bytes \<Rightarrow> blocks \<Rightarrow> blocks" where
  "put_block p d b = b(p := (if d = [] then None else Some d))"

definition pos_key :: "BlockPos \<Rightarrow> int \<times> int \<times> int" where
  "pos_key p = (PosX p, PosY p, PosZ p)"

definition put_write :: "BlockWrite \<Rightarrow> blocks \<Rightarrow> blocks" where
  "put_write bw b = put_block (pos_key (Pos bw)) (Data bw) b"

definition put_writes :: "BlockWrite list \<Rightarrow> blocks \<Rightarrow> blocks" where
  "put_writes ws b = fold put_write ws b"

text \<open>A literal \<open>hal.BlockPos{X: x, Y: y, Z: z}\<close> and \<open>hal.BlockWrite{...}\<close>.\<close>

definition mk_pos :: "int \<Rightarrow> int \<Rightarrow> int \<Rightarrow> BlockPos" where
  "mk_pos x y z = \<lparr>PosX = x, PosY = y, PosZ = z\<rparr>"

definition mk_write :: "int \<Rightarrow> int \<Rightarrow> int \<Rightarrow> byte \<Rightarrow> bytes \<Rightarrow> BlockWrite" where
  "mk_write x y z t d = \<lparr>Pos = mk_pos x y z, BlockType = t, Data = d\<rparr>"

named_theorems hal_simps

lemma pos_key_mk_pos [simp, hal_simps]: "pos_key (mk_pos x y z) = (x, y, z)"
  by (simp add: pos_key_def mk_pos_def)

lemma mk_pos_sel [simp, hal_simps]:
  "PosX (mk_pos x y z) = x" "PosY (mk_pos x y z) = y" "PosZ (mk_pos x y z) = z"
  by (simp_all add: mk_pos_def)

lemma mk_write_sel [simp, hal_simps]:
  "Pos (mk_write x y z t d) = mk_pos x y z" "BlockType (mk_write x y z t d) = t" "Data (mk_write x y z t d) = d"
  by (simp_all add: mk_write_def)

lemma put_write_mk [simp, hal_simps]: "put_write (mk_write x y z t d) = put_block (x, y, z) d"
  by (simp add: put_write_def fun_eq_iff)

lemma put_writes_simps [simp, hal_simps]:
  "put_writes [] b = b" "put_writes (bw # bws) b = put_writes bws (put_write bw b)"
  "put_writes (bws @ bws') b = put_writes bws' (put_writes bws b)"
  by (simp_all add: put_writes_def)

lemma put_block_apply: "put_block p d b q = (if q = p then (if d = [] then None else Some d) else b q)"
  by (simp add: put_block_def)

lemma put_block_same [simp, hal_simps]: "put_block p d b p = (if d = [] then None else Some d)"
  by (simp add: put_block_def)

lemma put_block_other [simp, hal_simps]: "q \<noteq> p \<Longrightarrow> put_block p d b q = b q"
  by (simp add: put_block_def)

lemma put_block_no_empty: "\<forall>q. b q \<noteq> Some [] \<Longrightarrow> \<forall>q. put_block p d b q \<noteq> Some []"
  by (simp add: put_block_def)

lemma put_writes_frame: "\<forall>bw \<in> set ws. pos_key (Pos bw) \<noteq> q \<Longrightarrow> put_writes ws b q = b q"
  by (induction ws arbitrary: b) (auto simp: put_write_def put_block_def)

subsection \<open>The contract\<close>

locale hal_store =
  fixes h :: "('w, 'e) hal"
    and blocks :: "'w \<Rightarrow> blocks"
    and world_ok :: "'w \<Rightarrow> bool"
  assumes blocks_no_empty: "world_ok w \<Longrightarrow> blocks w p \<noteq> Some []"
    and read_law: "world_ok w \<Longrightarrow> ReadBlock h x y z w = (r, w') \<Longrightarrow>
      world_ok w' \<and> blocks w' = blocks w \<and> (\<forall>d. r = Inr d \<longrightarrow> d = blocks w (x, y, z))"
    and write_law: "world_ok w \<Longrightarrow> WriteBlock h x y z t d w = (rw, w') \<Longrightarrow>
      world_ok w' \<and>
      (case rw of Inr _ \<Rightarrow> blocks w' = put_block (x, y, z) d (blocks w)
               | Inl _ \<Rightarrow> blocks w' = blocks w \<or> blocks w' = put_block (x, y, z) d (blocks w))"
    and batch_read_law: "world_ok w \<Longrightarrow> BatchRead h ps w = (rb, w') \<Longrightarrow>
      world_ok w' \<and> blocks w' = blocks w \<and> (\<forall>ds. rb = Inr ds \<longrightarrow> ds = map (blocks w \<circ> pos_key) ps)"
    and batch_write_law: "world_ok w \<Longrightarrow> BatchWrite h ws w = (rbw, w') \<Longrightarrow>
      world_ok w' \<and>
      (case rbw of Inr _ \<Rightarrow> blocks w' = put_writes ws (blocks w)
               | Inl _ \<Rightarrow> \<exists>k \<le> length ws. blocks w' = put_writes (take k ws) (blocks w))"
    and force_law: "world_ok w \<Longrightarrow> ForceLoadChunk h cx cz w = (rf, w') \<Longrightarrow>
      world_ok w' \<and> blocks w' = blocks w"
begin

lemma read_ok:
  "world_ok w \<Longrightarrow> ReadBlock h x y z w = (r, w') \<Longrightarrow> world_ok w'"
  "world_ok w \<Longrightarrow> ReadBlock h x y z w = (r, w') \<Longrightarrow> blocks w' = blocks w"
  "world_ok w \<Longrightarrow> ReadBlock h x y z w = (Inr d, w') \<Longrightarrow> d = blocks w (x, y, z)"
  using read_law by blast+

lemma write_ok:
  "world_ok w \<Longrightarrow> WriteBlock h x y z t d w = (r, w') \<Longrightarrow> world_ok w'"
  "world_ok w \<Longrightarrow> WriteBlock h x y z t d w = (Inr u, w') \<Longrightarrow> blocks w' = put_block (x, y, z) d (blocks w)"
  "world_ok w \<Longrightarrow> WriteBlock h x y z t d w = (Inl e, w') \<Longrightarrow>
     blocks w' = blocks w \<or> blocks w' = put_block (x, y, z) d (blocks w)"
  using write_law [of w x y z t d] by fastforce+

lemma batch_read_ok:
  "world_ok w \<Longrightarrow> BatchRead h ps w = (r, w') \<Longrightarrow> world_ok w'"
  "world_ok w \<Longrightarrow> BatchRead h ps w = (r, w') \<Longrightarrow> blocks w' = blocks w"
  "world_ok w \<Longrightarrow> BatchRead h ps w = (Inr ds, w') \<Longrightarrow> ds = map (blocks w \<circ> pos_key) ps"
  using batch_read_law by blast+

lemma batch_write_ok:
  "world_ok w \<Longrightarrow> BatchWrite h ws w = (r, w') \<Longrightarrow> world_ok w'"
  "world_ok w \<Longrightarrow> BatchWrite h ws w = (Inr u, w') \<Longrightarrow> blocks w' = put_writes ws (blocks w)"
  "world_ok w \<Longrightarrow> BatchWrite h ws w = (Inl e, w') \<Longrightarrow>
     \<exists>k \<le> length ws. blocks w' = put_writes (take k ws) (blocks w)"
  using batch_write_law [of w ws] by fastforce+

lemma force_ok:
  "world_ok w \<Longrightarrow> ForceLoadChunk h cx cz w = (r, w') \<Longrightarrow> world_ok w'"
  "world_ok w \<Longrightarrow> ForceLoadChunk h cx cz w = (r, w') \<Longrightarrow> blocks w' = blocks w"
  using force_law by blast+

lemmas hal_world = read_ok(1) write_ok(1) batch_read_ok(1) batch_write_ok(1) force_ok(1)

lemmas hal_blocks = read_ok(2,3) write_ok(2) batch_read_ok(2,3) batch_write_ok(2) force_ok(2)

end

locale hal_reliable = hal_store +
  assumes read_total: "world_ok w \<Longrightarrow> \<exists>d. fst (ReadBlock h x y z w) = Inr d"
    and write_total: "world_ok w \<Longrightarrow> \<exists>u. fst (WriteBlock h x y z t d w) = Inr u"
    and batch_read_total: "world_ok w \<Longrightarrow> \<exists>ds. fst (BatchRead h ps w) = Inr ds"
    and batch_write_total: "world_ok w \<Longrightarrow> \<exists>u. fst (BatchWrite h ws w) = Inr u"
    and force_total: "world_ok w \<Longrightarrow> \<exists>u. fst (ForceLoadChunk h cx cz w) = Inr u"
begin

text \<open>What each call does, as a rule for symbolic execution: the result, and the world after it.\<close>

lemma read_run:
  assumes "world_ok w"
  obtains w' where "ReadBlock h x y z w = (Inr (blocks w (x, y, z)), w')" "world_ok w'" "blocks w' = blocks w"
proof -
  obtain r w' where rw: "ReadBlock h x y z w = (r, w')" by (cases "ReadBlock h x y z w")
  with read_total [OF assms, of x y z] obtain d where r: "r = Inr d" by auto
  with rw read_law [OF assms rw] that show thesis by auto
qed

lemma write_run:
  assumes "world_ok w"
  obtains w' where "WriteBlock h x y z t d w = (Inr (), w')" "world_ok w'"
    "blocks w' = put_block (x, y, z) d (blocks w)"
proof -
  obtain r w' where rw: "WriteBlock h x y z t d w = (r, w')" by (cases "WriteBlock h x y z t d w")
  with write_total [OF assms, of x y z t d] obtain u where r: "r = Inr u" by auto
  with rw write_law [OF assms rw] that show thesis by auto
qed

lemma batch_read_run:
  assumes "world_ok w"
  obtains w' where "BatchRead h ps w = (Inr (map (blocks w \<circ> pos_key) ps), w')" "world_ok w'" "blocks w' = blocks w"
proof -
  obtain r w' where rw: "BatchRead h ps w = (r, w')" by (cases "BatchRead h ps w")
  with batch_read_total [OF assms, of ps] obtain d where r: "r = Inr d" by auto
  with rw batch_read_law [OF assms rw] that show thesis by auto
qed

lemma batch_write_run:
  assumes "world_ok w"
  obtains w' where "BatchWrite h ws w = (Inr (), w')" "world_ok w'" "blocks w' = put_writes ws (blocks w)"
proof -
  obtain r w' where rw: "BatchWrite h ws w = (r, w')" by (cases "BatchWrite h ws w")
  with batch_write_total [OF assms, of ws] obtain u where r: "r = Inr u" by auto
  with rw batch_write_law [OF assms rw] that show thesis by auto
qed

lemma force_run:
  assumes "world_ok w"
  obtains w' where "ForceLoadChunk h cx cz w = (Inr (), w')" "world_ok w'" "blocks w' = blocks w"
proof -
  obtain r w' where rw: "ForceLoadChunk h cx cz w = (r, w')" by (cases "ForceLoadChunk h cx cz w")
  with force_total [OF assms, of cx cz] obtain u where r: "r = Inr u" by auto
  with rw force_law [OF assms rw] that show thesis by auto
qed

end

end
