(* ===== verification/Hal_Mock.thy ===== *)
theory Hal_Mock
  imports Hal
begin

text \<open>
  The in-memory implementation of the storage interface, \<open>internal/hal/mock/mock.go\<close>: a Go map from
  the printed coordinates of a block to its data. It is shown to be a reliable block store, which
  rests on the printed coordinates telling any two positions apart. A second instance puts any
  store behind a connection that breaks: after a number of calls every further call fails, and the
  batch in flight is written only in part. It has the contract without the reliability.
\<close>

record mock =
  store :: "bytes gomap"

definition NewStorage_mock :: mock where
  "NewStorage_mock = \<lparr>store = []\<rparr>"

definition posKey :: "int \<Rightarrow> int \<Rightarrow> int \<Rightarrow> string" where
  "posKey x y z = fmt_d x @ '','' @ fmt_d y @ '','' @ fmt_d z"

definition mock_ReadBlock :: "int \<Rightarrow> int \<Rightarrow> int \<Rightarrow> mock \<Rightarrow> ('e + bytes option) \<times> mock" where
  "mock_ReadBlock x y z s =
     (case map_of (store s) (posKey x y z) of
        None \<Rightarrow> (Inr None, s)
      | Some data \<Rightarrow> (Inr (Some data), s))"

definition mock_WriteBlock :: "int \<Rightarrow> int \<Rightarrow> int \<Rightarrow> byte \<Rightarrow> bytes \<Rightarrow> mock \<Rightarrow> ('e + unit) \<times> mock" where
  "mock_WriteBlock x y z blockType data s =
     (let key = posKey x y z
      in if data = [] then (Inr (), s\<lparr>store := AList.delete key (store s)\<rparr>)
         else (Inr (), s\<lparr>store := AList.update key data (store s)\<rparr>))"

definition mock_BatchRead :: "BlockPos list \<Rightarrow> mock \<Rightarrow> ('e + bytes option list) \<times> mock" where
  "mock_BatchRead positions s =
     (Inr (map (\<lambda>p. map_of (store s) (posKey (PosX p) (PosY p) (PosZ p))) positions), s)"

definition mock_IsChunkLoaded :: "int \<Rightarrow> int \<Rightarrow> mock \<Rightarrow> ('e + bool) \<times> mock" where
  "mock_IsChunkLoaded chunkX chunkZ s = (Inr True, s)"

fun mock_BatchWrite :: "BlockWrite list \<Rightarrow> mock \<Rightarrow> ('e + unit) \<times> mock" where
  "mock_BatchWrite [] s = (Inr (), s)"
| "mock_BatchWrite (w # ws) s =
     (case mock_WriteBlock (PosX (Pos w)) (PosY (Pos w)) (PosZ (Pos w)) (BlockType w) (Data w) s of
        (Inl err, s') \<Rightarrow> (Inl err, s')
      | (Inr _, s') \<Rightarrow> mock_BatchWrite ws s')"

definition mock_ForceLoadChunk :: "int \<Rightarrow> int \<Rightarrow> mock \<Rightarrow> ('e + unit) \<times> mock" where
  "mock_ForceLoadChunk chunkX chunkZ s = (Inr (), s)"

definition mock_hal :: "(mock, 'e) hal" where
  "mock_hal =
     \<lparr>ReadBlock = mock_ReadBlock, WriteBlock = mock_WriteBlock, BatchRead = mock_BatchRead,
      BatchWrite = mock_BatchWrite, ForceLoadChunk = mock_ForceLoadChunk,
      IsChunkLoaded = mock_IsChunkLoaded\<rparr>"

text \<open>The world the mock holds.\<close>

definition mock_blocks :: "mock \<Rightarrow> blocks" where
  "mock_blocks s = (\<lambda>(x, y, z). map_of (store s) (posKey x y z))"

definition mock_ok :: "mock \<Rightarrow> bool" where
  "mock_ok s \<longleftrightarrow> gomap_ok (store s) \<and> [] \<notin> snd ` set (store s)"

subsection \<open>A connection that breaks\<close>

text \<open>
  The state is the state behind the connection with the number of calls it still answers. The call
  that finds it broken fails; a batch of writes has \<open>torn\<close> of its blocks written by then.
\<close>

definition limited :: "('w \<Rightarrow> ('e + 'a) \<times> 'w) \<Rightarrow> 'w \<times> nat \<Rightarrow> ('e option + 'a) \<times> 'w \<times> nat" where
  "limited f s =
     (case s of
        (w, 0) \<Rightarrow> (Inl None, (w, 0))
      | (w, Suc n) \<Rightarrow> (case f w of (r, w') \<Rightarrow> (map_sum Some id r, (w', n))))"

definition breaking :: "nat \<Rightarrow> ('w, 'e) hal \<Rightarrow> ('w \<times> nat, 'e option) hal" where
  "breaking torn h =
     \<lparr>ReadBlock = (\<lambda>x y z. limited (ReadBlock h x y z)),
      WriteBlock = (\<lambda>x y z t d. limited (WriteBlock h x y z t d)),
      BatchRead = (\<lambda>ps. limited (BatchRead h ps)),
      BatchWrite = (\<lambda>ws s. if snd s = 0 \<and> ws \<noteq> []
                           then (Inl None, (snd (BatchWrite h (take torn ws) (fst s)), 0))
                           else limited (BatchWrite h ws) s),
      ForceLoadChunk = (\<lambda>cx cz. limited (ForceLoadChunk h cx cz)),
      IsChunkLoaded = (\<lambda>cx cz. limited (IsChunkLoaded h cx cz))\<rparr>"

subsection \<open>Printed coordinates\<close>

lemma append_sep_inject:
  "c \<notin> set a \<Longrightarrow> c \<notin> set b \<Longrightarrow> a @ c # r = b @ c # t \<longleftrightarrow> a = b \<and> r = t"
proof (induction a arbitrary: b)
  case Nil
  then show ?case by (cases b) auto
next
  case (Cons x a)
  then show ?case by (cases b) auto
qed

lemma posKey_inject [simp]: "posKey x y z = posKey x' y' z' \<longleftrightarrow> x = x' \<and> y = y' \<and> z = z'"
  by (simp add: posKey_def append_sep_inject)

subsection \<open>The mock is a block store\<close>

lemma mock_ok_new [simp]: "mock_ok NewStorage_mock"
  by (simp add: mock_ok_def NewStorage_mock_def gomap_ok_def)

lemma mock_blocks_new: "mock_blocks NewStorage_mock = (\<lambda>_. None)"
  by (simp add: mock_blocks_def NewStorage_mock_def fun_eq_iff)

lemma mock_write:
  assumes "mock_ok s" "mock_WriteBlock x y z t d s = (r, s')"
  shows "r = Inr () \<and> mock_ok s' \<and> mock_blocks s' = put_block (x, y, z) d (mock_blocks s)"
proof (cases "d = []")
  case True
  let ?m = "AList.delete (posKey x y z) (store s)"
  have s': "r = Inr ()" "s' = s\<lparr>store := ?m\<rparr>"
    using assms(2) True by (simp_all add: mock_WriteBlock_def Let_def)
  have "snd ` set ?m \<subseteq> snd ` set (store s)"
    by (auto simp: AList.delete_eq)
  then have "[] \<notin> snd ` set ?m"
    using assms(1) unfolding mock_ok_def by blast
  then have "mock_ok s'"
    using assms(1) by (simp add: s' mock_ok_def gomap_ok_def distinct_delete)
  moreover have "mock_blocks s' = put_block (x, y, z) d (mock_blocks s)"
    using True by (auto simp: s' mock_blocks_def put_block_def fun_eq_iff delete_conv)
  ultimately show ?thesis using s' by simp
next
  case False
  let ?m = "AList.update (posKey x y z) d (store s)"
  have s': "r = Inr ()" "s' = s\<lparr>store := ?m\<rparr>"
    using assms(2) False by (simp_all add: mock_WriteBlock_def Let_def)
  have "snd ` set (AList.update k d xs) \<subseteq> insert d (snd ` set xs)" for k xs
    by (induction xs) auto
  from this [of "posKey x y z" "store s"] have "[] \<notin> snd ` set ?m"
    using assms(1) False unfolding mock_ok_def by blast
  then have "mock_ok s'"
    using assms(1) by (simp add: s' mock_ok_def)
  moreover have "mock_blocks s' = put_block (x, y, z) d (mock_blocks s)"
    using False by (auto simp: s' mock_blocks_def put_block_def fun_eq_iff update_conv)
  ultimately show ?thesis using s' by simp
qed

lemma mock_batch_write:
  "mock_ok s \<Longrightarrow> mock_BatchWrite ws s = (r, s') \<Longrightarrow>
   r = Inr () \<and> mock_ok s' \<and> mock_blocks s' = put_writes ws (mock_blocks s)"
proof (induction ws arbitrary: s)
  case (Cons bw ws)
  obtain r1 s1 where 1: "mock_WriteBlock (PosX (Pos bw)) (PosY (Pos bw)) (PosZ (Pos bw)) (BlockType bw) (Data bw) s
      = (r1 :: 'a + unit, s1)"
    by (cases "mock_WriteBlock (PosX (Pos bw)) (PosY (Pos bw)) (PosZ (Pos bw)) (BlockType bw) (Data bw) s :: ('a + unit) \<times> mock")
  from mock_write [OF Cons.prems(1) 1] Cons.prems(2) Cons.IH [of s1] 1
  show ?case by (auto simp: put_write_def pos_key_def)
qed simp

lemma mock_blocks_no_empty: "mock_ok s \<Longrightarrow> mock_blocks s p \<noteq> Some []"
  by (cases p) (force simp: mock_ok_def mock_blocks_def dest: map_of_SomeD)

lemmas mock_ops = mock_hal_def mock_ReadBlock_def mock_BatchRead_def mock_ForceLoadChunk_def

interpretation mock: hal_reliable mock_hal mock_blocks mock_ok
proof unfold_locales
  fix w x y z t d
  show "\<exists>u. fst (WriteBlock (mock_hal :: (mock, 'e) hal) x y z t d w) = Inr u"
    by (simp add: mock_hal_def mock_WriteBlock_def Let_def)
next
  fix w ws
  assume "mock_ok w"
  then show "\<exists>u. fst (BatchWrite (mock_hal :: (mock, 'e) hal) ws w) = Inr u"
    using mock_batch_write by (metis hal.select_convs(4) mock_hal_def prod.collapse)
next
  fix w x y z t d and r :: "'e + unit" and w'
  assume "mock_ok w" "WriteBlock mock_hal x y z t d w = (r, w')"
  then show "mock_ok w' \<and> (case r of Inl _ \<Rightarrow> mock_blocks w' = mock_blocks w \<or> mock_blocks w' = put_block (x, y, z) d (mock_blocks w)
      | Inr _ \<Rightarrow> mock_blocks w' = put_block (x, y, z) d (mock_blocks w))"
    using mock_write [of w x y z t d r w'] by (simp add: mock_hal_def)
next
  fix w ws and r :: "'e + unit" and w'
  assume "mock_ok w" "BatchWrite mock_hal ws w = (r, w')"
  then show "mock_ok w' \<and> (case r of Inl _ \<Rightarrow> \<exists>k\<le>length ws. mock_blocks w' = put_writes (take k ws) (mock_blocks w)
      | Inr _ \<Rightarrow> mock_blocks w' = put_writes ws (mock_blocks w))"
    using mock_batch_write [of w ws r w'] by (simp add: mock_hal_def)
qed (auto simp: mock_ops mock_blocks_def pos_key_def mock_blocks_no_empty [unfolded mock_blocks_def] split: option.splits)

subsection \<open>A store behind a breaking connection\<close>

definition breaking_blocks :: "('w \<Rightarrow> blocks) \<Rightarrow> 'w \<times> nat \<Rightarrow> blocks" where
  "breaking_blocks bl s = bl (fst s)"

definition breaking_ok :: "('w \<Rightarrow> bool) \<Rightarrow> 'w \<times> nat \<Rightarrow> bool" where
  "breaking_ok ok s = ok (fst s)"

context hal_store
begin

lemma map_sum_Inr: "map_sum Some id r0 = Inr d \<longleftrightarrow> r0 = Inr d"
  by (cases r0) auto

lemma limited_cases:
  assumes "limited f (w, n) = (r, s')"
  obtains "n = 0" "r = Inl None" "s' = (w, 0)"
  | m r0 w' where "n = Suc m" "f w = (r0, w')" "r = map_sum Some id r0" "s' = (w', m)"
  using assms by (cases n) (auto simp: limited_def split: prod.splits)

lemma breaking_batch_write:
  assumes ok: "world_ok w" and run: "BatchWrite (breaking torn h) ws (w, n) = (r, s')"
  shows "world_ok (fst s') \<and>
    (case r of Inr _ \<Rightarrow> blocks (fst s') = put_writes ws (blocks w)
             | Inl _ \<Rightarrow> \<exists>k \<le> length ws. blocks (fst s') = put_writes (take k ws) (blocks w))"
proof (cases "n = 0 \<and> ws \<noteq> []")
  case True
  obtain r0 w' where w': "BatchWrite h (take torn ws) w = (r0, w')" by fastforce
  have "\<exists>k \<le> length ws. blocks w' = put_writes (take k ws) (blocks w)"
  proof (cases r0)
    case (Inl e)
    with batch_write_ok(3) [OF ok] w' obtain k where "blocks w' = put_writes (take k (take torn ws)) (blocks w)"
      by blast
    then show ?thesis by (intro exI [of _ "min (length ws) (min k torn)"]) (simp add: min.left_commute take_all_iff min_def)
  next
    case (Inr u)
    with batch_write_ok(2) [OF ok] w' show ?thesis
      by (intro exI [of _ "min (length ws) torn"]) (auto simp: min_def)
  qed
  with True run w' batch_write_ok(1) [OF ok w'] show ?thesis by (auto simp: breaking_def)
next
  case False
  then have "limited (BatchWrite h ws) (w, n) = (r, s')"
    using run by (auto simp: breaking_def)
  then show ?thesis
  proof (cases rule: limited_cases)
    case 1
    with False ok show ?thesis by auto
  next
    case (2 m r0 w')
    with batch_write_law [OF ok, of ws r0 w'] show ?thesis by (cases r0) auto
  qed
qed

lemma hal_store_breaking:
  "hal_store (breaking torn h) (breaking_blocks blocks) (breaking_ok world_ok)"
proof (unfold_locales, goal_cases)
  case (1 s p)
  then show ?case by (simp add: breaking_blocks_def breaking_ok_def blocks_no_empty)
next
  case (2 s x y z r s')
  then show ?case
    by (cases s) (auto simp: breaking_def breaking_blocks_def breaking_ok_def map_sum_Inr elim!: limited_cases
        dest: read_law)
next
  case (3 s x y z t d r s')
  then show ?case
    by (cases s) (auto simp: breaking_def breaking_blocks_def breaking_ok_def elim!: limited_cases
        dest: write_law split: sum.splits)
next
  case (4 s ps r s')
  then show ?case
    by (cases s) (auto simp: breaking_def breaking_blocks_def breaking_ok_def map_sum_Inr elim!: limited_cases
        dest: batch_read_law)
next
  case (5 s ws r s')
  then show ?case
    using breaking_batch_write [of "fst s" torn ws "snd s" r s']
    by (cases r) (simp_all add: breaking_blocks_def breaking_ok_def)
next
  case (6 s cx cz r s')
  then show ?case
    by (cases s) (auto simp: breaking_def breaking_blocks_def breaking_ok_def elim!: limited_cases
        dest: force_law split: sum.splits)
qed

end

interpretation broken_mock: hal_store "breaking torn mock_hal" "breaking_blocks mock_blocks" "breaking_ok mock_ok" for torn
  by (rule mock.hal_store_breaking)

end
