(* ===== verification/Wal.thy ===== *)
theory Wal
  imports Hal_Mock
begin

text \<open>
  The write-ahead log, \<open>internal/wal/wal.go\<close>: one lectern per entry at \<open>(0, 64, -LSN)\<close> holding a book
  of pages. The state of a \<open>WAL\<close> is its next LSN; every operation runs against any implementation of
  the storage interface, passed as the record \<open>h\<close>, and threads its state \<open>w\<close>.

  The recovery loop has no bound in the code: it runs until it meets an empty lectern. Here it
  takes fuel, one unit per entry, and returns \<open>None\<close> when it runs out; \<open>recover_run\<close> shows that
  one unit more than the number of entries is always enough, so that \<open>None\<close> is never the answer for
  a log of that length. Log output is not modelled.
\<close>

definition walY :: int where
  "walY = 64"

definition pageSep :: string where
  "pageSep = CHR 0x0A # ''---'' @ [CHR 0x0A]"

record Entry =
  LSN :: int
  TXID :: int
  Status :: string
  Op :: string
  TableID :: int
  TargetX :: int
  TargetY :: int
  TargetZ :: int
  NewValue :: string

record WAL =
  nextLSN :: int

datatype entry_error =
    ExpectedPages nat
  | ParseLSN num_error
  | ParseTXID num_error
  | ParseTABLE num_error
  | ParseX num_error
  | ParseY num_error
  | ParseZ num_error

datatype wal_codec_error = InvalidHexBanner1 hex_error | InvalidHexBanner2 hex_error | ExpectedBytesPerBanner

datatype 'e replay_error =
    ReadXmaxBanner0 'e
  | ReadXmaxBanner1 'e
  | ParseXmaxTxid string num_error
  | WriteXmaxBanners 'e
  | ReadTargetBlock 'e

datatype 'e wal_error =
    AppendForceload int 'e
  | AppendWrite int 'e
  | CommitRead int 'e
  | CommitNotFound int int
  | CommitParse int entry_error
  | CommitAlready int string
  | CommitWrite int 'e
  | RecoverForceload int int 'e
  | RecoverRead int 'e
  | RecoverCommit int 'e

definition NewWAL :: WAL where
  "NewWAL = \<lparr>nextLSN = 1\<rparr>"

definition NextLSN :: "WAL \<Rightarrow> int" where
  "NextLSN wl = nextLSN wl"

subsection \<open>The book of an entry\<close>

text \<open>The loop that cuts the new value into pages of 200 bytes.\<close>

fun value_pages :: "string \<Rightarrow> string list" where
  "value_pages remaining =
     (if length remaining > 0 then take 200 remaining # value_pages (drop 200 remaining) else [])"

definition page1 :: "int \<Rightarrow> int \<Rightarrow> string \<Rightarrow> string" where
  "page1 lsn txid status =
     ''LSN: '' @ fmt_d lsn @ [CHR 0x0A] @ ''TXID: '' @ fmt_d txid @ [CHR 0x0A] @ ''STATUS: '' @ status"

definition page2 :: "string \<Rightarrow> int \<Rightarrow> string" where
  "page2 op tableID = ''OP: '' @ op @ [CHR 0x0A] @ ''TABLE: '' @ fmt_d tableID"

definition page3 :: "int \<Rightarrow> int \<Rightarrow> int \<Rightarrow> string" where
  "page3 x y z = ''X: '' @ fmt_d x @ [CHR 0x0A] @ ''Y: '' @ fmt_d y @ [CHR 0x0A] @ ''Z: '' @ fmt_d z"

definition serializeEntry ::
  "int \<Rightarrow> int \<Rightarrow> string \<Rightarrow> string \<Rightarrow> int \<Rightarrow> int \<Rightarrow> int \<Rightarrow> int \<Rightarrow> string \<Rightarrow> string" where
  "serializeEntry lsn txid status op tableID x y z newValue =
     Join ([page1 lsn txid status, page2 op tableID, page3 x y z] @ value_pages newValue) pageSep"

text \<open>The three loops over the lines of the first pages.\<close>

fun parse_page1 :: "string list \<Rightarrow> Entry \<Rightarrow> entry_error + Entry" where
  "parse_page1 [] entry = Inr entry"
| "parse_page1 (line # lines) entry =
     (if HasPrefix line ''LSN: '' then
        (case parse_int (TrimPrefix line ''LSN: '') of
           Inl err \<Rightarrow> Inl (ParseLSN err)
         | Inr v \<Rightarrow> parse_page1 lines (entry\<lparr>LSN := v\<rparr>))
      else if HasPrefix line ''TXID: '' then
        (case parse_int (TrimPrefix line ''TXID: '') of
           Inl err \<Rightarrow> Inl (ParseTXID err)
         | Inr v \<Rightarrow> parse_page1 lines (entry\<lparr>TXID := v\<rparr>))
      else if HasPrefix line ''STATUS: '' then
        parse_page1 lines (entry\<lparr>Status := TrimPrefix line ''STATUS: ''\<rparr>)
      else parse_page1 lines entry)"

fun parse_page2 :: "string list \<Rightarrow> Entry \<Rightarrow> entry_error + Entry" where
  "parse_page2 [] entry = Inr entry"
| "parse_page2 (line # lines) entry =
     (if HasPrefix line ''OP: '' then parse_page2 lines (entry\<lparr>Op := TrimPrefix line ''OP: ''\<rparr>)
      else if HasPrefix line ''TABLE: '' then
        (case parse_int (TrimPrefix line ''TABLE: '') of
           Inl err \<Rightarrow> Inl (ParseTABLE err)
         | Inr v \<Rightarrow> parse_page2 lines (entry\<lparr>TableID := v\<rparr>))
      else parse_page2 lines entry)"

fun parse_page3 :: "string list \<Rightarrow> Entry \<Rightarrow> entry_error + Entry" where
  "parse_page3 [] entry = Inr entry"
| "parse_page3 (line # lines) entry =
     (if HasPrefix line ''X: '' then
        (case parse_int (TrimPrefix line ''X: '') of
           Inl err \<Rightarrow> Inl (ParseX err)
         | Inr v \<Rightarrow> parse_page3 lines (entry\<lparr>TargetX := v\<rparr>))
      else if HasPrefix line ''Y: '' then
        (case parse_int (TrimPrefix line ''Y: '') of
           Inl err \<Rightarrow> Inl (ParseY err)
         | Inr v \<Rightarrow> parse_page3 lines (entry\<lparr>TargetY := v\<rparr>))
      else if HasPrefix line ''Z: '' then
        (case parse_int (TrimPrefix line ''Z: '') of
           Inl err \<Rightarrow> Inl (ParseZ err)
         | Inr v \<Rightarrow> parse_page3 lines (entry\<lparr>TargetZ := v\<rparr>))
      else parse_page3 lines entry)"

definition empty_entry :: Entry where
  "empty_entry =
     \<lparr>LSN = 0, TXID = 0, Status = [], Op = [], TableID = 0, TargetX = 0, TargetY = 0, TargetZ = 0, NewValue = []\<rparr>"

definition deserializeEntry :: "string \<Rightarrow> entry_error + Entry" where
  "deserializeEntry book =
     (let pages = Split book pageSep
      in if length pages < 4 then Inl (ExpectedPages (length pages))
         else
           (case parse_page1 (Split (pages ! 0) [CHR 0x0A]) empty_entry of
              Inl err \<Rightarrow> Inl err
            | Inr entry \<Rightarrow>
                (case parse_page2 (Split (pages ! 1) [CHR 0x0A]) entry of
                   Inl err \<Rightarrow> Inl err
                 | Inr entry \<Rightarrow>
                     (case parse_page3 (Split (pages ! 2) [CHR 0x0A]) entry of
                        Inl err \<Rightarrow> Inl err
                      | Inr entry \<Rightarrow>
                          Inr (entry\<lparr>NewValue :=
                                 (if length pages > 4 then Join (drop 3 pages) [] else pages ! 3)\<rparr>)))))"

text \<open>The log's own copy of the encoding of an \<open>int64\<close>.\<close>

definition encodeInt64 :: "int \<Rightarrow> string \<times> string" where
  "encodeInt64 v =
     (let b = xor_bytes (PutUint64 (uint64_of v) @ replicate (bytesPerBanner * 2 - 8) 0)
      in (EncodeToString (take 6 b), EncodeToString (take 6 (drop 6 b))))"

definition decodeInt64 :: "string \<Rightarrow> string \<Rightarrow> wal_codec_error + int" where
  "decodeInt64 s1 s2 =
     (case DecodeString s1 of
        Inl e \<Rightarrow> Inl (InvalidHexBanner1 e)
      | Inr b1 \<Rightarrow>
          (case DecodeString s2 of
             Inl e \<Rightarrow> Inl (InvalidHexBanner2 e)
           | Inr b2 \<Rightarrow>
               if length b1 \<noteq> bytesPerBanner \<or> length b2 \<noteq> bytesPerBanner
               then Inl ExpectedBytesPerBanner
               else Inr (wrap64 (Uint64 (xor_bytes (take 6 b1 @ take 2 b2))))))"

subsection \<open>Appending and committing\<close>

definition Append ::
  "('w, 'e) hal \<Rightarrow> int \<Rightarrow> string \<Rightarrow> int \<Rightarrow> int \<Rightarrow> int \<Rightarrow> int \<Rightarrow> string \<Rightarrow> WAL \<Rightarrow> 'w \<Rightarrow>
   ('e wal_error + int) \<times> WAL \<times> 'w" where
  "Append h txid op tableID x y z newValue wl w =
     (let lsn = nextLSN wl;
          wl = wl\<lparr>nextLSN := wrap64 (nextLSN wl + 1)\<rparr>;
          book = serializeEntry lsn txid ''PENDING'' op tableID x y z newValue;
          walZ = wrap64 (- lsn);
          chunkX = 0;
          chunkZ = go_quot walZ 16
      in case ForceLoadChunk h chunkX chunkZ w of
           (Inl err, w) \<Rightarrow> (Inl (AppendForceload lsn err), wl, w)
         | (Inr _, w) \<Rightarrow>
             (case WriteBlock h 0 walY walZ BlockTypeLectern (bytes_of_string book) w of
                (Inl err, w) \<Rightarrow> (Inl (AppendWrite lsn err), wl, w)
              | (Inr _, w) \<Rightarrow> (Inr lsn, wl, w)))"

text \<open>The book of an entry read back, with its status set.\<close>

definition book_of :: "Entry \<Rightarrow> string \<Rightarrow> string" where
  "book_of entry status =
     serializeEntry (LSN entry) (TXID entry) status (Op entry) (TableID entry)
       (TargetX entry) (TargetY entry) (TargetZ entry) (NewValue entry)"

definition Commit :: "('w, 'e) hal \<Rightarrow> int \<Rightarrow> WAL \<Rightarrow> 'w \<Rightarrow> ('e wal_error + unit) \<times> WAL \<times> 'w" where
  "Commit h lsn wl w =
     (let walZ = wrap64 (- lsn)
      in case ReadBlock h 0 walY walZ w of
           (Inl err, w) \<Rightarrow> (Inl (CommitRead lsn err), wl, w)
         | (Inr data, w) \<Rightarrow>
             if slice_len data = 0 then (Inl (CommitNotFound lsn walZ), wl, w)
             else
               (case deserializeEntry (slice_string data) of
                  Inl err \<Rightarrow> (Inl (CommitParse lsn err), wl, w)
                | Inr entry \<Rightarrow>
                    if Status entry \<noteq> ''PENDING'' then (Inl (CommitAlready lsn (Status entry)), wl, w)
                    else
                      (case WriteBlock h 0 walY walZ BlockTypeLectern
                              (bytes_of_string (book_of entry ''COMMITTED'')) w of
                         (Inl err, w) \<Rightarrow> (Inl (CommitWrite lsn err), wl, w)
                       | (Inr _, w) \<Rightarrow> (Inr (), wl, w))))"

subsection \<open>Recovery\<close>

definition replayUpdateXmax :: "('w, 'e) hal \<Rightarrow> Entry \<Rightarrow> 'w \<Rightarrow> ('e replay_error + bool) \<times> 'w" where
  "replayUpdateXmax h entry w =
     (case ReadBlock h 2 (TargetY entry) (TargetZ entry) w of
        (Inl err, w) \<Rightarrow> (Inl (ReadXmaxBanner0 err), w)
      | (Inr targetXmax0, w) \<Rightarrow>
          (case ReadBlock h 3 (TargetY entry) (TargetZ entry) w of
             (Inl err, w) \<Rightarrow> (Inl (ReadXmaxBanner1 err), w)
           | (Inr targetXmax1, w) \<Rightarrow>
               (case parse_int (NewValue entry) of
                  Inl err \<Rightarrow> (Inl (ParseXmaxTxid (NewValue entry) err), w)
                | Inr expectedTxid \<Rightarrow>
                    if decodeInt64 (slice_string targetXmax0) (slice_string targetXmax1) = Inr expectedTxid
                    then (Inr False, w)
                    else
                      (let (s1, s2) = encodeInt64 expectedTxid;
                           writes =
                             [mk_write 2 (TargetY entry) (TargetZ entry) BlockTypeBanner (bytes_of_string s1),
                              mk_write 3 (TargetY entry) (TargetZ entry) BlockTypeBanner (bytes_of_string s2)]
                       in case BatchWrite h writes w of
                            (Inl err, w) \<Rightarrow> (Inl (WriteXmaxBanners err), w)
                          | (Inr _, w) \<Rightarrow> (Inr True, w)))))"

definition replayInsert :: "('w, 'e) hal \<Rightarrow> Entry \<Rightarrow> 'w \<Rightarrow> ('e replay_error + bool) \<times> 'w" where
  "replayInsert h entry w =
     (case ReadBlock h (TargetX entry) (TargetY entry) (TargetZ entry) w of
        (Inl err, w) \<Rightarrow> (Inl (ReadTargetBlock err), w)
      | (Inr targetBlock, w) \<Rightarrow>
          if slice_len targetBlock = 0 then (Inr False, w) else (Inr False, w))"

text \<open>The switch on the operation of a pending entry; any other operation is not replayed.\<close>

definition replay :: "('w, 'e) hal \<Rightarrow> Entry \<Rightarrow> 'w \<Rightarrow> ('e replay_error + bool) \<times> 'w" where
  "replay h entry w =
     (if Op entry = ''UPDATE_XMAX'' then replayUpdateXmax h entry w
      else if Op entry = ''INSERT'' then replayInsert h entry w
      else (Inr False, w))"

text \<open>\<open>if lsn >= w.nextLSN { w.nextLSN = v }\<close>.\<close>

definition raise_lsn :: "int \<Rightarrow> int \<Rightarrow> WAL \<Rightarrow> WAL" where
  "raise_lsn lsn v wl = (if lsn \<ge> nextLSN wl then wl\<lparr>nextLSN := v\<rparr> else wl)"

text \<open>The body of the loop: \<open>Some r\<close> when it returns \<open>r\<close>, \<open>None\<close> when it goes on.\<close>

definition recover_iter ::
  "('w, 'e) hal \<Rightarrow> int \<Rightarrow> WAL \<Rightarrow> 'w \<Rightarrow> ('e wal_error + unit) option \<times> WAL \<times> 'w" where
  "recover_iter h z wl w =
     (let chunkX = 0; chunkZ = go_quot z 16
      in case ForceLoadChunk h chunkX chunkZ w of
           (Inl err, w) \<Rightarrow> (Some (Inl (RecoverForceload chunkX chunkZ err)), wl, w)
         | (Inr _, w) \<Rightarrow>
             (case ReadBlock h 0 walY z w of
                (Inl err, w) \<Rightarrow> (Some (Inl (RecoverRead z err)), wl, w)
              | (Inr data, w) \<Rightarrow>
                  if slice_len data = 0 then
                    (let lsn = wrap64 (- z) in (Some (Inr ()), raise_lsn lsn lsn wl, w))
                  else
                    (case deserializeEntry (slice_string data) of
                       Inl err \<Rightarrow> (None, wl, w)
                     | Inr entry \<Rightarrow>
                         if Status entry = ''COMMITTED'' then
                           (let lsn = wrap64 (- z) in (None, raise_lsn lsn (wrap64 (lsn + 1)) wl, w))
                         else
                           (case replay h entry w of
                              (Inl err, w) \<Rightarrow> (None, wl, w)
                            | (Inr replayed, w) \<Rightarrow>
                                (case WriteBlock h 0 walY z BlockTypeLectern
                                        (bytes_of_string (book_of entry ''COMMITTED'')) w of
                                   (Inl err, w) \<Rightarrow> (Some (Inl (RecoverCommit (LSN entry) err)), wl, w)
                                 | (Inr _, w) \<Rightarrow>
                                     (let lsn = wrap64 (- z)
                                      in (None, raise_lsn lsn (wrap64 (lsn + 1)) wl, w)))))))"

fun recover_loop ::
  "nat \<Rightarrow> ('w, 'e) hal \<Rightarrow> int \<Rightarrow> WAL \<Rightarrow> 'w \<Rightarrow> (('e wal_error + unit) \<times> WAL \<times> 'w) option" where
  "recover_loop 0 h z wl w = None"
| "recover_loop (Suc fuel) h z wl w =
     (case recover_iter h z wl w of
        (Some r, wl', w') \<Rightarrow> Some (r, wl', w')
      | (None, wl', w') \<Rightarrow> recover_loop fuel h (wrap64 (z - 1)) wl' w')"

definition Recover :: "nat \<Rightarrow> ('w, 'e) hal \<Rightarrow> WAL \<Rightarrow> 'w \<Rightarrow> (('e wal_error + unit) \<times> WAL \<times> 'w) option" where
  "Recover fuel h wl w = recover_loop fuel h (- 1) wl w"

subsection \<open>Pages\<close>

text \<open>
  A page does not swallow the separator behind it when no line of it starts with a dash and it does
  not end in a line break.
\<close>

fun page_ok :: "string \<Rightarrow> bool" where
  "page_ok [] = True"
| "page_ok [c] = (c \<noteq> CHR 0x0A)"
| "page_ok (c # d # cs) = ((c = CHR 0x0A \<longrightarrow> d \<noteq> CHR ''-'') \<and> page_ok (d # cs))"

lemma page_ok_sep_safe: "page_ok p \<Longrightarrow> sep_safe pageSep p"
  by (induction p rule: page_ok.induct) (auto intro!: sep_safe_Cons simp: pageSep_def)

lemma page_ok_no_newline: "CHR 0x0A \<notin> set p \<Longrightarrow> page_ok p"
  by (induction p rule: page_ok.induct) auto

lemma page_ok_append: "CHR 0x0A \<notin> set p \<Longrightarrow> page_ok q \<Longrightarrow> page_ok (p @ q)"
proof (induction p)
  case (Cons c p)
  then show ?case by (cases "p @ q") auto
qed simp

lemma page_ok_Cons: "c \<noteq> CHR 0x0A \<Longrightarrow> page_ok (c # p) \<longleftrightarrow> page_ok p"
  by (cases p) auto

lemma page1_ok: "CHR 0x0A \<notin> set status \<Longrightarrow> page_ok (page1 lsn txid status)"
  by (simp add: page1_def page_ok_append page_ok_Cons page_ok_no_newline)

lemma page2_ok: "CHR 0x0A \<notin> set op \<Longrightarrow> page_ok (page2 op t)"
  by (simp add: page2_def page_ok_append page_ok_Cons page_ok_no_newline)

lemma page3_ok: "page_ok (page3 x y z)"
  by (simp add: page3_def page_ok_append page_ok_Cons page_ok_no_newline)

lemma Index_pageSep_None: "CHR 0x0A \<notin> set p \<Longrightarrow> Index p pageSep = None"
  by (induction p) (auto simp: pageSep_def)

lemma pageSep_ne [simp]: "pageSep \<noteq> []"
  by (simp add: pageSep_def)

subsection \<open>The pages of the new value\<close>

declare value_pages.simps [simp del]

lemma value_pages_Nil [simp]: "value_pages [] = []"
  by (simp add: value_pages.simps)

lemma value_pages_step: "r \<noteq> [] \<Longrightarrow> value_pages r = take 200 r # value_pages (drop 200 r)"
  by (subst value_pages.simps) simp

lemma value_pages_ne: "r \<noteq> [] \<Longrightarrow> value_pages r \<noteq> []"
  by (simp add: value_pages_step)

lemma value_pages_concat: "concat (value_pages r) = r"
proof (induction r rule: value_pages.induct)
  case (1 r)
  show ?case
  proof (cases "r = []")
    case False
    with "1.IH" have "concat (value_pages (drop 200 r)) = drop 200 r" by simp
    with False show ?thesis by (simp add: value_pages_step)
  qed simp
qed

lemma value_pages_pieces: "value_pages r = map (\<lambda>k. take 200 (drop (200 * k) r)) [0..<(length r + 199) div 200]"
proof (induction r rule: value_pages.induct)
  case (1 r)
  show ?case
  proof (cases "r = []")
    case False
    then have "value_pages r = take 200 r # map (\<lambda>k. take 200 (drop (200 * k) (drop 200 r))) [0..<(length (drop 200 r) + 199) div 200]"
      using 1 by (simp add: value_pages_step)
    also have "\<dots> = take 200 r # map (\<lambda>k. take 200 (drop (200 * Suc k) r)) [0..<(length r + 199) div 200 - 1]"
    proof -
      have "(length (drop 200 r) + 199) div 200 = (length r + 199) div 200 - 1" using False by (cases "length r \<le> 200") auto
      then show ?thesis by (simp add: add.commute)
    qed
    also have "\<dots> = map (\<lambda>k. take 200 (drop (200 * k) r)) [0..<Suc ((length r + 199) div 200 - 1)]"
      by (simp add: upt_conv_Cons map_Suc_upt [symmetric] comp_def del: upt_Suc mult_Suc_right)
    also have "Suc ((length r + 199) div 200 - 1) = (length r + 199) div 200" using False by (cases r) auto
    finally show ?thesis .
  qed simp
qed

lemma value_pages_sub: "p \<in> set (value_pages r) \<Longrightarrow> set p \<subseteq> set r"
proof (induction r rule: value_pages.induct)
  case (1 r)
  show ?case
  proof (cases "r = []")
    case False
    with "1.prems" consider "p = take 200 r" | "p \<in> set (value_pages (drop 200 r))"
      by (auto simp: value_pages_step)
    then show ?thesis
    proof cases
      case 1
      then show ?thesis by (auto dest: in_set_takeD)
    next
      case 2
      with "1.IH" False have "set p \<subseteq> set (drop 200 r)" by simp
      then show ?thesis by (auto dest: in_set_dropD)
    qed
  qed (use "1.prems" in simp)
qed

lemma Join_Nil_concat: "Join ps [] = concat ps"
  by (induction ps "[] :: string" rule: Join.induct) auto

subsection \<open>Reading a book back\<close>

definition book_pages :: "string \<Rightarrow> string list" where
  "book_pages book = Split book pageSep"

lemma list_all_butlast: "list_all P xs \<Longrightarrow> list_all P (butlast xs)"
  by (auto simp: list_all_iff dest: in_set_butlastD)

lemma Split_serializeEntry:
  assumes "CHR 0x0A \<notin> set status" "CHR 0x0A \<notin> set op" "CHR 0x0A \<notin> set v" "v \<noteq> []"
  shows "Split (serializeEntry lsn txid status op t x y z v) pageSep =
     [page1 lsn txid status, page2 op t, page3 x y z] @ value_pages v"
proof -
  let ?ps = "[page1 lsn txid status, page2 op t, page3 x y z] @ value_pages v"
  have nl: "CHR 0x0A \<notin> set p" if "p \<in> set (value_pages v)" for p
    using value_pages_sub [OF that] assms(3) by auto
  then have "list_all (sep_safe pageSep) ?ps"
    using assms by (auto simp: list_all_iff page1_ok page2_ok page3_ok page_ok_no_newline intro!: page_ok_sep_safe)
  then have "list_all (sep_safe pageSep) (butlast ?ps)" by (rule list_all_butlast)
  moreover have "Index (last ?ps) pageSep = None"
    using nl value_pages_ne [OF assms(4)] last_in_set by (auto intro: Index_pageSep_None)
  ultimately show ?thesis
    unfolding serializeEntry_def by (intro Split_Join) simp_all
qed

text \<open>
  The first page is read back as it was written whatever the rest of the book holds: the separator
  behind it is the first one of the book.
\<close>

lemma Split_first_page:
  assumes "CHR 0x0A \<notin> set status"
  shows "\<exists>ps. Split (serializeEntry lsn txid status op t x y z v) pageSep = page1 lsn txid status # ps"
  using Split_append_sep [OF page_ok_sep_safe [OF page1_ok [OF assms]] pageSep_ne]
  by (simp add: serializeEntry_def)

lemma Split_lines2:
  "c \<notin> set a \<Longrightarrow> c \<notin> set b \<Longrightarrow> Split (a @ c # b) [c] = [a, b]"
  using Split_append_sep [OF sep_safe_char, of c a b] by (simp add: Split_single Index_char_None)

lemma Split_lines3:
  "c \<notin> set a \<Longrightarrow> c \<notin> set b \<Longrightarrow> c \<notin> set d \<Longrightarrow> Split (a @ c # b @ c # d) [c] = [a, b, d]"
  using Split_append_sep [OF sep_safe_char, of c a "b @ c # d"] by (simp add: Split_lines2)

lemma lines_page1:
  "CHR 0x0A \<notin> set status \<Longrightarrow>
   Split (page1 lsn txid status) [CHR 0x0A] = [''LSN: '' @ fmt_d lsn, ''TXID: '' @ fmt_d txid, ''STATUS: '' @ status]"
  using Split_lines3 [of "CHR 0x0A" "''LSN: '' @ fmt_d lsn" "''TXID: '' @ fmt_d txid" "''STATUS: '' @ status"]
  by (simp add: page1_def)

lemma lines_page2:
  "CHR 0x0A \<notin> set op \<Longrightarrow> Split (page2 op t) [CHR 0x0A] = [''OP: '' @ op, ''TABLE: '' @ fmt_d t]"
  using Split_lines2 [of "CHR 0x0A" "''OP: '' @ op" "''TABLE: '' @ fmt_d t"] by (simp add: page2_def)

lemma lines_page3:
  "Split (page3 x y z) [CHR 0x0A] = [''X: '' @ fmt_d x, ''Y: '' @ fmt_d y, ''Z: '' @ fmt_d z]"
  using Split_lines3 [of "CHR 0x0A" "''X: '' @ fmt_d x" "''Y: '' @ fmt_d y" "''Z: '' @ fmt_d z"] by (simp add: page3_def)

lemma TrimPrefix_lit [simp]: "TrimPrefix (c # s) (c # p) = TrimPrefix s p" if "HasPrefix s p"
  using that by (simp add: TrimPrefix_def)

lemma TrimPrefix_Nil [simp]: "TrimPrefix s [] = s"
  by (simp add: TrimPrefix_def)

definition entry_ok :: "Entry \<Rightarrow> bool" where
  "entry_ok e \<longleftrightarrow>
     in_i64 (LSN e) \<and> in_i64 (TXID e) \<and> in_i64 (TableID e) \<and>
     in_i64 (TargetX e) \<and> in_i64 (TargetY e) \<and> in_i64 (TargetZ e) \<and>
     CHR 0x0A \<notin> set (Status e) \<and> CHR 0x0A \<notin> set (Op e) \<and>
     CHR 0x0A \<notin> set (NewValue e) \<and> NewValue e \<noteq> []"

lemma deserialize_book:
  assumes "entry_ok e" "CHR 0x0A \<notin> set status"
  shows "deserializeEntry (book_of e status) = Inr (e\<lparr>Status := status\<rparr>)"
proof -
  from assms have pages: "Split (book_of e status) pageSep =
     [page1 (LSN e) (TXID e) status, page2 (Op e) (TableID e), page3 (TargetX e) (TargetY e) (TargetZ e)]
       @ value_pages (NewValue e)"
    unfolding book_of_def entry_ok_def by (intro Split_serializeEntry) auto
  obtain p ps where vp: "value_pages (NewValue e) = p # ps"
    using assms value_pages_ne by (cases "value_pages (NewValue e)") (auto simp: entry_ok_def)
  have "concat (p # ps) = NewValue e"
    using value_pages_concat [of "NewValue e"] vp by simp
  then show ?thesis
    using assms
    by (cases "ps = []")
       (auto simp: deserializeEntry_def Let_def pages vp lines_page1 lines_page2 lines_page3 entry_ok_def
          empty_entry_def Join_Nil_concat)
qed

text \<open>
  Whatever the pages behind it hold, a book written with a status reads back with that status or not
  at all.
\<close>

lemma parse_page2_status: "parse_page2 ls e = Inr e' \<Longrightarrow> Status e' = Status e"
  by (induction ls arbitrary: e) (auto split: if_splits sum.splits)

lemma parse_page3_status: "parse_page3 ls e = Inr e' \<Longrightarrow> Status e' = Status e"
  by (induction ls arbitrary: e) (auto split: if_splits sum.splits)

lemma deserialize_status:
  assumes "CHR 0x0A \<notin> set status" "in_i64 lsn" "in_i64 txid"
    and "deserializeEntry (serializeEntry lsn txid status op t x y z v) = Inr e"
  shows "Status e = status"
proof -
  from Split_first_page [OF assms(1)] obtain ps where
    "Split (serializeEntry lsn txid status op t x y z v) pageSep = page1 lsn txid status # ps" by blast
  then show ?thesis
    using assms
    by (auto simp: deserializeEntry_def Let_def lines_page1 split: sum.splits if_splits
        dest!: parse_page2_status parse_page3_status)
qed

lemma parse_page1_range:
  "parse_page1 ls e = Inr e' \<Longrightarrow> in_i64 (LSN e) \<Longrightarrow> in_i64 (TXID e) \<Longrightarrow> in_i64 (LSN e') \<and> in_i64 (TXID e')"
  by (induction ls arbitrary: e) (auto split: if_splits sum.splits dest: parse_int_range)

lemma parse_page2_frame: "parse_page2 ls e = Inr e' \<Longrightarrow> LSN e' = LSN e \<and> TXID e' = TXID e"
  by (induction ls arbitrary: e) (auto split: if_splits sum.splits)

lemma parse_page3_frame: "parse_page3 ls e = Inr e' \<Longrightarrow> LSN e' = LSN e \<and> TXID e' = TXID e"
  by (induction ls arbitrary: e) (auto split: if_splits sum.splits)

lemma deserialize_range:
  "deserializeEntry book = Inr e \<Longrightarrow> in_i64 (LSN e) \<and> in_i64 (TXID e)"
proof -
  assume *: "deserializeEntry book = Inr e"
  have 0: "in_i64 (LSN empty_entry) \<and> in_i64 (TXID empty_entry)"
    by (simp add: empty_entry_def in_i64_def)
  show ?thesis
    using * 0 by (auto simp: deserializeEntry_def Let_def split: sum.splits if_splits
        dest!: parse_page1_range parse_page2_frame parse_page3_frame)
qed

lemma rewritten_status:
  assumes "deserializeEntry book = Inr e" "deserializeEntry (book_of e ''COMMITTED'') = Inr e'"
  shows "Status e' = ''COMMITTED''"
  using deserialize_range [OF assms(1)] assms(2) unfolding book_of_def
  by (intro deserialize_status [of "''COMMITTED''"]) auto

subsection \<open>The two copies of the encoding agree\<close>

lemma encodeInt64_eq: "encodeInt64 v = EncodeInt64 v"
  by (simp add: encodeInt64_def EncodeInt64_def)

lemma decodeInt64_eq: "decodeInt64 a b = Inr v \<longleftrightarrow> DecodeInt64 a b = Inr v"
  by (auto simp: decodeInt64_def DecodeInt64_def split: sum.splits)

subsection \<open>Appending and committing\<close>

definition wal_pos :: "int \<Rightarrow> int \<times> int \<times> int" where
  "wal_pos lsn = (0, walY, wrap64 (- lsn))"

definition pending_book :: "int \<Rightarrow> int \<Rightarrow> string \<Rightarrow> int \<Rightarrow> int \<Rightarrow> int \<Rightarrow> int \<Rightarrow> string \<Rightarrow> bytes" where
  "pending_book lsn txid op t x y z v = bytes_of_string (serializeEntry lsn txid ''PENDING'' op t x y z v)"

lemma serializeEntry_ne [simp]: "serializeEntry lsn txid status op t x y z v \<noteq> []"
  by (simp add: serializeEntry_def page1_def)

lemma book_of_ne [simp]: "book_of e status \<noteq> []"
  by (simp add: book_of_def)

lemma pending_book_ne [simp]: "pending_book lsn txid op t x y z v \<noteq> []"
  by (simp add: pending_book_def)

context hal_store
begin

lemma Append_outcome:
  assumes ok: "world_ok w" and run: "Append h txid op t x y z v wl w = (r, wl', w')"
  shows "world_ok w' \<and> nextLSN wl' = wrap64 (nextLSN wl + 1) \<and>
    (blocks w' = blocks w \<or>
     blocks w' = put_block (wal_pos (nextLSN wl)) (pending_book (nextLSN wl) txid op t x y z v) (blocks w)) \<and>
    (\<forall>l. r = Inr l \<longrightarrow> l = nextLSN wl \<and>
     blocks w' = put_block (wal_pos l) (pending_book l txid op t x y z v) (blocks w))"
proof -
  let ?n = "nextLSN wl"
  obtain r1 w1 where 1: "ForceLoadChunk h 0 (go_quot (wrap64 (- ?n)) 16) w = (r1, w1)" by fastforce
  obtain r2 w2 where 2: "WriteBlock h 0 walY (wrap64 (- ?n)) BlockTypeLectern
      (pending_book ?n txid op t x y z v) w1 = (r2, w2)" by fastforce
  note f = force_ok [OF ok 1]
  note wr = write_law [OF f(1) 2]
  show ?thesis
    using run f wr 1 2
    by (cases r1; cases r2) (auto simp: Append_def Let_def wal_pos_def pending_book_def)
qed

lemma Commit_outcome:
  assumes ok: "world_ok w" and run: "Commit h lsn wl w = (r, wl', w')"
  shows "world_ok w' \<and> wl' = wl \<and>
    (blocks w' = blocks w \<or>
     (\<exists>d e. blocks w (wal_pos lsn) = Some d \<and> deserializeEntry (string_of_bytes d) = Inr e \<and> Status e = ''PENDING'' \<and>
        blocks w' = put_block (wal_pos lsn) (bytes_of_string (book_of e ''COMMITTED'')) (blocks w)))"
proof -
  obtain r1 w1 where 1: "ReadBlock h 0 walY (wrap64 (- lsn)) w = (r1, w1)" by fastforce
  note rd = read_law [OF ok 1]
  show ?thesis
  proof (cases "\<exists>d e. r1 = Inr (Some d) \<and> d \<noteq> [] \<and> deserializeEntry (string_of_bytes d) = Inr e \<and> Status e = ''PENDING''")
    case True
    then obtain d e where de: "r1 = Inr (Some d)" "d \<noteq> []" "deserializeEntry (string_of_bytes d) = Inr e"
      "Status e = ''PENDING''" by blast
    obtain r2 w2 where 2: "WriteBlock h 0 walY (wrap64 (- lsn)) BlockTypeLectern
      (bytes_of_string (book_of e ''COMMITTED'')) w1 = (r2, w2)" by fastforce
    have "world_ok w1" using rd by simp
    note wr = write_law [OF this 2]
    have "blocks w (wal_pos lsn) = Some d" "blocks w1 = blocks w"
      using rd de(1) by (simp_all add: wal_pos_def)
    then show ?thesis
      using run wr 1 2 de
      by (cases r2) (auto simp: Commit_def Let_def wal_pos_def)
  next
    case False
    then show ?thesis
      using run rd 1 by (auto simp: Commit_def Let_def slice_len_def slice_string_def slice_bytes_def
          split: sum.splits if_splits option.splits)
  qed
qed

end

context hal_reliable
begin

lemma Append_run:
  assumes "world_ok w"
  obtains w' where "Append h txid op t x y z v wl w = (Inr (nextLSN wl), wl\<lparr>nextLSN := wrap64 (nextLSN wl + 1)\<rparr>, w')"
    "world_ok w'"
    "blocks w' = put_block (wal_pos (nextLSN wl)) (pending_book (nextLSN wl) txid op t x y z v) (blocks w)"
proof -
  let ?n = "nextLSN wl"
  obtain w1 where 1: "ForceLoadChunk h 0 (go_quot (wrap64 (- ?n)) 16) w = (Inr (), w1)" "world_ok w1" "blocks w1 = blocks w"
    using force_run [OF assms] by blast
  obtain w2 where 2: "WriteBlock h 0 walY (wrap64 (- ?n)) BlockTypeLectern (pending_book ?n txid op t x y z v) w1 = (Inr (), w2)"
    "world_ok w2" "blocks w2 = put_block (0, walY, wrap64 (- ?n)) (pending_book ?n txid op t x y z v) (blocks w1)"
    using write_run [OF 1(2)] by blast
  show thesis
    using that [of w2] 1 2 by (simp add: Append_def Let_def wal_pos_def pending_book_def)
qed

lemma Commit_run:
  assumes "world_ok w" "blocks w (wal_pos lsn) = Some d" "deserializeEntry (string_of_bytes d) = Inr e"
    "Status e = ''PENDING''"
  obtains w' where "Commit h lsn wl w = (Inr (), wl, w')" "world_ok w'"
    "blocks w' = put_block (wal_pos lsn) (bytes_of_string (book_of e ''COMMITTED'')) (blocks w)"
proof -
  obtain w1 where 1: "ReadBlock h 0 walY (wrap64 (- lsn)) w = (Inr (Some d), w1)" "world_ok w1" "blocks w1 = blocks w"
    using read_run [OF assms(1), of 0 walY "wrap64 (- lsn)"] assms(2) by (auto simp: wal_pos_def)
  have "d \<noteq> []" using blocks_no_empty assms(1,2) by metis
  moreover obtain w2 where "WriteBlock h 0 walY (wrap64 (- lsn)) BlockTypeLectern
      (bytes_of_string (book_of e ''COMMITTED'')) w1 = (Inr (), w2)" "world_ok w2"
    "blocks w2 = put_block (0, walY, wrap64 (- lsn)) (bytes_of_string (book_of e ''COMMITTED'')) (blocks w1)"
    using write_run [OF 1(2)] by blast
  ultimately show thesis
    using that [of w2] 1 assms by (simp add: Commit_def Let_def wal_pos_def)
qed

end

subsection \<open>Recovery\<close>

text \<open>
  What one iteration does to the world, written without the calls: replaying a pending update of
  \<open>xmax\<close> writes its two banners unless they hold the transaction already, and a replayed entry is
  rewritten as committed. An entry whose replay fails is left alone.
\<close>

definition xmax_banners :: "int \<Rightarrow> int \<Rightarrow> int \<Rightarrow> blocks \<Rightarrow> blocks" where
  "xmax_banners y z txid b =
     put_block (3, y, z) (bytes_of_string (snd (EncodeInt64 txid)))
       (put_block (2, y, z) (bytes_of_string (fst (EncodeInt64 txid))) b)"

definition replay_blocks :: "Entry \<Rightarrow> blocks \<Rightarrow> blocks option" where
  "replay_blocks e b =
     (if Op e = ''UPDATE_XMAX'' then
        (case parse_int (NewValue e) of
           Inl _ \<Rightarrow> None
         | Inr txid \<Rightarrow>
             Some (if DecodeInt64 (slice_string (b (2, TargetY e, TargetZ e)))
                        (slice_string (b (3, TargetY e, TargetZ e))) = Inr txid
                   then b else xmax_banners (TargetY e) (TargetZ e) txid b))
      else Some b)"

definition recover_block :: "int \<Rightarrow> blocks \<Rightarrow> blocks" where
  "recover_block z b =
     (case b (0, walY, z) of
        None \<Rightarrow> b
      | Some d \<Rightarrow>
          (case deserializeEntry (string_of_bytes d) of
             Inl _ \<Rightarrow> b
           | Inr e \<Rightarrow>
               if Status e = ''COMMITTED'' then b
               else (case replay_blocks e b of
                       None \<Rightarrow> b
                     | Some b' \<Rightarrow> put_block (0, walY, z) (bytes_of_string (book_of e ''COMMITTED'')) b')))"

definition recover_blocks :: "nat \<Rightarrow> blocks \<Rightarrow> blocks" where
  "recover_blocks n b = fold (\<lambda>i. recover_block (- int i)) [1..<Suc n] b"

text \<open>A log of \<open>n\<close> entries: the lecterns \<open>-1, ..., -n\<close> hold books and the next one is empty.\<close>

definition log_length :: "blocks \<Rightarrow> nat \<Rightarrow> bool" where
  "log_length b n \<longleftrightarrow> (\<forall>i. 1 \<le> i \<and> i \<le> n \<longrightarrow> b (0, walY, - int i) \<noteq> None) \<and> b (0, walY, - int (Suc n)) = None"

context hal_reliable
begin

lemma replay_run:
  assumes ok: "world_ok w"
  obtains r w' where "replay h e w = (r, w')" "world_ok w'"
    "case replay_blocks e (blocks w) of
       None \<Rightarrow> blocks w' = blocks w \<and> isl r
     | Some b' \<Rightarrow> blocks w' = b' \<and> \<not> isl r"
proof -
  let ?y = "TargetY e" and ?z = "TargetZ e"
  consider (xmax) "Op e = ''UPDATE_XMAX''" | (ins) "Op e = ''INSERT''" "Op e \<noteq> ''UPDATE_XMAX''"
    | (other) "Op e \<noteq> ''INSERT''" "Op e \<noteq> ''UPDATE_XMAX''" by blast
  then show thesis
  proof cases
    case xmax
    obtain w1 where 1: "ReadBlock h 2 ?y ?z w = (Inr (blocks w (2, ?y, ?z)), w1)" "world_ok w1" "blocks w1 = blocks w"
      using read_run [OF ok] by blast
    obtain w2 where 2: "ReadBlock h 3 ?y ?z w1 = (Inr (blocks w (3, ?y, ?z)), w2)" "world_ok w2" "blocks w2 = blocks w"
      using read_run [OF 1(2)] 1(3) by metis
    show thesis
    proof (cases "parse_int (NewValue e)")
      case (Inl er)
      then show thesis using that [of "Inl (ParseXmaxTxid (NewValue e) er)" w2] xmax 1 2
        by (simp add: replay_def replayUpdateXmax_def replay_blocks_def)
    next
      case (Inr t)
      obtain s1 s2 where enc: "EncodeInt64 t = (s1, s2)" by fastforce
      let ?ws = "[mk_write 2 ?y ?z BlockTypeBanner (bytes_of_string s1), mk_write 3 ?y ?z BlockTypeBanner (bytes_of_string s2)]"
      obtain w3 where 3: "BatchWrite h ?ws w2 = (Inr (), w3)" "world_ok w3" "blocks w3 = put_writes ?ws (blocks w2)"
        using batch_write_run [OF 2(2)] by blast
      have 4: "blocks w3 = xmax_banners ?y ?z t (blocks w)"
        using 2(3) 3(3) by (simp add: xmax_banners_def enc)
      show thesis
      proof (cases "DecodeInt64 (slice_string (blocks w (2, ?y, ?z))) (slice_string (blocks w (3, ?y, ?z))) = Inr t")
        case True
        with Inr xmax 1 2 show thesis
          by (intro that [of "Inr False" w2]) (simp_all add: replay_def replayUpdateXmax_def replay_blocks_def decodeInt64_eq)
      next
        case False
        with Inr xmax 1 2 3(1,2) 4 enc show thesis
          by (intro that [of "Inr True" w3])
             (simp_all add: replay_def replayUpdateXmax_def replay_blocks_def decodeInt64_eq encodeInt64_eq Let_def)
      qed
    qed
  next
    case ins
    obtain w1 where "ReadBlock h (TargetX e) ?y ?z w = (Inr (blocks w (TargetX e, ?y, ?z)), w1)" "world_ok w1" "blocks w1 = blocks w"
      using read_run [OF ok] by blast
    then show thesis using that [of "Inr False" w1] ins by (simp add: replay_def replayInsert_def replay_blocks_def)
  next
    case other
    then show thesis using that [of "Inr False" w] ok by (simp add: replay_def replay_blocks_def)
  qed
qed

lemma recover_iter_end:
  assumes ok: "world_ok w" and "blocks w (0, walY, z) = None"
  obtains w' where "recover_iter h z wl w = (Some (Inr ()), raise_lsn (wrap64 (- z)) (wrap64 (- z)) wl, w')"
    "world_ok w'" "blocks w' = blocks w"
proof -
  obtain w1 where 1: "ForceLoadChunk h 0 (go_quot z 16) w = (Inr (), w1)" "world_ok w1" "blocks w1 = blocks w"
    using force_run [OF ok] by blast
  obtain w2 where 2: "ReadBlock h 0 walY z w1 = (Inr None, w2)" "world_ok w2" "blocks w2 = blocks w"
    using read_run [OF 1(2), of 0 walY z] 1(3) assms(2) by metis
  show thesis using 1 2 by (intro that [of w2]) (simp_all add: recover_iter_def Let_def)
qed

text \<open>One iteration on an entry: the world after it, and the next LSN raised at most to behind the entry.\<close>

lemma recover_iter_entry:
  assumes ok: "world_ok w" and d: "blocks w (0, walY, z) = Some d"
  obtains wl' w' where "recover_iter h z wl w = (None, wl', w')" "world_ok w'" "blocks w' = recover_block z (blocks w)"
    "wl' = wl \<or> wl' = raise_lsn (wrap64 (- z)) (wrap64 (wrap64 (- z) + 1)) wl"
proof -
  obtain w1 where 1: "ForceLoadChunk h 0 (go_quot z 16) w = (Inr (), w1)" "world_ok w1" "blocks w1 = blocks w"
    using force_run [OF ok] by blast
  obtain w2 where 2: "ReadBlock h 0 walY z w1 = (Inr (Some d), w2)" "world_ok w2" "blocks w2 = blocks w"
    using read_run [OF 1(2), of 0 walY z] 1(3) d by metis
  have ne: "d \<noteq> []" using blocks_no_empty ok d by metis
  note iter = recover_iter_def Let_def recover_block_def d
  let ?raised = "raise_lsn (wrap64 (- z)) (wrap64 (wrap64 (- z) + 1)) wl"
  show thesis
  proof (cases "deserializeEntry (string_of_bytes d)")
    case (Inl er)
    then show thesis using 1 2 ne by (intro that [of wl w2]) (simp_all add: iter)
  next
    case (Inr e)
    show thesis
    proof (cases "Status e = ''COMMITTED''")
      case True
      then show thesis using 1 2 ne Inr by (intro that [of ?raised w2]) (simp_all add: iter)
    next
      case False
      obtain r w3 where 3: "replay h e w2 = (r, w3)" "world_ok w3" "case replay_blocks e (blocks w) of
          None \<Rightarrow> blocks w3 = blocks w \<and> isl r | Some b' \<Rightarrow> blocks w3 = b' \<and> \<not> isl r"
        using replay_run [OF 2(2), of e] 2(3) by metis
      show thesis
      proof (cases "replay_blocks e (blocks w)")
        case None
        with 3 obtain er where "r = Inl er" by (cases r) auto
        with None False 1 2 3 ne Inr show thesis by (intro that [of wl w3]) (simp_all add: iter)
      next
        case (Some b')
        with 3 obtain u where r: "r = Inr u" by (cases r) auto
        obtain w4 where 4: "WriteBlock h 0 walY z BlockTypeLectern (bytes_of_string (book_of e ''COMMITTED'')) w3 = (Inr (), w4)"
          "world_ok w4" "blocks w4 = put_block (0, walY, z) (bytes_of_string (book_of e ''COMMITTED'')) (blocks w3)"
          using write_run [OF 3(2)] by blast
        with Some r False 1 2 3 ne Inr show thesis by (intro that [of ?raised w4]) (simp_all add: iter)
      qed
    qed
  qed
qed

end

lemma xmax_banners_wal [simp]: "xmax_banners y z t b (0, walY, z') = b (0, walY, z')"
  by (simp add: xmax_banners_def)

lemma replay_blocks_wal: "replay_blocks e b = Some b' \<Longrightarrow> b' (0, walY, z) = b (0, walY, z)"
  by (auto simp: replay_blocks_def split: if_splits sum.splits)

lemma recover_block_other: "z' \<noteq> z \<Longrightarrow> recover_block z b (0, walY, z') = b (0, walY, z')"
  by (auto simp: recover_block_def replay_blocks_wal split: option.splits sum.splits)

lemma recover_block_None: "recover_block z b (0, walY, z') = None \<longleftrightarrow> b (0, walY, z') = None"
  by (cases "z' = z")
     (auto simp: recover_block_other, auto simp: recover_block_def split: option.splits sum.splits if_splits)

lemma log_length_recover_block [simp]: "log_length (recover_block z b) n = log_length b n"
  by (simp add: log_length_def recover_block_None)

lemma nextLSN_raise: "nextLSN (raise_lsn l v wl) = (if nextLSN wl \<le> l then v else nextLSN wl)"
  by (simp add: raise_lsn_def)

context hal_reliable
begin

lemma recover_loop_run:
  assumes "log_length (blocks w) n" "int n < 2 ^ 62" "world_ok w" "1 \<le> k" "k \<le> Suc n"
    "Suc n - k < fuel" "1 \<le> nextLSN wl"
  shows "\<exists>wl' w'. recover_loop fuel h (- int k) wl w = Some (Inr (), wl', w') \<and> world_ok w' \<and>
    blocks w' = fold (\<lambda>i. recover_block (- int i)) [k..<Suc n] (blocks w) \<and>
    nextLSN wl' = max (nextLSN wl) (int (Suc n))"
  using assms
proof (induction "Suc n - k" arbitrary: k fuel w wl)
  case 0
  then have k: "k = Suc n" by simp
  with 0 obtain f where f: "fuel = Suc f" by (cases fuel) auto
  have "blocks w (0, walY, - int k) = None" using 0 k by (simp add: log_length_def)
  then obtain w' where "recover_iter h (- int k) wl w = (Some (Inr ()), raise_lsn (wrap64 (int k)) (wrap64 (int k)) wl, w')"
    "world_ok w'" "blocks w' = blocks w"
    using recover_iter_end [OF 0(4)] by (metis minus_minus)
  moreover have "wrap64 (int k) = int k" using k 0 by (intro wrap64_id) (simp add: in_i64_def)
  ultimately show ?case using k f by (auto simp: nextLSN_raise max_def)
next
  case (Suc m)
  then have k: "k \<le> n" by simp
  from Suc obtain f where f: "fuel = Suc f" by (cases fuel) auto
  obtain d where d: "blocks w (0, walY, - int k) = Some d" using Suc k by (auto simp: log_length_def)
  obtain wl1 w1 where it: "recover_iter h (- int k) wl w = (None, wl1, w1)" "world_ok w1"
    "blocks w1 = recover_block (- int k) (blocks w)"
    "wl1 = wl \<or> wl1 = raise_lsn (wrap64 (- (- int k))) (wrap64 (wrap64 (- (- int k)) + 1)) wl"
    using recover_iter_entry [OF Suc(5) d] by blast
  have wr: "wrap64 (int k) = int k" "wrap64 (int k + 1) = int (Suc k)" "wrap64 (- int k - 1) = - int (Suc k)"
    using k Suc(4) by (auto simp: in_i64_def intro!: trans [OF wrap64_id])
  have next1: "1 \<le> nextLSN wl1" "max (nextLSN wl1) (int (Suc n)) = max (nextLSN wl) (int (Suc n))"
    using it(4) k Suc.prems by (auto simp: nextLSN_raise wr max_def split: if_splits)
  have "m = Suc n - Suc k" "1 \<le> Suc k" "Suc k \<le> Suc n" "Suc n - Suc k < f" "log_length (blocks w1) n"
    using Suc k f it(3) by auto
  from Suc.hyps(1) [OF this(1,5) Suc(4) it(2) this(2,3,4) next1(1)]
  obtain wl' w' where "recover_loop f h (- int (Suc k)) wl1 w1 = Some (Inr (), wl', w')" "world_ok w'"
    "blocks w' = fold (\<lambda>i. recover_block (- int i)) [Suc k..<Suc n] (blocks w1)"
    "nextLSN wl' = max (nextLSN wl1) (int (Suc n))" by blast
  moreover have "[k..<Suc n] = k # [Suc k..<Suc n]" using k by (simp add: upt_conv_Cons)
  ultimately show ?case using it(1,3) f wr(3) next1(2) by (auto simp del: upt_Suc of_nat_Suc)
qed

lemma recover_run:
  assumes "log_length (blocks w) n" "int n < 2 ^ 62" "world_ok w" "n < fuel" "1 \<le> nextLSN wl"
  shows "\<exists>wl' w'. Recover fuel h wl w = Some (Inr (), wl', w') \<and> world_ok w' \<and>
    blocks w' = recover_blocks n (blocks w) \<and> nextLSN wl' = max (nextLSN wl) (int (Suc n))"
  using recover_loop_run [of w n 1 fuel wl] assms
  by (auto simp: Recover_def recover_blocks_def)

end

subsection \<open>What recovery leaves\<close>

text \<open>
  An entry is settled when recovery has nothing more to do for it: it cannot be read, it is
  committed, or its replay fails on its own new value.
\<close>

definition settled :: "blocks \<Rightarrow> int \<Rightarrow> bool" where
  "settled b z \<longleftrightarrow>
     (case b (0, walY, z) of
        None \<Rightarrow> True
      | Some d \<Rightarrow>
          (case deserializeEntry (string_of_bytes d) of
             Inl _ \<Rightarrow> True
           | Inr e \<Rightarrow> Status e = ''COMMITTED'' \<or> (Op e = ''UPDATE_XMAX'' \<and> isl (parse_int (NewValue e)))))"

lemma settled_recover_block: "settled (recover_block z b) z"
proof -
  have "settled (recover_block z b) z"
    if d: "b (0, walY, z) = Some d" "deserializeEntry (string_of_bytes d) = Inr e" "Status e \<noteq> ''COMMITTED''"
      and r: "replay_blocks e b = Some b'" for d e b'
    using rewritten_status [OF d(2)] d r
    by (auto simp: settled_def recover_block_def split: sum.splits)
  then show ?thesis
    by (auto simp: settled_def recover_block_def replay_blocks_def split: option.splits sum.splits if_splits)
qed

lemma settled_id: "settled b z \<Longrightarrow> recover_block z b = b"
  by (auto simp: settled_def recover_block_def replay_blocks_def split: option.splits sum.splits)

lemma settled_other: "z' \<noteq> z \<Longrightarrow> settled (recover_block z b) z' = settled b z'"
  by (simp add: settled_def recover_block_other)

lemma settled_mono: "settled b z' \<Longrightarrow> settled (recover_block z b) z'"
  by (cases "z' = z") (simp_all add: settled_other settled_recover_block)

lemma recover_blocks_Suc: "recover_blocks (Suc n) b = recover_block (- int (Suc n)) (recover_blocks n b)"
  by (simp add: recover_blocks_def)

lemma recover_blocks_0 [simp]: "recover_blocks 0 b = b"
  by (simp add: recover_blocks_def)

lemma recover_blocks_settled: "1 \<le> i \<Longrightarrow> i \<le> n \<Longrightarrow> settled (recover_blocks n b) (- int i)"
proof (induction n)
  case (Suc n)
  then show ?case
    by (cases "i = Suc n") (simp_all add: recover_blocks_Suc settled_recover_block settled_mono)
qed simp

lemma settled_recover_blocks_id: "(\<And>i. 1 \<le> i \<Longrightarrow> i \<le> n \<Longrightarrow> settled b (- int i)) \<Longrightarrow> recover_blocks n b = b"
  by (induction n) (simp_all add: recover_blocks_Suc settled_id del: of_nat_Suc)

lemma recover_blocks_idem: "recover_blocks n (recover_blocks n b) = recover_blocks n b"
  by (rule settled_recover_blocks_id) (rule recover_blocks_settled)

lemma log_length_recover_blocks [simp]: "log_length (recover_blocks k b) n = log_length b n"
  by (induction k) (simp_all add: recover_blocks_Suc)

text \<open>Recovery writes only lecterns of the log and \<open>xmax\<close> banners.\<close>

lemma recover_block_frame:
  assumes "p \<noteq> (0, walY, z)" "\<And>y z'. p \<noteq> (2, y, z')" "\<And>y z'. p \<noteq> (3, y, z')"
  shows "recover_block z b p = b p"
  using assms
  by (auto simp: recover_block_def replay_blocks_def xmax_banners_def put_block_apply split: option.splits sum.splits)

lemma recover_blocks_frame:
  assumes "\<And>z. p \<noteq> (0, walY, z)" "\<And>y z. p \<noteq> (2, y, z)" "\<And>y z. p \<noteq> (3, y, z)"
  shows "recover_blocks n b p = b p"
  by (induction n) (use assms in \<open>simp_all add: recover_blocks_Suc recover_block_frame\<close>)


lemma recover_blocks_wal_other: "(\<And>i. 1 \<le> i \<Longrightarrow> i \<le> n \<Longrightarrow> z \<noteq> - int i) \<Longrightarrow> recover_blocks n b (0, walY, z) = b (0, walY, z)"
  by (induction n) (simp_all add: recover_blocks_Suc recover_block_other del: of_nat_Suc)

lemma pending_book_eq:
  "pending_book lsn txid op t x y z v =
   bytes_of_string (book_of \<lparr>LSN = lsn, TXID = txid, Status = ''PENDING'', Op = op, TableID = t,
     TargetX = x, TargetY = y, TargetZ = z, NewValue = v\<rparr> ''PENDING'')"
  by (simp add: pending_book_def book_of_def)

lemma pending_book_read:
  assumes "entry_ok \<lparr>LSN = lsn, TXID = txid, Status = ''PENDING'', Op = op, TableID = t,
     TargetX = x, TargetY = y, TargetZ = z, NewValue = v\<rparr>" (is "entry_ok ?e")
  shows "deserializeEntry (string_of_bytes (pending_book lsn txid op t x y z v)) = Inr ?e"
  using deserialize_book [OF assms, of "''PENDING''"] by (simp add: pending_book_eq)

lemma in_i64_neg: "- (2 ^ 63) < v \<Longrightarrow> v \<le> 2 ^ 63 \<Longrightarrow> in_i64 (- v)"
  by (simp add: in_i64_def)

lemma wal_pos_eq: "1 \<le> lsn \<Longrightarrow> lsn < 2 ^ 63 \<Longrightarrow> wal_pos lsn = (0, walY, - lsn)"
  unfolding wal_pos_def by (subst wrap64_id) (auto simp: in_i64_def)

context hal_reliable
begin

lemma Commit_again:
  assumes "world_ok w" "blocks w (wal_pos lsn) = Some d" "deserializeEntry (string_of_bytes d) = Inr e"
    "Status e \<noteq> ''PENDING''"
  obtains w' where "Commit h lsn wl w = (Inl (CommitAlready lsn (Status e)), wl, w')" "world_ok w'" "blocks w' = blocks w"
proof -
  obtain w1 where 1: "ReadBlock h 0 walY (wrap64 (- lsn)) w = (Inr (Some d), w1)" "world_ok w1" "blocks w1 = blocks w"
    using read_run [OF assms(1), of 0 walY "wrap64 (- lsn)"] assms(2) by (auto simp: wal_pos_def)
  have "d \<noteq> []" using blocks_no_empty assms(1,2) by metis
  with 1 assms show thesis by (intro that [of w1]) (simp_all add: Commit_def Let_def)
qed

text \<open>An entry appended and committed, and what a second commit of it answers.\<close>

lemma Append_Commit_run:
  assumes ok: "world_ok w" and e: "entry_ok e" "LSN e = nextLSN wl" "Status e = ''PENDING''"
  obtains wl' w1 w2 w3 where
    "Append h (TXID e) (Op e) (TableID e) (TargetX e) (TargetY e) (TargetZ e) (NewValue e) wl w = (Inr (LSN e), wl', w1)"
    "nextLSN wl' = wrap64 (nextLSN wl + 1)"
    "blocks w1 = put_block (wal_pos (LSN e)) (bytes_of_string (book_of e ''PENDING'')) (blocks w)"
    "Commit h (LSN e) wl' w1 = (Inr (), wl', w2)" "world_ok w2"
    "blocks w2 = put_block (wal_pos (LSN e)) (bytes_of_string (book_of e ''COMMITTED'')) (blocks w)"
    "Commit h (LSN e) wl' w2 = (Inl (CommitAlready (LSN e) ''COMMITTED''), wl', w3)"
    "blocks w3 = blocks w2"
proof -
  let ?wl = "wl\<lparr>nextLSN := wrap64 (nextLSN wl + 1)\<rparr>"
  obtain w1 where 1: "Append h (TXID e) (Op e) (TableID e) (TargetX e) (TargetY e) (TargetZ e) (NewValue e) wl w
      = (Inr (LSN e), ?wl, w1)" "world_ok w1"
    "blocks w1 = put_block (wal_pos (LSN e)) (bytes_of_string (book_of e ''PENDING'')) (blocks w)"
    using Append_run [OF ok] e(2) by (metis book_of_def pending_book_def)
  have read: "deserializeEntry (string_of_bytes (bytes_of_string (book_of e s))) = Inr (e\<lparr>Status := s\<rparr>)"
    if "CHR 0x0A \<notin> set s" for s
    using deserialize_book [OF e(1) that] by simp
  have "blocks w1 (wal_pos (LSN e)) = Some (bytes_of_string (book_of e ''PENDING''))" using 1(3) by simp
  from Commit_run [OF 1(2) this read, of ?wl] obtain w2 where
    2: "Commit h (LSN e) ?wl w1 = (Inr (), ?wl, w2)" "world_ok w2"
    "blocks w2 = put_block (wal_pos (LSN e)) (bytes_of_string (book_of (e\<lparr>Status := ''PENDING''\<rparr>) ''COMMITTED'')) (blocks w1)"
    by auto
  then have b2: "blocks w2 = put_block (wal_pos (LSN e)) (bytes_of_string (book_of e ''COMMITTED'')) (blocks w)"
    using 1(3) by (simp add: book_of_def put_block_def)
  then have "blocks w2 (wal_pos (LSN e)) = Some (bytes_of_string (book_of e ''COMMITTED''))" by simp
  from Commit_again [OF 2(2) this read, of ?wl] obtain w3 where
    "Commit h (LSN e) ?wl w2 = (Inl (CommitAlready (LSN e) ''COMMITTED''), ?wl, w3)" "blocks w3 = blocks w2"
    by auto
  with 1 2(1,2) b2 show thesis by (intro that [of ?wl w1 w2 w3]) simp_all
qed

lemma recover_twice:
  assumes "log_length (blocks w) n" "int n < 2 ^ 62" "world_ok w" "n < fuel" "1 \<le> nextLSN wl"
  shows "\<exists>wl' w' w''. Recover fuel h wl w = Some (Inr (), wl', w') \<and>
    nextLSN wl' = max (nextLSN wl) (int n + 1) \<and> (\<forall>i \<in> {1..n}. settled (blocks w') (- int i)) \<and>
    Recover fuel h wl' w' = Some (Inr (), wl', w'') \<and> blocks w'' = blocks w'"
proof -
  obtain wl' w' where 1: "Recover fuel h wl w = Some (Inr (), wl', w')" "world_ok w'"
    "blocks w' = recover_blocks n (blocks w)" "nextLSN wl' = max (nextLSN wl) (int (Suc n))"
    using recover_run [OF assms] by blast
  have "log_length (blocks w') n" "1 \<le> nextLSN wl'"
    using assms(1,5) 1 by auto
  from recover_run [OF this(1) assms(2) 1(2) assms(4) this(2)] obtain wl'' w'' where
    2: "Recover fuel h wl' w' = Some (Inr (), wl'', w'')" "blocks w'' = recover_blocks n (blocks w')"
    "nextLSN wl'' = max (nextLSN wl') (int (Suc n))" by blast
  have "wl'' = wl'" using 1(4) 2(3) by simp
  moreover have "blocks w'' = blocks w'" using 1(3) 2(2) recover_blocks_idem by simp
  moreover have "\<forall>i \<in> {1..n}. settled (blocks w') (- int i)"
    using 1(3) recover_blocks_settled by simp
  ultimately show ?thesis using 1 2 by auto
qed

end

subsection \<open>Properties\<close>

text \<open>
  Property C18: reading the book of a log entry gives the entry back: for every entry with 64 bit numbers
  whose texts have no line break and whose new value is not empty, the pages behind the third are the new value in
  pieces of 200 bytes, as many as it needs, and \<open>deserializeEntry\<close> inverts \<open>serializeEntry\<close>, with the status the
  book was written with. \<open>docs/spec.md\<close> (section 12) describes only a page 4 with the first 200 characters of the value, truncated:
  page 4 of the book is that text, and the code goes on with further pages, so that nothing of the value is lost.
\<close>

theorem book_roundtrip:
  assumes "entry_ok e" "CHR 0x0A \<notin> set status"
  shows "let book = serializeEntry (LSN e) (TXID e) status (Op e) (TableID e) (TargetX e) (TargetY e) (TargetZ e) (NewValue e)
    in drop 3 (Split book pageSep) = map (\<lambda>k. take 200 (drop (200 * k) (NewValue e))) [0..<(length (NewValue e) + 199) div 200] \<and>
       deserializeEntry book = Inr (e\<lparr>Status := status\<rparr>)"
  using deserialize_book [OF assms] Split_serializeEntry [OF assms(2), of "Op e" "NewValue e"] assms(1)
  by (simp add: book_of_def entry_ok_def value_pages_pieces)

theorem book_roundtrip_witness:
  "let v = replicate 450 (CHR ''x''); book = serializeEntry 7 (- 1) ''PENDING'' ''INSERT'' 3 0 64 20001 v
   in map length (drop 3 (Split book pageSep)) = [200, 200, 50] \<and>
      deserializeEntry book =
        Inr \<lparr>LSN = 7, TXID = - 1, Status = ''PENDING'', Op = ''INSERT'', TableID = 3,
             TargetX = 0, TargetY = 64, TargetZ = 20001, NewValue = v\<rparr>"
proof -
  have "[0..<3] = [0, 1, 2 :: nat]" by (simp add: upt_rec)
  then show ?thesis
    using book_roundtrip [of "\<lparr>LSN = 7, TXID = - 1, Status = [], Op = ''INSERT'', TableID = 3,
           TargetX = 0, TargetY = 64, TargetZ = 20001, NewValue = replicate 450 (CHR ''x'')\<rparr>" "''PENDING''"]
    by (simp add: entry_ok_def in_i64_def Let_def)
qed

text \<open>
  Property C17: on a store that does not fail, appending an entry writes its book, as pending, to the
  lectern at minus its LSN and hands out consecutive LSNs; committing it rewrites the same
  entry as committed and changes no other block; and an entry is committed once: a second commit
  fails and changes nothing.
\<close>

theorem append_commit:
  assumes "hal_reliable h blocks ok" "ok w" "entry_ok e" "Status e = ''PENDING''" "LSN e = nextLSN wl"
    "1 \<le> nextLSN wl" "nextLSN wl < 2 ^ 63 - 1"
  shows "\<exists>wl' w1 w2 w3.
    Append h (TXID e) (Op e) (TableID e) (TargetX e) (TargetY e) (TargetZ e) (NewValue e) wl w = (Inr (LSN e), wl', w1) \<and>
    nextLSN wl' = nextLSN wl + 1 \<and>
    blocks w1 = (blocks w)((0, 64, - LSN e) \<mapsto> bytes_of_string (book_of e ''PENDING'')) \<and>
    Commit h (LSN e) wl' w1 = (Inr (), wl', w2) \<and>
    blocks w2 = (blocks w)((0, 64, - LSN e) \<mapsto> bytes_of_string (book_of e ''COMMITTED'')) \<and>
    Commit h (LSN e) wl' w2 = (Inl (CommitAlready (LSN e) ''COMMITTED''), wl', w3) \<and> blocks w3 = blocks w2"
proof -
  have "wal_pos (LSN e) = (0, 64, - LSN e)" "wrap64 (nextLSN wl + 1) = nextLSN wl + 1"
    using assms wal_pos_eq [of "LSN e"] by (auto simp: walY_def in_i64_def intro: wrap64_id)
  then have pos: "put_block (wal_pos (LSN e)) (bytes_of_string (book_of e s)) b =
      b((0, 64, - LSN e) \<mapsto> bytes_of_string (book_of e s))" for s b
    by (simp add: put_block_def)
  show ?thesis
    by (rule hal_reliable.Append_Commit_run [OF assms(1,2,3,5,4)])
       (auto simp: pos \<open>wrap64 (nextLSN wl + 1) = nextLSN wl + 1\<close>)
qed

theorem append_commit_witness:
  "\<exists>wl' w1 w2 w3.
    Append (mock_hal :: (mock, unit) hal) 9 ''UPDATE_XMAX'' 1 0 64 0 ''9'' NewWAL NewStorage_mock = (Inr 1, wl', w1) \<and>
    nextLSN wl' = 2 \<and> Commit (mock_hal :: (mock, unit) hal) 1 wl' w1 = (Inr (), wl', w2) \<and>
    Commit mock_hal 1 wl' w2 = (Inl (CommitAlready 1 ''COMMITTED'' :: unit wal_error), wl', w3)"
  using append_commit [of "mock_hal :: (mock, unit) hal" mock_blocks mock_ok NewStorage_mock
    "\<lparr>LSN = 1, TXID = 9, Status = ''PENDING'', Op = ''UPDATE_XMAX'', TableID = 1,
      TargetX = 0, TargetY = 64, TargetZ = 0, NewValue = ''9''\<rparr>" NewWAL, OF mock.hal_reliable_axioms]
  by (auto simp: entry_ok_def in_i64_def NewWAL_def)

text \<open>
  Property C16: recovery ends and settles the log. On a store that does not fail, with a log of \<open>n\<close>
  consecutive entries, recovery returns after reading the entries once, it returns without error, the next LSN
  is behind the last entry, and no entry is left that recovery could still act on: each one is
  committed, unreadable, or has a new value that is no number. Recovering again changes no
  block and not the next LSN.
\<close>

theorem recover_settles:
  assumes "hal_reliable h blocks ok" "ok w" "log_length (blocks w) n" "int n < 2 ^ 62" "n < fuel" "1 \<le> nextLSN wl"
  shows "\<exists>wl' w' w''. Recover fuel h wl w = Some (Inr (), wl', w') \<and>
    nextLSN wl' = max (nextLSN wl) (int n + 1) \<and> (\<forall>i \<in> {1..n}. settled (blocks w') (- int i)) \<and>
    Recover fuel h wl' w' = Some (Inr (), wl', w'') \<and> blocks w'' = blocks w'"
  by (rule hal_reliable.recover_twice [OF assms(1,3,4,2,5,6)])

theorem recover_settles_witness:
  "let w = snd (mock_WriteBlock 0 64 (- 1) BlockTypeLectern (pending_book 1 9 ''UPDATE_XMAX'' 1 0 64 0 ''9'') NewStorage_mock :: (unit + unit) \<times> mock)
   in \<exists>wl' w' w''. Recover 2 (mock_hal :: (mock, unit) hal) NewWAL w = Some (Inr (), wl', w') \<and> nextLSN wl' = 2 \<and>
        settled (mock_blocks w') (- 1) \<and> Recover 2 (mock_hal :: (mock, unit) hal) wl' w' = Some (Inr (), wl', w'') \<and>
        mock_blocks w'' = mock_blocks w'"
proof -
  let ?d = "pending_book 1 9 ''UPDATE_XMAX'' 1 0 64 0 ''9''"
  let ?w = "snd (mock_WriteBlock 0 64 (- 1) BlockTypeLectern ?d NewStorage_mock :: (unit + unit) \<times> mock)"
  have w: "mock_ok ?w" "mock_blocks ?w = put_block (0, 64, - 1) ?d (\<lambda>_. None)"
    using mock_write [of NewStorage_mock 0 64 "- 1" BlockTypeLectern ?d] mock_blocks_new by (metis mock_ok_new prod.collapse)+
  have "?d \<noteq> []" by (simp add: pending_book_def)
  then have "log_length (mock_blocks ?w) 1"
    using le_antisym by (auto simp: w(2) log_length_def walY_def put_block_def)
  from recover_settles [of "mock_hal :: (mock, unit) hal" mock_blocks mock_ok ?w 1 2 NewWAL,
      OF mock.hal_reliable_axioms w(1) this]
  show ?thesis by (auto simp: NewWAL_def Let_def)
qed

text \<open>
  Property C22: recovery reads the log only up to the first empty lectern. Entries behind a gap (an LSN
  whose append failed) keep their books, pending ones are not replayed, and the next LSN is the one of the
  gap, so that the appends that follow overwrite them.
\<close>

theorem recover_stops_at_gap:
  assumes "hal_reliable h blocks ok" "ok w" "log_length (blocks w) n" "int n < 2 ^ 62" "n < fuel"
    "nextLSN wl = 1" "j > n"
  shows "\<exists>wl' w'. Recover fuel h wl w = Some (Inr (), wl', w') \<and> nextLSN wl' = int n + 1 \<and>
    blocks w' (0, 64, - int j) = blocks w (0, 64, - int j)"
proof -
  obtain wl' w' where "Recover fuel h wl w = Some (Inr (), wl', w')" "blocks w' = recover_blocks n (blocks w)"
    "nextLSN wl' = max (nextLSN wl) (int (Suc n))"
    using hal_reliable.recover_run [OF assms(1,3,4,2,5), of wl] assms(6) by auto
  moreover have "recover_blocks n (blocks w) (0, walY, - int j) = blocks w (0, walY, - int j)"
    using assms(7) by (intro recover_blocks_wal_other) simp
  ultimately show ?thesis using assms(6) by (auto simp: walY_def)
qed

theorem recover_stops_at_gap_witness:
  "let w = snd (mock_WriteBlock 0 64 (- 2) BlockTypeLectern (pending_book 2 9 ''UPDATE_XMAX'' 1 0 64 0 ''9'') NewStorage_mock :: (unit + unit) \<times> mock)
   in \<exists>wl' w'. Recover 1 (mock_hal :: (mock, unit) hal) NewWAL w = Some (Inr (), wl', w') \<and> nextLSN wl' = 1 \<and>
        mock_blocks w' (0, 64, - 2) = Some (pending_book 2 9 ''UPDATE_XMAX'' 1 0 64 0 ''9'')"
proof -
  let ?d = "pending_book 2 9 ''UPDATE_XMAX'' 1 0 64 0 ''9''"
  let ?w = "snd (mock_WriteBlock 0 64 (- 2) BlockTypeLectern ?d NewStorage_mock :: (unit + unit) \<times> mock)"
  have w: "mock_ok ?w" "mock_blocks ?w = put_block (0, 64, - 2) ?d (\<lambda>_. None)"
    using mock_write [of NewStorage_mock 0 64 "- 2" BlockTypeLectern ?d] mock_blocks_new by (metis mock_ok_new prod.collapse)+
  then have "log_length (mock_blocks ?w) 0"
    by (simp add: log_length_def walY_def)
  from recover_stops_at_gap [of "mock_hal :: (mock, unit) hal" mock_blocks mock_ok ?w 0 1 NewWAL 2,
      OF mock.hal_reliable_axioms w(1) this]
  show ?thesis by (auto simp: NewWAL_def w(2) Let_def)
qed

end
