(* ===== verification/Go_Float.thy ===== *)
theory Go_Float
  imports Go_Strings
begin

text \<open>
  The part of \<open>float64\<close> the code uses: conversion from and to integers, comparison,
  \<open>strconv.ParseFloat(s, 64)\<close>, and the shortest decimal text of a number (\<open>%v\<close>, and the one
  \<open>encoding/json\<close> writes). A finite number is a sign, a mantissa below \<open>2 ^ 53\<close> and a power of two;
  rounding is to the nearest, ties to the even mantissa, as IEEE 754 and the Go specification ask.

  A conversion of a number that the integer type cannot hold is left to the implementation by the
  Go specification; the model takes the value of the amd64 instructions.
\<close>

datatype f64 = NaN | Inf bool | Fin bool int int

function bit_len :: "int \<Rightarrow> int" where
  "bit_len n = (if n \<le> 0 then 0 else 1 + bit_len (n div 2))"
  by pat_completeness auto
termination
  by (relation "measure nat") auto

text \<open>\<open>m * 2 ^ e\<close> with \<open>e\<close> of either sign, as a fraction of integers.\<close>

definition scale_num :: "int \<Rightarrow> int \<Rightarrow> int" where
  "scale_num m e = m * 2 ^ nat e"

definition scale_den :: "int \<Rightarrow> int \<Rightarrow> int" where
  "scale_den d e = d * 2 ^ nat (- e)"

text \<open>The \<open>float64\<close> nearest to \<open>num / den\<close>.\<close>

definition round_f64 :: "bool \<Rightarrow> int \<Rightarrow> int \<Rightarrow> f64" where
  "round_f64 neg num den =
     (if num = 0 then Fin neg 0 (- 1074)
      else
        (let k = bit_len num - bit_len den;
             lg = (if scale_num num (- k) \<ge> scale_num den k then k else k - 1);
             e = max (- 1074) (lg - 52);
             n = scale_num num (- e);
             d = scale_num den e;
             q = n div d;
             r = n mod d;
             m = (if 2 * r > d \<or> 2 * r = d \<and> odd q then q + 1 else q);
             me = (if m = 2 ^ 53 then (2 ^ 52, e + 1) else (m, e))
         in if snd me > 971 then Inf neg else Fin neg (fst me) (snd me)))"

text \<open>\<open>float64(i)\<close>.\<close>

definition f64_of_int :: "int \<Rightarrow> f64" where
  "f64_of_int i = round_f64 (i < 0) \<bar>i\<bar> 1"

text \<open>The integer part of a finite number; \<open>int64(f)\<close>, \<open>int(f)\<close> and \<open>int32(f)\<close>.\<close>

fun f64_trunc :: "f64 \<Rightarrow> int option" where
  "f64_trunc (Fin neg m e) =
     (let t = scale_num m e div scale_den 1 e in Some (if neg then - t else t))"
| "f64_trunc _ = None"

definition int64_of_f64 :: "f64 \<Rightarrow> int" where
  "int64_of_f64 f = (case f64_trunc f of Some t \<Rightarrow> if in_i64 t then t else - (2 ^ 63) | None \<Rightarrow> - (2 ^ 63))"

definition int32_of_f64 :: "f64 \<Rightarrow> int" where
  "int32_of_f64 f = (case f64_trunc f of Some t \<Rightarrow> if in_i32 t then t else - (2 ^ 31) | None \<Rightarrow> - (2 ^ 31))"

text \<open>The operators \<open>==\<close> and \<open><\<close>: \<open>NaN\<close> is unordered, the two zeros are equal.\<close>

definition signed_scaled :: "bool \<Rightarrow> int \<Rightarrow> int \<Rightarrow> int \<Rightarrow> int" where
  "signed_scaled neg m e base = (let v = scale_num m (e - base) in if neg then - v else v)"

fun f64_less :: "f64 \<Rightarrow> f64 \<Rightarrow> bool" where
  "f64_less NaN _ = False"
| "f64_less _ NaN = False"
| "f64_less (Inf a) (Inf b) = (a \<and> \<not> b)"
| "f64_less (Inf a) (Fin _ _ _) = a"
| "f64_less (Fin _ _ _) (Inf b) = (\<not> b)"
| "f64_less (Fin a m e) (Fin b n f) =
     (let base = min e f in signed_scaled a m e base < signed_scaled b n f base)"

fun f64_eq :: "f64 \<Rightarrow> f64 \<Rightarrow> bool" where
  "f64_eq NaN _ = False"
| "f64_eq _ NaN = False"
| "f64_eq (Inf a) (Inf b) = (a = b)"
| "f64_eq (Inf a) (Fin _ _ _) = False"
| "f64_eq (Fin _ _ _) (Inf b) = False"
| "f64_eq (Fin a m e) (Fin b n f) =
     (let base = min e f in signed_scaled a m e base = signed_scaled b n f base)"

definition f64_zero :: f64 where
  "f64_zero = Fin False 0 (- 1074)"

subsection \<open>strconv.ParseFloat\<close>

definition lower :: "char \<Rightarrow> char" where
  "lower c = (if 65 \<le> (of_char c :: nat) \<and> (of_char c :: nat) \<le> 90 then char_of (of_char c + 32 :: nat) else c)"

definition is_hex_letter :: "char \<Rightarrow> bool" where
  "is_hex_letter c \<longleftrightarrow> lower c \<in> set ''abcdef''"

datatype seen = SeenStart | SeenDigit | SeenUnderscore | SeenOther

fun underscore_loop :: "bool \<Rightarrow> seen \<Rightarrow> string \<Rightarrow> bool" where
  "underscore_loop hex saw [] = (saw \<noteq> SeenUnderscore)"
| "underscore_loop hex saw (c # cs) =
     (if is_digit c \<or> hex \<and> is_hex_letter c then underscore_loop hex SeenDigit cs
      else if c = CHR ''_'' then (if saw \<noteq> SeenDigit then False else underscore_loop hex SeenUnderscore cs)
      else if saw = SeenUnderscore then False
      else underscore_loop hex SeenOther cs)"

definition drop_sign :: "string \<Rightarrow> bool \<times> string" where
  "drop_sign s =
     (case s of
        [] \<Rightarrow> (False, [])
      | c # cs \<Rightarrow> if c = CHR ''-'' then (True, cs) else if c = CHR ''+'' then (False, cs) else (False, s))"

definition underscoreOK :: "string \<Rightarrow> bool" where
  "underscoreOK s =
     (let t = snd (drop_sign s)
      in case t of
           z # b # cs \<Rightarrow>
             if z = CHR ''0'' \<and> lower b \<in> set ''box'' then underscore_loop (lower b = CHR ''x'') SeenDigit cs
             else underscore_loop False SeenStart t
         | _ \<Rightarrow> underscore_loop False SeenStart t)"

text \<open>
  The mantissa loop of \<open>readFloat\<close>: the digits as one integer, how many of them stand behind the
  point, whether there was a digit and a point, and the rest of the text. Underscores are skipped
  here and judged afterwards.
\<close>

fun mant_loop :: "bool \<Rightarrow> int \<Rightarrow> nat \<Rightarrow> bool \<Rightarrow> bool \<Rightarrow> string \<Rightarrow> int \<times> nat \<times> bool \<times> string" where
  "mant_loop hex m frac digits dot [] = (m, frac, digits, [])"
| "mant_loop hex m frac digits dot (c # cs) =
     (if c = CHR ''_'' then mant_loop hex m frac digits dot cs
      else if c = CHR ''.'' then
        (if dot then (m, frac, digits, c # cs) else mant_loop hex m frac digits True cs)
      else if is_digit c then
        mant_loop hex ((if hex then 16 else 10) * m + digit_val c) (if dot then Suc frac else frac) True dot cs
      else if hex \<and> is_hex_letter c then
        mant_loop hex (16 * m + (of_char (lower c) - 87)) (if dot then Suc frac else frac) True dot cs
      else (m, frac, digits, c # cs))"

text \<open>The exponent digits; the value stops growing at five digits.\<close>

fun exp_loop :: "int \<Rightarrow> string \<Rightarrow> int \<times> string" where
  "exp_loop e [] = (e, [])"
| "exp_loop e (c # cs) =
     (if c = CHR ''_'' then exp_loop e cs
      else if is_digit c then exp_loop (if e < 10000 then 10 * e + digit_val c else e) cs
      else (e, c # cs))"

definition read_exp :: "string \<Rightarrow> (int \<times> string) option" where
  "read_exp s =
     (let (neg, t) = drop_sign s
      in case t of
           [] \<Rightarrow> None
         | c # cs \<Rightarrow>
             if is_digit c then (let (e, rest) = exp_loop 0 t in Some (if neg then - e else e, rest))
             else None)"

definition scaled_f64 :: "bool \<Rightarrow> int \<Rightarrow> int \<Rightarrow> int \<Rightarrow> f64" where
  "scaled_f64 neg m b e = round_f64 neg (m * b ^ nat e) (b ^ nat (- e))"

definition ParseFloat_number :: "string \<Rightarrow> num_error + f64" where
  "ParseFloat_number s =
     (let (neg, t) = drop_sign s;
          hex = (case t of z # x # _ # _ \<Rightarrow> z = CHR ''0'' \<and> lower x = CHR ''x'' | _ \<Rightarrow> False);
          (m, frac, digits, rest) = mant_loop hex 0 0 False False (if hex then drop 2 t else t)
      in if \<not> digits then Inl ErrSyntax
         else
           (let ex =
                  (case rest of
                     [] \<Rightarrow> if hex then None else Some (0, [])
                   | c # cs \<Rightarrow>
                       if lower c = (if hex then CHR ''p'' else CHR ''e'') then read_exp cs else Some (0, rest))
            in case ex of
                 None \<Rightarrow> Inl ErrSyntax
               | Some (e, tail) \<Rightarrow>
                   if tail \<noteq> [] \<or> (CHR ''_'' \<in> set s \<and> \<not> underscoreOK s) then Inl ErrSyntax
                   else
                     (let f = (if hex then scaled_f64 neg m 2 (e - 4 * int frac)
                               else scaled_f64 neg m 10 (e - int frac))
                      in case f of Inf _ \<Rightarrow> Inl ErrRange | _ \<Rightarrow> Inr f)))"

definition ParseFloat :: "string \<Rightarrow> num_error + f64" where
  "ParseFloat s =
     (let (neg, t) = drop_sign s
      in if map lower t \<in> {''inf'', ''infinity''} then Inr (Inf neg)
         else if map lower s = ''nan'' then Inr NaN
         else if s = [] then Inl ErrSyntax
         else ParseFloat_number s)"

subsection \<open>Shortest decimal text\<close>

text \<open>How many zeros stand between the point and the first digit of a fraction below 1.\<close>

function lead_zeros :: "int \<Rightarrow> int \<Rightarrow> int" where
  "lead_zeros num den = (if num \<le> 0 \<or> den \<le> 10 * num then 0 else 1 + lead_zeros (10 * num) den)"
  by pat_completeness auto
termination
  by (relation "measure (\<lambda>(num, den). nat (den - num))") auto

text \<open>The position of the decimal point: \<open>10 ^ (dp - 1) \<le> num / den < 10 ^ dp\<close>.\<close>

definition dec_point :: "int \<Rightarrow> int \<Rightarrow> int" where
  "dec_point num den =
     (if den \<le> num then int (length (fmt_d (num div den))) else - lead_zeros num den)"

text \<open>
  The digits with \<open>n\<close> places that read back as \<open>m * 2 ^ e\<close>: below or above it, the nearer where both
  do. The bounds are the midpoints to the neighbouring numbers, in quarters of the last place, and
  belong to the number when its mantissa is even.
\<close>

definition shortest_at :: "int \<Rightarrow> int \<Rightarrow> int \<Rightarrow> (int \<times> int) option" where
  "shortest_at m e n =
     (let num = scale_num (4 * m) (e - 2);
          den = scale_den 1 (e - 2);
          lowq = (if m = 2 ^ 52 \<and> e > - 1074 then 4 * m - 1 else 4 * m - 2);
          low = scale_num lowq (e - 2);
          high = scale_num (4 * m + 2) (e - 2);
          u = dec_point num den - n;
          un = 10 ^ nat u;
          ud = 10 ^ nat (- u);
          down = (num * ud) div (den * un);
          rest = (num * ud) mod (den * un);
          up = down + 1;
          okdown = (low * ud < down * un * den \<or> even m \<and> low * ud = down * un * den);
          okup = (up * un * den < high * ud \<or> even m \<and> up * un * den = high * ud)
      in if okdown \<and> okup then
           Some (if 2 * rest < den * un \<or> 2 * rest = den * un \<and> even down then down else up, u)
         else if okdown then Some (down, u)
         else if okup then Some (up, u)
         else None)"

fun shortest_from :: "nat \<Rightarrow> int \<Rightarrow> int \<Rightarrow> int \<Rightarrow> int \<times> int" where
  "shortest_from 0 m e n = (m, 0)"
| "shortest_from (Suc k) m e n =
     (case shortest_at m e n of Some r \<Rightarrow> r | None \<Rightarrow> shortest_from k m e (n + 1))"

text \<open>The digits without trailing zeros, and the position of the point before them; 17 places always suffice.\<close>

definition shortest_digits :: "int \<Rightarrow> int \<Rightarrow> string \<times> int" where
  "shortest_digits m e =
     (if m = 0 then ([], 0)
      else
        (let (d, u) = shortest_from 17 m e 1; ds = fmt_d d
         in (rev (dropWhile (\<lambda>c. c = CHR ''0'') (rev ds)), int (length ds) + u)))"

text \<open>The formats \<open>%e\<close> and \<open>%f\<close> with the shortest precision.\<close>

definition fmtE :: "string \<Rightarrow> int \<Rightarrow> string" where
  "fmtE ds dp =
     (let ex = (if ds = [] then 0 else dp - 1); exs = fmt_d \<bar>ex\<bar>
      in (case ds of [] \<Rightarrow> ''0'' | d # rest \<Rightarrow> d # (if rest = [] then [] else CHR ''.'' # rest)) @
         ''e'' @ (if ex < 0 then ''-'' else ''+'') @ (if length exs < 2 then CHR ''0'' # exs else exs))"

definition fmtF :: "string \<Rightarrow> int \<Rightarrow> string" where
  "fmtF ds dp =
     (let whole = (if dp > 0 then take (nat dp) ds @ replicate (nat dp - length ds) (CHR ''0'') else ''0'');
          frac = (if dp > 0 then drop (nat dp) ds else replicate (nat (- dp)) (CHR ''0'') @ ds)
      in if int (length ds) > dp \<and> ds \<noteq> [] then whole @ CHR ''.'' # frac else whole)"

text \<open>\<open>fmt.Sprintf("%v", f)\<close>.\<close>

fun f64_fmt_v :: "f64 \<Rightarrow> string" where
  "f64_fmt_v NaN = ''NaN''"
| "f64_fmt_v (Inf neg) = (if neg then ''-Inf'' else ''+Inf'')"
| "f64_fmt_v (Fin neg m e) =
     (let (ds, dp) = shortest_digits m e; ex = dp - 1
      in (if neg then ''-'' else []) @ (if ex < - 4 \<or> ex \<ge> 6 then fmtE ds dp else fmtF ds dp))"

text \<open>The number \<open>encoding/json\<close> writes: none for an infinity or \<open>NaN\<close>; a leading zero of the exponent goes.\<close>

definition json_exp :: "string \<Rightarrow> string" where
  "json_exp s =
     (let n = length s
      in if n \<ge> 4 \<and> s ! (n - 4) = CHR ''e'' \<and> s ! (n - 3) = CHR ''-'' \<and> s ! (n - 2) = CHR ''0''
         then take (n - 2) s @ [s ! (n - 1)] else s)"

fun f64_json :: "f64 \<Rightarrow> string option" where
  "f64_json NaN = None"
| "f64_json (Inf neg) = None"
| "f64_json (Fin neg m e) =
     (let (ds, dp) = shortest_digits m e; sgn = (if neg then ''-'' else [])
      in Some (if m \<noteq> 0 \<and> (dp - 1 < - 6 \<or> dp - 1 \<ge> 21) then json_exp (sgn @ fmtE ds dp) else sgn @ fmtF ds dp))"

subsection \<open>Integers below \<open>2 ^ 53\<close> are exact\<close>

declare bit_len.simps [simp del]

lemma bit_len_bounds: "0 < n \<Longrightarrow> 1 \<le> bit_len n \<and> 2 ^ nat (bit_len n - 1) \<le> n \<and> n < 2 ^ nat (bit_len n)"
proof (induction n rule: bit_len.induct)
  case (1 n)
  show ?case
  proof (cases "n = 1")
    case True
    then show ?thesis by (simp add: bit_len.simps)
  next
    case False
    let ?m = "n div 2"
    have m: "0 < ?m" using 1(2) False by linarith
    then have IH: "1 \<le> bit_len ?m" "2 ^ nat (bit_len ?m - 1) \<le> ?m" "?m < 2 ^ nat (bit_len ?m)"
      using 1 by auto
    have l: "bit_len n = bit_len ?m + 1" using 1(2) by (simp add: bit_len.simps [of n])
    have p: "(2 :: int) ^ nat (bit_len ?m) = 2 * 2 ^ nat (bit_len ?m - 1)"
      using IH(1) by (simp flip: power_Suc add: Suc_nat_eq_nat_zadd1)
    have p': "(2 :: int) ^ nat (bit_len n) = 2 * 2 ^ nat (bit_len ?m)"
      using IH(1) l by (simp add: nat_add_distrib)
    have "2 ^ nat (bit_len n - 1) \<le> n" "n < 2 ^ nat (bit_len n)"
      using IH p p' l by (simp_all, linarith+)
    then show ?thesis using IH(1) l by simp
  qed
qed

lemma bit_len_1: "bit_len 1 = 1"
  by (simp add: bit_len.simps)

lemma round_f64_exact:
  assumes "0 < n" "n < 2 ^ 53"
  shows "round_f64 neg n 1 = Fin neg (n * 2 ^ nat (53 - bit_len n)) (bit_len n - 53)"
proof -
  let ?l = "bit_len n"
  have l: "1 \<le> ?l" "2 ^ nat (?l - 1) \<le> n" "n < 2 ^ nat ?l" using bit_len_bounds [OF assms(1)] by auto
  have l53: "?l \<le> 53"
  proof (rule ccontr)
    assume "\<not> ?l \<le> 53"
    then have "(2 :: int) ^ 53 \<le> 2 ^ nat (?l - 1)" by (intro power_increasing) auto
    with l assms(2) show False by linarith
  qed
  have "n * 2 ^ nat (53 - ?l) < 2 ^ nat ?l * 2 ^ nat (53 - ?l)" using l(3) by simp
  also have "\<dots> = (2 :: int) ^ 53"
    using l l53 by (simp flip: power_add add: nat_add_distrib [symmetric])
  finally have m: "n * 2 ^ nat (53 - ?l) \<noteq> 2 ^ 53" by simp
  have lg: "scale_num 1 (?l - 1) \<le> scale_num n (- (?l - 1))" using l by (simp add: scale_num_def)
  have e: "max (- 1074) (?l - 1 - 52) = ?l - 53" using l by simp
  have s: "scale_num n (- (?l - 53)) = n * 2 ^ nat (53 - ?l)" "scale_num 1 (?l - 53) = 1"
    using l53 by (simp_all add: scale_num_def)
  show ?thesis
    unfolding round_f64_def Let_def bit_len_1 using assms(1) l53 lg e s m by simp
qed

lemma f64_trunc_of_int:
  assumes "\<bar>i\<bar> < 2 ^ 53"
  shows "f64_trunc (f64_of_int i) = Some i"
proof (cases "i = 0")
  case True
  then show ?thesis by (simp add: f64_of_int_def round_f64_def scale_num_def)
next
  case False
  let ?n = "\<bar>i\<bar>"
  let ?e = "bit_len ?n - 53"
  have "f64_of_int i = Fin (i < 0) (?n * 2 ^ nat (53 - bit_len ?n)) ?e"
    using assms False round_f64_exact [of ?n "i < 0"] by (simp add: f64_of_int_def)
  moreover have "bit_len ?n \<le> 53"
  proof (rule ccontr)
    assume "\<not> bit_len ?n \<le> 53"
    then have "(2 :: int) ^ 53 \<le> 2 ^ nat (bit_len ?n - 1)" by (intro power_increasing) auto
    with bit_len_bounds [of ?n] False assms show False by linarith
  qed
  ultimately show ?thesis by (simp add: scale_num_def scale_den_def Let_def)
qed

lemma int64_of_f64_of_int [simp]: "\<bar>i\<bar> < 2 ^ 53 \<Longrightarrow> int64_of_f64 (f64_of_int i) = i"
  by (auto simp: int64_of_f64_def f64_trunc_of_int in_i64_def)

lemma mant_loop_digits:
  "list_all is_digit s \<Longrightarrow>
   mant_loop False m n dg False s = (foldl (\<lambda>a c. 10 * a + digit_val c) m s, n, dg \<or> s \<noteq> [], [])"
  by (induction s arbitrary: m dg) (auto simp: is_digit_def)

lemma digits_not_letters:
  "is_digit c \<Longrightarrow> lower c \<noteq> CHR ''x'' \<and> lower c \<noteq> CHR ''i'' \<and> lower c \<noteq> CHR ''n'' \<and> c \<noteq> CHR ''_'' \<and> c \<noteq> CHR ''-'' \<and> c \<noteq> CHR ''+''"
  by (auto simp: is_digit_def lower_def)

text \<open>The number a text of decimal digits stands for.\<close>

definition digits_value :: "string \<Rightarrow> int" where
  "digits_value ds = foldl (\<lambda>a c. 10 * a + digit_val c) 0 ds"

lemma ParseFloat_digits:
  assumes "drop_sign s = (neg, ds)" "ds \<noteq> []" "list_all is_digit ds"
  shows "ParseFloat s = (case round_f64 neg (digits_value ds) 1 of Inf _ \<Rightarrow> Inl ErrRange | f \<Rightarrow> Inr f)"
proof -
  obtain c cs where ds: "ds = c # cs" using assms(2) by (cases ds) auto
  have c: "lower c \<noteq> CHR ''i''" "lower c \<noteq> CHR ''n''" "c \<noteq> CHR ''_''" using assms(3) ds digits_not_letters [of c] by auto
  have s: "s = ds \<or> s = CHR ''-'' # ds \<or> s = CHR ''+'' # ds"
    using assms(1) by (auto simp: drop_sign_def split: list.splits if_splits)
  have hex: "\<not> (case ds of z # x # _ # _ \<Rightarrow> z = CHR ''0'' \<and> lower x = CHR ''x'' | _ \<Rightarrow> False)"
    using assms(3) digits_not_letters by (auto split: list.splits)
  have us: "CHR ''_'' \<notin> set s" proof -
    have "CHR ''_'' \<notin> set ds" using assms(3) digits_not_letters by (auto simp: list_all_iff)
    then show ?thesis using s by (elim disjE) simp_all
  qed
  have "lower (CHR ''-'') = CHR ''-''" "lower (CHR ''+'') = CHR ''+''" by code_simp+
  then have "lower (hd s) \<noteq> CHR ''n''" using s ds c(2) by force
  then have nan: "map lower s \<noteq> ''nan''" by (cases s) auto
  have "mant_loop False 0 0 False False ds = (digits_value ds, 0, True, [])"
    using mant_loop_digits [OF assms(3), of 0 0 False] assms(2) by (simp add: digits_value_def)
  moreover have "scaled_f64 neg m 10 0 = round_f64 neg m 1" for m by (simp add: scaled_f64_def)
  ultimately have "ParseFloat_number s = (case round_f64 neg (digits_value ds) 1 of Inf _ \<Rightarrow> Inl ErrRange | f \<Rightarrow> Inr f)"
    unfolding ParseFloat_number_def assms(1) Let_def using hex us by (cases "round_f64 neg (digits_value ds) 1") simp_all
  then show ?thesis using c nan s ds assms(2) by (auto simp: ParseFloat_def assms(1))
qed

lemma ParseFloat_fmt_d: "ParseFloat (fmt_d i) = (case f64_of_int i of Inf _ \<Rightarrow> Inl ErrRange | f \<Rightarrow> Inr f)"
proof -
  have "drop_sign (fmt_d i) = (i < 0, dec_digits \<bar>i\<bar>)"
    using dec_digits_digits [of "\<bar>i\<bar>"] digits_not_letters
    by (cases "dec_digits \<bar>i\<bar>") (auto simp: fmt_d_def drop_sign_def)
  from ParseFloat_digits [OF this] show ?thesis
    using dec_digits_digits [of "\<bar>i\<bar>"] dec_digits_value [of "\<bar>i\<bar>"] by (simp add: digits_value_def f64_of_int_def)
qed

lemma ParseFloat_fmt_d_small: "\<bar>i\<bar> < 2 ^ 53 \<Longrightarrow> ParseFloat (fmt_d i) = Inr (f64_of_int i)"
  using f64_trunc_of_int [of i] by (cases "f64_of_int i") (simp_all add: ParseFloat_fmt_d)

subsection \<open>Integers from \<open>2 ^ 53\<close> on are rounded\<close>

lemma div_mod_at:
  fixes n :: int
  assumes "n = q * u + r" "0 \<le> r" "r < u"
  shows "n div u = q" "n mod u = r"
  using assms by (simp_all add: int_div_pos_eq [of n u q r] int_mod_pos_eq [of n u q r] mult.commute)

lemma bit_len_unique:
  assumes "0 \<le> l" "2 ^ nat l \<le> n" "n < 2 ^ nat (l + 1)"
  shows "bit_len n = l + 1"
proof -
  have "0 < n" using assms(2) zero_less_power [of "2 :: int" "nat l"] by linarith
  then have b: "1 \<le> bit_len n" "2 ^ nat (bit_len n - 1) \<le> n" "n < 2 ^ nat (bit_len n)" using bit_len_bounds by auto
  have "(2 :: int) ^ nat l < 2 ^ nat (bit_len n)" "(2 :: int) ^ nat (bit_len n - 1) < 2 ^ nat (l + 1)"
    using assms b by linarith+
  then have "nat l < nat (bit_len n)" "nat (bit_len n - 1) < nat (l + 1)" by simp_all
  then show ?thesis by linarith
qed

text \<open>An integer of \<open>53 + k\<close> bits is rounded to a multiple of \<open>2 ^ k\<close>.\<close>

lemma round_f64_wide:
  assumes "bit_len n = 53 + int k" "0 < n" "k < 900"
  shows "round_f64 neg n 1 =
    (let q = n div 2 ^ k; r = n mod 2 ^ k; m = (if 2 * r > 2 ^ k \<or> 2 * r = 2 ^ k \<and> odd q then q + 1 else q)
     in if m = 2 ^ 53 then Fin neg (2 ^ 52) (int k + 1) else Fin neg m (int k))"
proof -
  have l: "2 ^ (52 + k) \<le> n" using bit_len_bounds [OF assms(2)] assms(1) by (simp add: nat_add_distrib)
  have lg: "scale_num 1 (52 + int k) \<le> scale_num n (- (52 + int k))" using l by (simp add: scale_num_def nat_add_distrib)
  have s: "scale_num n (- int k) = n" "scale_num 1 (int k) = 2 ^ k" by (simp_all add: scale_num_def)
  show ?thesis
    unfolding round_f64_def bit_len_1 assms(1)
    using assms(2,3) lg s by (simp add: Let_def)
qed

text \<open>An odd number of more than 53 bits, as a multiple of the place that is kept and a rest.\<close>

lemma odd_wide:
  assumes "odd n" "2 ^ 53 < n" "n < 2 ^ 64"
  obtains k q r where "1 \<le> k" "k < 100" "bit_len n = 53 + int k" "2 ^ (52 + k) < n" "n < 2 ^ (53 + k)"
    "n = q * 2 ^ k + r" "odd r" "0 < r" "r < 2 ^ k"
proof -
  define l where "l = bit_len n"
  have "0 < n" using assms(2) by simp
  then have b: "1 \<le> l" "2 ^ nat (l - 1) \<le> n" "n < 2 ^ nat l" using bit_len_bounds by (auto simp: l_def)
  have "(2 :: int) ^ 53 < 2 ^ nat l" "(2 :: int) ^ nat (l - 1) < 2 ^ 64" using b assms(2,3) by linarith+
  then have "53 < nat l" "nat (l - 1) < 64"
    using power_less_imp_less_exp [of "2 :: int" 53 "nat l"] power_less_imp_less_exp [of "2 :: int" "nat (l - 1)" 64] by simp_all
  then obtain k where k: "l = 53 + int k" "1 \<le> k" "k < 100" using that [of "nat l - 53"] by linarith
  have n: "2 ^ (52 + k) \<le> n" "n < 2 ^ (53 + k)" using b k by (simp_all add: nat_add_distrib)
  have "n \<noteq> 2 ^ (52 + k)" using assms(1) by auto
  define r where "r = n mod 2 ^ k"
  have qr: "n = (n div 2 ^ k) * 2 ^ k + r" unfolding r_def by (rule div_mult_mod_eq [symmetric])
  then have r: "odd r" using assms(1) k(2) by (metis even_add even_mult_iff even_power even_numeral not_one_le_zero zero_less_iff_neq_zero)
  moreover have "0 \<le> r" "r < 2 ^ k" by (simp_all add: r_def)
  moreover have "r \<noteq> 0" using r by auto
  ultimately show ?thesis using that [OF k(2,3) _ _ n(2) qr] k(1) n(1) \<open>n \<noteq> 2 ^ (52 + k)\<close> by (simp add: l_def)
qed

lemma round_f64_down:
  assumes "bit_len n = 53 + int k" "2 ^ (52 + k) < n" "n < 2 ^ (53 + k)" "k < 100" "n = q * 2 ^ k + r" "0 < r" "r < 2 ^ k"
    "\<not> (2 * r > 2 ^ k \<or> 2 * r = 2 ^ k \<and> odd q)"
  shows "round_f64 neg n 1 = round_f64 neg (n - 1) 1"
proof -
  have n: "1 < n" using assms(2) one_le_power [of "2 :: int" "52 + k"] by linarith
  have "bit_len (n - 1) = 53 + int k" using bit_len_unique [of "52 + int k" "n - 1"] assms(2,3) by (simp add: nat_add_distrib)
  note w = round_f64_wide [OF assms(1), of neg] round_f64_wide [OF this, of neg]
  have d: "n div 2 ^ k = q" "n mod 2 ^ k = r" "(n - 1) div 2 ^ k = q" "(n - 1) mod 2 ^ k = r - 1"
    using div_mod_at [of n q "2 ^ k" r] div_mod_at [of "n - 1" q "2 ^ k" "r - 1"] assms(5,6,7) by simp_all
  show ?thesis using w n assms(4,8) d by auto
qed

lemma round_f64_up:
  assumes "bit_len n = 53 + int k" "2 ^ (52 + k) < n" "n < 2 ^ (53 + k)" "1 \<le> k" "k < 100" "n = q * 2 ^ k + r" "0 < r" "r < 2 ^ k"
    "2 * r > 2 ^ k \<or> 2 * r = 2 ^ k \<and> odd q"
  shows "round_f64 neg n 1 = round_f64 neg (n + 1) 1"
proof -
  let ?u = "(2 :: int) ^ k"
  have n: "0 < n" using assms(2) one_le_power [of "2 :: int" "52 + k"] by linarith
  have u: "2 \<le> ?u" using assms(4) self_le_power [of "2 :: int" k] by auto
  have d: "n div ?u = q" "n mod ?u = r" using div_mod_at [of n q ?u r] assms(6-8) by simp_all
  have up: "round_f64 neg n 1 = (if q + 1 = 2 ^ 53 then Fin neg (2 ^ 52) (int k + 1) else Fin neg (q + 1) (int k))"
    using round_f64_wide [OF assms(1) n, of neg] assms(5,9) d by auto
  consider (carry) "n + 1 = 2 ^ (53 + k)" | (next_multiple) "n + 1 < 2 ^ (53 + k)" "r + 1 = ?u" | (inside) "n + 1 < 2 ^ (53 + k)" "r + 1 < ?u"
    using assms(3,8) by linarith
  then show ?thesis
  proof cases
    case carry
    then have "bit_len (n + 1) = 53 + int (k + 1)" using bit_len_unique [of "53 + int k" "n + 1"] by (simp add: nat_add_distrib)
    then have w: "round_f64 neg (n + 1) 1 = Fin neg (2 ^ 52) (int k + 1)"
      using round_f64_wide [of "n + 1" "k + 1" neg] assms(5) n carry by (simp add: power_add)
    have "n = (2 ^ 53 - 1) * ?u + (?u - 1)" using carry by (simp add: power_add algebra_simps)
    then have "n div ?u = 2 ^ 53 - 1" by (rule div_mod_at) (use u in auto)
    then show ?thesis using up w d by simp
  next
    case next_multiple
    then have "bit_len (n + 1) = 53 + int k" using bit_len_unique [of "52 + int k" "n + 1"] assms(2) by (simp add: nat_add_distrib)
    note w = round_f64_wide [OF this, of neg]
    have "n + 1 = (q + 1) * ?u" using next_multiple assms(6) by (simp add: algebra_simps)
    then have "(n + 1) div ?u = q + 1" "(n + 1) mod ?u = 0" by simp_all
    then show ?thesis using up w n u assms(5) by (simp add: Let_def)
  next
    case inside
    then have "bit_len (n + 1) = 53 + int k" using bit_len_unique [of "52 + int k" "n + 1"] assms(2) by (simp add: nat_add_distrib)
    note w = round_f64_wide [OF this, of neg]
    have "(n + 1) div ?u = q" "(n + 1) mod ?u = r + 1" using div_mod_at [of "n + 1" q ?u "r + 1"] inside assms(6,7) by simp_all
    moreover have "2 * (r + 1) > ?u" using assms(9) by auto
    ultimately show ?thesis using up w n assms(5) by (simp add: Let_def)
  qed
qed

text \<open>An odd integer from \<open>2 ^ 53\<close> on becomes the same \<open>float64\<close> as one of its neighbours.\<close>

lemma f64_of_int_odd:
  assumes "odd i" "2 ^ 53 < \<bar>i\<bar>" "\<bar>i\<bar> < 2 ^ 64"
  shows "\<exists>j. \<bar>j - i\<bar> = 1 \<and> f64_of_int j = f64_of_int i"
proof -
  have "odd \<bar>i\<bar>" using assms(1) by simp
  from odd_wide [OF this assms(2,3)] obtain k q r where w: "1 \<le> k" "k < 100" "bit_len \<bar>i\<bar> = 53 + int k" "2 ^ (52 + k) < \<bar>i\<bar>"
    "\<bar>i\<bar> < 2 ^ (53 + k)" "\<bar>i\<bar> = q * 2 ^ k + r" "odd r" "0 < r" "r < 2 ^ k" .
  show ?thesis
  proof (cases "2 * r > 2 ^ k \<or> 2 * r = 2 ^ k \<and> odd q")
    case True
    then have "round_f64 (i < 0) \<bar>i\<bar> 1 = round_f64 (i < 0) (\<bar>i\<bar> + 1) 1" by (rule round_f64_up [OF w(3-5,1,2,6,8,9)])
    then show ?thesis using assms(2) by (intro exI [of _ "if i < 0 then i - 1 else i + 1"]) (auto simp: f64_of_int_def abs_if)
  next
    case False
    then have "round_f64 (i < 0) \<bar>i\<bar> 1 = round_f64 (i < 0) (\<bar>i\<bar> - 1) 1" by (rule round_f64_down [OF w(3-5,2,6,8,9)])
    then show ?thesis using assms(2) by (intro exI [of _ "if i < 0 then i + 1 else i - 1"]) (auto simp: f64_of_int_def abs_if)
  qed
qed

subsection \<open>The characters of a printed number\<close>

definition num_char :: "char \<Rightarrow> bool" where
  "num_char c \<longleftrightarrow> is_digit c \<or> c \<in> set ''+-.e''"

lemma num_char_fmt_d: "c \<in> set (fmt_d i) \<Longrightarrow> num_char c"
  using fmt_d_chars [of c i] by (auto simp: num_char_def)

lemma shortest_digits_chars:
  assumes "shortest_digits m e = (ds, dp)" "c \<in> set ds"
  shows "num_char c"
proof -
  obtain d u where du: "shortest_from 17 m e 1 = (d, u)" by fastforce
  then have "ds = [] \<or> ds = rev (dropWhile (\<lambda>c. c = CHR ''0'') (rev (fmt_d d)))"
    using assms(1) by (auto simp: shortest_digits_def Let_def split: if_splits)
  with assms(2) have "c \<in> set (fmt_d d)" by (metis set_dropWhileD set_rev empty_iff list.set(1))
  then show ?thesis by (rule num_char_fmt_d)
qed

lemma fmtE_chars: "\<forall>c \<in> set ds. num_char c \<Longrightarrow> c \<in> set (fmtE ds dp) \<Longrightarrow> num_char c"
  by (auto simp: fmtE_def Let_def num_char_fmt_d split: list.splits if_splits) (auto simp: num_char_def is_digit_def)

lemma fmtF_chars: "\<forall>c \<in> set ds. num_char c \<Longrightarrow> c \<in> set (fmtF ds dp) \<Longrightarrow> num_char c"
  by (auto simp: fmtF_def Let_def split: if_splits dest: in_set_takeD in_set_dropD) (auto simp: num_char_def is_digit_def)

lemma fmt_ne [simp]: "fmtE ds dp \<noteq> []" "fmtF ds dp \<noteq> []"
  by (auto simp: fmtE_def fmtF_def Let_def split: list.splits)

lemma json_exp_chars: "c \<in> set (json_exp s) \<Longrightarrow> c \<in> set s"
  by (auto simp: json_exp_def Let_def split: if_splits dest: in_set_takeD)

lemma json_exp_ne [simp]: "json_exp s = [] \<longleftrightarrow> s = []"
  by (auto simp: json_exp_def Let_def)

lemma f64_json_chars:
  assumes "f64_json f = Some s"
  shows "s \<noteq> [] \<and> (\<forall>c \<in> set s. num_char c)"
proof -
  from assms obtain neg m e where f: "f = Fin neg m e" by (cases f) auto
  obtain ds dp where ds: "shortest_digits m e = (ds, dp)" by fastforce
  have "\<forall>c \<in> set ds. num_char c" using shortest_digits_chars [OF ds] by blast
  note chars = fmtE_chars [OF this] fmtF_chars [OF this]
  have "num_char (CHR ''-'')" by (simp add: num_char_def)
  then show ?thesis
    using assms chars by (auto simp: f ds Let_def dest!: json_exp_chars split: if_splits)
qed

end
