(* ===== verification/Go_Json.thy ===== *)
theory Go_Json
  imports Go_Float "HOL-Library.Char_ord" "HOL-Library.List_Lexorder"
begin

text \<open>
  The dynamic values of the program (\<open>interface{}\<close>) and \<open>encoding/json\<close> on them. A value is one
  constructor per dynamic type the code tells apart. \<open>json.Marshal\<close> is the translation of a value to
  a syntax tree, with the keys of a map sorted, and the printing of the tree with the escapes
  of the package (HTML characters, control characters, invalid UTF-8). \<open>json.Unmarshal\<close> is the scanner of the package, a
  machine that takes one byte at a time and keeps a stack of open arrays and objects, followed by
  the conversion of the tree to the target type.

  The lemmas give the round trip: a printed tree with well-formed UTF-8 texts and at most 10000 open
  brackets reads back as itself, at any place of a longer text.
\<close>

datatype goval =
    VNil
  | VInt int
  | VInt32 int
  | VInt64 int
  | VFloat f64
  | VString string
  | VBool bool
  | VNumber string
  | VSlice "goval list"
  | VMap "(string \<times> goval) list"

datatype json =
    JNull
  | JBool bool
  | JNum string
  | JStr string
  | JArr "json list"
  | JObj "(string \<times> json) list"

datatype json_error = JUnsupportedValue | JInvalidNumber string | JSyntaxError | JTypeError

abbreviation ord :: "char \<Rightarrow> int" where
  "ord c \<equiv> of_char c"

subsection \<open>UTF-8\<close>

text \<open>The length of the rune at the head of a text, as \<open>utf8.DecodeRune\<close> finds it; none for an invalid one.\<close>

definition is_cont :: "char \<Rightarrow> bool" where
  "is_cont c \<longleftrightarrow> 0x80 \<le> ord c \<and> ord c \<le> 0xBF"

fun rune_len :: "string \<Rightarrow> nat option" where
  "rune_len [] = None"
| "rune_len (c # cs) =
     (if ord c < 0x80 then Some 1
      else if 0xC2 \<le> ord c \<and> ord c \<le> 0xDF then
        (case cs of d # _ \<Rightarrow> if is_cont d then Some 2 else None | _ \<Rightarrow> None)
      else if 0xE0 \<le> ord c \<and> ord c \<le> 0xEF then
        (case cs of
           d # e # _ \<Rightarrow>
             if is_cont d \<and> is_cont e \<and> (ord c = 0xE0 \<longrightarrow> 0xA0 \<le> ord d) \<and> (ord c = 0xED \<longrightarrow> ord d \<le> 0x9F)
             then Some 3 else None
         | _ \<Rightarrow> None)
      else if 0xF0 \<le> ord c \<and> ord c \<le> 0xF4 then
        (case cs of
           d # e # f # _ \<Rightarrow>
             if is_cont d \<and> is_cont e \<and> is_cont f \<and>
                (ord c = 0xF0 \<longrightarrow> 0x90 \<le> ord d) \<and> (ord c = 0xF4 \<longrightarrow> ord d \<le> 0x8F)
             then Some 4 else None
         | _ \<Rightarrow> None)
      else None)"

definition replacement :: string where
  "replacement = [CHR 0xEF, CHR 0xBF, CHR 0xBD]"

text \<open>\<open>utf8.EncodeRune\<close> of a code point that is no surrogate.\<close>

definition encode_rune :: "int \<Rightarrow> string" where
  "encode_rune r =
     (if r < 0x80 then [char_of r]
      else if r < 0x800 then [char_of (0xC0 + r div 64), char_of (0x80 + r mod 64)]
      else if r < 0x10000 then
        [char_of (0xE0 + r div 4096), char_of (0x80 + r div 64 mod 64), char_of (0x80 + r mod 64)]
      else
        [char_of (0xF0 + r div 262144), char_of (0x80 + r div 4096 mod 64), char_of (0x80 + r div 64 mod 64),
         char_of (0x80 + r mod 64)])"

function utf8_valid :: "string \<Rightarrow> bool" where
  "utf8_valid [] = True"
| "utf8_valid (c # cs) = (case rune_len (c # cs) of None \<Rightarrow> False | Some n \<Rightarrow> utf8_valid (drop (n - 1) cs))"
  by pat_completeness auto
termination
  by (relation "measure length") auto

subsection \<open>Printing\<close>

definition bslash :: char where "bslash = CHR 0x5C"

definition dquote :: char where "dquote = CHR 0x22"

definition esc_u :: "char \<Rightarrow> string" where
  "esc_u c = bslash # ''u00'' @ [hex_digit (nat (ord c div 16)), hex_digit (nat (ord c mod 16))]"

definition esc_ascii :: "char \<Rightarrow> string" where
  "esc_ascii c =
     (if c = bslash \<or> c = dquote then [bslash, c]
      else if c = CHR 0x08 then bslash # ''b''
      else if c = CHR 0x0C then bslash # ''f''
      else if c = CHR 0x0A then bslash # ''n''
      else if c = CHR 0x0D then bslash # ''r''
      else if c = CHR 0x09 then bslash # ''t''
      else if ord c < 0x20 \<or> c = CHR ''<'' \<or> c = CHR ''>'' \<or> c = CHR ''&'' then esc_u c
      else [c])"

text \<open>The output for the rune at the head of a text, and how many bytes behind the first it takes.\<close>

definition escape_unit :: "char \<Rightarrow> string \<Rightarrow> string \<times> nat" where
  "escape_unit c cs =
     (if ord c < 0x80 then (esc_ascii c, 0)
      else
        (case rune_len (c # cs) of
           None \<Rightarrow> (bslash # ''ufffd'', 0)
         | Some n \<Rightarrow>
             if take n (c # cs) = [CHR 0xE2, CHR 0x80, CHR 0xA8] then (bslash # ''u2028'', n - 1)
             else if take n (c # cs) = [CHR 0xE2, CHR 0x80, CHR 0xA9] then (bslash # ''u2029'', n - 1)
             else (take n (c # cs), n - 1)))"

function escape :: "string \<Rightarrow> string" where
  "escape [] = []"
| "escape (c # cs) = fst (escape_unit c cs) @ escape (drop (snd (escape_unit c cs)) cs)"
  by pat_completeness auto
termination
  by (relation "measure length") auto

definition print_string :: "string \<Rightarrow> string" where
  "print_string s = dquote # escape s @ [dquote]"

fun print_json :: "json \<Rightarrow> string" where
  "print_json JNull = ''null''"
| "print_json (JBool b) = (if b then ''true'' else ''false'')"
| "print_json (JNum s) = s"
| "print_json (JStr s) = print_string s"
| "print_json (JArr vs) = ''['' @ Join (map print_json vs) '','' @ '']''"
| "print_json (JObj kvs) =
     CHR 0x7B # Join (map (\<lambda>kv. print_string (fst kv) @ '':'' @ print_json (snd kv)) kvs) '','' @ [CHR 0x7D]"

text \<open>\<open>isValidNumber\<close>: the grammar of JSON numbers.\<close>

definition is_digit19 :: "char \<Rightarrow> bool" where
  "is_digit19 c \<longleftrightarrow> is_digit c \<and> c \<noteq> CHR ''0''"

definition valid_exp :: "string \<Rightarrow> bool" where
  "valid_exp s =
     (case s of
        [] \<Rightarrow> True
      | c # cs \<Rightarrow>
          (c = CHR ''e'' \<or> c = CHR ''E'') \<and>
          (let ds = (case cs of d # ds \<Rightarrow> if d = CHR ''+'' \<or> d = CHR ''-'' then ds else cs | [] \<Rightarrow> [])
           in ds \<noteq> [] \<and> list_all is_digit ds))"

definition valid_frac :: "string \<Rightarrow> bool" where
  "valid_frac s =
     (case s of
        [] \<Rightarrow> True
      | c # cs \<Rightarrow>
          if c = CHR ''.'' then (case cs of d # _ \<Rightarrow> is_digit d \<and> valid_exp (dropWhile is_digit cs) | [] \<Rightarrow> False)
          else valid_exp s)"

definition valid_number :: "string \<Rightarrow> bool" where
  "valid_number s =
     (let t = (case s of c # cs \<Rightarrow> if c = CHR ''-'' then cs else s | [] \<Rightarrow> [])
      in case t of
           [] \<Rightarrow> False
         | c # cs \<Rightarrow>
             if c = CHR ''0'' then valid_frac cs
             else is_digit19 c \<and> valid_frac (dropWhile is_digit cs))"

text \<open>\<open>json.Marshal\<close>: all elements, or the first error.\<close>

fun collect :: "('e + 'a) list \<Rightarrow> 'e + 'a list" where
  "collect [] = Inr []"
| "collect (r # rs) =
     (case r of Inl e \<Rightarrow> Inl e | Inr x \<Rightarrow> (case collect rs of Inl e \<Rightarrow> Inl e | Inr xs \<Rightarrow> Inr (x # xs)))"

fun json_of :: "goval \<Rightarrow> json_error + json" where
  "json_of VNil = Inr JNull"
| "json_of (VInt i) = Inr (JNum (fmt_d i))"
| "json_of (VInt32 i) = Inr (JNum (fmt_d i))"
| "json_of (VInt64 i) = Inr (JNum (fmt_d i))"
| "json_of (VFloat f) = (case f64_json f of None \<Rightarrow> Inl JUnsupportedValue | Some s \<Rightarrow> Inr (JNum s))"
| "json_of (VString s) = Inr (JStr s)"
| "json_of (VBool b) = Inr (JBool b)"
| "json_of (VNumber s) =
     (if s = [] then Inr (JNum ''0'') else if valid_number s then Inr (JNum s) else Inl (JInvalidNumber s))"
| "json_of (VSlice vs) = map_sum id JArr (collect (map json_of vs))"
| "json_of (VMap kvs) =
     map_sum id JObj (collect (map (\<lambda>kv. map_sum id (Pair (fst kv)) (json_of (snd kv))) (sort_key fst kvs)))"

definition Marshal :: "goval \<Rightarrow> json_error + string" where
  "Marshal v = map_sum id print_json (json_of v)"

subsection \<open>Reading\<close>

definition hex4 :: "string \<Rightarrow> int option" where
  "hex4 s =
     (case s of
        a # b # c # d # _ \<Rightarrow>
          (case (from_hex a, from_hex b, from_hex c, from_hex d) of
             (Some i, Some j, Some k, Some l) \<Rightarrow> Some (4096 * int i + 256 * int j + 16 * int k + int l)
           | _ \<Rightarrow> None)
      | _ \<Rightarrow> None)"

text \<open>A \<open>\u\<close> escape at the head of a text, as \<open>getu4\<close> reads it.\<close>

definition getu4 :: "string \<Rightarrow> int option" where
  "getu4 s = (case s of b # u # t \<Rightarrow> if b = bslash \<and> u = CHR ''u'' then hex4 t else None | _ \<Rightarrow> None)"

definition unquote_u :: "string \<Rightarrow> (string \<times> nat) option" where
  "unquote_u s =
     (case getu4 s of
        None \<Rightarrow> None
      | Some r \<Rightarrow>
          if 0xD800 \<le> r \<and> r < 0xE000 then
            (case getu4 (drop 6 s) of
               Some r2 \<Rightarrow>
                 if r < 0xDC00 \<and> 0xDC00 \<le> r2 \<and> r2 < 0xE000
                 then Some (encode_rune ((r - 0xD800) * 1024 + (r2 - 0xDC00) + 0x10000), 11)
                 else Some (replacement, 5)
             | None \<Rightarrow> Some (replacement, 5))
          else Some (encode_rune r, 5))"

text \<open>
  One unit of a quoted text: the bytes it stands for, and how many bytes behind the first it takes. A rune that
  decodes is written back as the bytes it had; any other byte becomes the replacement character.
\<close>

definition unquote_unit :: "char \<Rightarrow> string \<Rightarrow> (string \<times> nat) option" where
  "unquote_unit c cs =
     (if c = bslash then
        (case cs of
           [] \<Rightarrow> None
         | d # _ \<Rightarrow>
             if d = dquote \<or> d = bslash \<or> d = CHR ''/'' then Some ([d], 1)
             else if d = CHR ''b'' then Some ([CHR 0x08], 1)
             else if d = CHR ''f'' then Some ([CHR 0x0C], 1)
             else if d = CHR ''n'' then Some ([CHR 0x0A], 1)
             else if d = CHR ''r'' then Some ([CHR 0x0D], 1)
             else if d = CHR ''t'' then Some ([CHR 0x09], 1)
             else if d = CHR ''u'' then unquote_u (c # cs)
             else None)
      else if c = dquote \<or> ord c < 0x20 then None
      else
        (case rune_len (c # cs) of
           None \<Rightarrow> Some (replacement, 0)
         | Some n \<Rightarrow> Some (take n (c # cs), n - 1)))"

function unquote :: "string \<Rightarrow> string option" where
  "unquote [] = Some []"
| "unquote (c # cs) =
     (case unquote_unit c cs of
        None \<Rightarrow> None
      | Some (u, n) \<Rightarrow> map_option (\<lambda>t. u @ t) (unquote (drop n cs)))"
  by pat_completeness auto
termination
  by (relation "measure length") auto

text \<open>
  The scanner. An open object is \<open>FKeys\<close> before a key and \<open>FObj\<close> with the key read before its value.
  The texts of strings and numbers are collected backwards and judged at their end.
\<close>

datatype frame = FArr "json list" | FKeys "(string \<times> json) list" | FObj "(string \<times> json) list" string

datatype mode =
    MValue
  | MValueOrEnd
  | MKey
  | MKeyOrEnd
  | MColon
  | MStr bool bool string
  | MNum string
  | MLit string json
  | MDone json

definition is_space :: "char \<Rightarrow> bool" where
  "is_space c \<longleftrightarrow> c = CHR 0x20 \<or> c = CHR 0x09 \<or> c = CHR 0x0D \<or> c = CHR 0x0A"

definition is_num_char :: "char \<Rightarrow> bool" where
  "is_num_char c \<longleftrightarrow> is_digit c \<or> c = CHR ''+'' \<or> c = CHR ''-'' \<or> c = CHR ''.'' \<or> c = CHR ''e'' \<or> c = CHR ''E''"

definition push :: "frame \<Rightarrow> frame list \<Rightarrow> mode \<Rightarrow> (frame list \<times> mode) option" where
  "push f fs m = (if int (length fs) < 10000 then Some (f # fs, m) else None)"

definition begin_value :: "frame list \<Rightarrow> char \<Rightarrow> (frame list \<times> mode) option" where
  "begin_value fs c =
     (if c = dquote then Some (fs, MStr False False [])
      else if c = CHR ''['' then push (FArr []) fs MValueOrEnd
      else if c = CHR 0x7B then push (FKeys []) fs MKeyOrEnd
      else if is_digit c \<or> c = CHR ''-'' then Some (fs, MNum [c])
      else if c = CHR ''t'' then Some (fs, MLit ''rue'' (JBool True))
      else if c = CHR ''f'' then Some (fs, MLit ''alse'' (JBool False))
      else if c = CHR ''n'' then Some (fs, MLit ''ull'' JNull)
      else None)"

fun end_value :: "frame list \<Rightarrow> json \<Rightarrow> char \<Rightarrow> (frame list \<times> mode) option" where
  "end_value [] v c = (if is_space c then Some ([], MDone v) else None)"
| "end_value (FArr vs # fs) v c =
     (if is_space c then Some (FArr vs # fs, MDone v)
      else if c = CHR '','' then Some (FArr (vs @ [v]) # fs, MValue)
      else if c = CHR '']'' then Some (fs, MDone (JArr (vs @ [v])))
      else None)"
| "end_value (FObj kvs k # fs) v c =
     (if is_space c then Some (FObj kvs k # fs, MDone v)
      else if c = CHR '','' then Some (FKeys (kvs @ [(k, v)]) # fs, MKey)
      else if c = CHR 0x7D then Some (fs, MDone (JObj (kvs @ [(k, v)])))
      else None)"
| "end_value (FKeys kvs # fs) v c = None"

fun end_string :: "frame list \<Rightarrow> bool \<Rightarrow> string \<Rightarrow> (frame list \<times> mode) option" where
  "end_string (FKeys kvs # fs) True raw =
     (case unquote (rev raw) of None \<Rightarrow> None | Some k \<Rightarrow> Some (FObj kvs k # fs, MColon))"
| "end_string fs True raw = None"
| "end_string fs False raw = (case unquote (rev raw) of None \<Rightarrow> None | Some s \<Rightarrow> Some (fs, MDone (JStr s)))"

fun step :: "frame list \<times> mode \<Rightarrow> char \<Rightarrow> (frame list \<times> mode) option" where
  "step (fs, MValue) c = (if is_space c then Some (fs, MValue) else begin_value fs c)"
| "step (fs, MValueOrEnd) c =
     (if is_space c then Some (fs, MValueOrEnd)
      else if c = CHR '']'' then Some (tl fs, MDone (JArr []))
      else begin_value fs c)"
| "step (fs, MKey) c =
     (if is_space c then Some (fs, MKey) else if c = dquote then Some (fs, MStr True False []) else None)"
| "step (fs, MKeyOrEnd) c =
     (if is_space c then Some (fs, MKeyOrEnd)
      else if c = CHR 0x7D then Some (tl fs, MDone (JObj []))
      else if c = dquote then Some (fs, MStr True False [])
      else None)"
| "step (fs, MColon) c =
     (if is_space c then Some (fs, MColon) else if c = CHR '':'' then Some (fs, MValue) else None)"
| "step (fs, MStr key esc raw) c =
     (if esc then Some (fs, MStr key False (c # raw))
      else if c = bslash then Some (fs, MStr key True (c # raw))
      else if c = dquote then end_string fs key raw
      else if ord c < 0x20 then None
      else Some (fs, MStr key False (c # raw)))"
| "step (fs, MNum ds) c =
     (if is_num_char c then Some (fs, MNum (c # ds))
      else if valid_number (rev ds) then end_value fs (JNum (rev ds)) c
      else None)"
| "step (fs, MLit l v) c =
     (case l of
        [] \<Rightarrow> None
      | x # xs \<Rightarrow> if c = x then Some (fs, if xs = [] then MDone v else MLit xs v) else None)"
| "step (fs, MDone v) c = end_value fs v c"

fun run :: "frame list \<times> mode \<Rightarrow> string \<Rightarrow> (frame list \<times> mode) option" where
  "run st [] = Some st"
| "run st (c # cs) = (case step st c of None \<Rightarrow> None | Some st' \<Rightarrow> run st' cs)"

fun finish :: "frame list \<times> mode \<Rightarrow> json option" where
  "finish ([], MDone v) = Some v"
| "finish ([], MNum ds) = (if valid_number (rev ds) then Some (JNum (rev ds)) else None)"
| "finish _ = None"

definition parse_from :: "frame list \<times> mode \<Rightarrow> string \<Rightarrow> json option" where
  "parse_from st s = (case run st s of None \<Rightarrow> None | Some st' \<Rightarrow> finish st')"

definition parse_json :: "string \<Rightarrow> json option" where
  "parse_json s = parse_from ([], MValue) s"

text \<open>\<open>json.Unmarshal\<close> to \<open>interface{}\<close>: a number is a \<open>float64\<close>, of two equal keys the last one counts.\<close>

fun val_of :: "json \<Rightarrow> json_error + goval" where
  "val_of JNull = Inr VNil"
| "val_of (JBool b) = Inr (VBool b)"
| "val_of (JNum s) = (case ParseFloat s of Inl _ \<Rightarrow> Inl JTypeError | Inr f \<Rightarrow> Inr (VFloat f))"
| "val_of (JStr s) = Inr (VString s)"
| "val_of (JArr vs) = map_sum id VSlice (collect (map val_of vs))"
| "val_of (JObj kvs) =
     map_sum id (\<lambda>vs. VMap (fold (\<lambda>kv. AList.update (fst kv) (snd kv)) vs []))
       (collect (map (\<lambda>kv. map_sum id (Pair (fst kv)) (val_of (snd kv))) kvs))"

subsection \<open>Texts\<close>

lemma ord_range [simp]: "0 \<le> ord c" "ord c < 256"
proof -
  have "ord c = ord c mod 256" by simp
  then show "0 \<le> ord c" "ord c < 256" by (metis pos_mod_sign zero_less_numeral, metis pos_mod_bound zero_less_numeral)
qed

lemma char_of_ord [simp]: "char_of (ord c) = c"
  by (rule char_of_char)

lemma rune_len_cases:
  assumes "rune_len s = Some n"
  obtains (one) c cs where "s = c # cs" "ord c < 0x80" "n = 1"
  | (two) c d cs where "s = c # d # cs" "0x80 \<le> ord c" "n = 2"
  | (three) c d e cs where "s = c # d # e # cs" "0x80 \<le> ord c" "n = 3" "is_cont d" "is_cont e"
  | (four) c d e f cs where "s = c # d # e # f # cs" "0x80 \<le> ord c" "n = 4"
  using assms by (cases s) (auto split: if_splits list.splits)

lemma rune_len_bounds: "rune_len s = Some n \<Longrightarrow> 1 \<le> n \<and> n \<le> length s"
  by (erule rune_len_cases) auto

lemma rune_len_take:
  assumes "rune_len s = Some n"
  shows "rune_len (take n s @ rest) = Some n"
  using assms by (rule rune_len_cases) (use assms in \<open>auto split: if_splits list.splits\<close>)

lemma take_rune_high:
  assumes "rune_len s = Some n" "s = c # cs" "0x80 \<le> ord c" "x \<in> set (take n s)"
  shows "0x80 \<le> ord x"
  using assms by (auto simp: is_cont_def split: if_splits list.splits)

lemma hex_digit_chars: "n < 16 \<Longrightarrow> hex_digit n \<noteq> bslash \<and> hex_digit n \<noteq> dquote \<and> 0x20 \<le> ord (hex_digit n)"
proof -
  have "list_all (\<lambda>n. hex_digit n \<noteq> bslash \<and> hex_digit n \<noteq> dquote \<and> 0x20 \<le> ord (hex_digit n)) [0..<16]"
    by code_simp
  then show "n < 16 \<Longrightarrow> hex_digit n \<noteq> bslash \<and> hex_digit n \<noteq> dquote \<and> 0x20 \<le> ord (hex_digit n)"
    by (simp add: list_all_iff)
qed

lemma ord_special: "ord bslash = 0x5C" "ord dquote = 0x22" "bslash \<noteq> dquote" "dquote \<noteq> bslash"
  by (simp_all add: bslash_def dquote_def of_char_def)

text \<open>A unit that unquotes to \<open>t\<close> contributes \<open>t\<close>.\<close>

lemma unquote_append:
  assumes "unquote_unit c (cs @ rest) = Some (t, length cs)"
  shows "unquote (c # cs @ rest) = map_option (\<lambda>x. t @ x) (unquote rest)"
  using assms by simp

lemma unquote_unit_u: "unquote_unit bslash (CHR ''u'' # t) = unquote_u (bslash # CHR ''u'' # t)"
  by (simp add: unquote_unit_def bslash_def dquote_def)

lemma unquote_esc_ascii:
  assumes "ord c < 0x80"
  obtains d ds where "esc_ascii c = d # ds" "unquote_unit d (ds @ rest) = Some ([c], length ds)"
proof (cases "esc_ascii c = esc_u c")
  case True
  have "nat (ord c div 16) < 16" "nat (ord c mod 16) < 16" "ord c div 16 * 16 + ord c mod 16 = ord c"
    using ord_range [of c] by (linarith, linarith, simp)
  then have "unquote_u (esc_u c @ rest) = Some ([c], 5)"
    using assms by (simp add: esc_u_def unquote_u_def getu4_def hex4_def from_hex_def [of "CHR ''0''"] encode_rune_def)
  then show ?thesis
    by (intro that [of bslash "tl (esc_u c)"]) (simp_all add: True, simp_all add: esc_u_def unquote_unit_u)
next
  case False
  note chars = esc_ascii_def unquote_unit_def bslash_def dquote_def
  consider "c = bslash" | "c = dquote" | "c = CHR 0x08" | "c = CHR 0x0C" | "c = CHR 0x0A" | "c = CHR 0x0D"
    | "c = CHR 0x09" | "esc_ascii c = [c]" "c \<noteq> bslash" "c \<noteq> dquote" "\<not> ord c < 0x20"
    using False by (auto simp: esc_ascii_def split: if_splits)
  then show ?thesis
  proof cases
    case 1 then show ?thesis by (intro that [of bslash "[c]"]) (simp_all add: chars)
  next
    case 2 then show ?thesis by (intro that [of bslash "[c]"]) (simp_all add: chars)
  next
    case 3 then show ?thesis by (intro that [of bslash "''b''"]) (simp_all add: chars)
  next
    case 4 then show ?thesis by (intro that [of bslash "''f''"]) (simp_all add: chars)
  next
    case 5 then show ?thesis by (intro that [of bslash "''n''"]) (simp_all add: chars)
  next
    case 6 then show ?thesis by (intro that [of bslash "''r''"]) (simp_all add: chars)
  next
    case 7 then show ?thesis by (intro that [of bslash "''t''"]) (simp_all add: chars)
  next
    case 8 then show ?thesis using assms by (intro that [of c "[]"]) (simp_all add: unquote_unit_def)
  qed
qed

lemma encode_rune_separators:
  "encode_rune 0x2028 = [CHR 0xE2, CHR 0x80, CHR 0xA8]" "encode_rune 0x2029 = [CHR 0xE2, CHR 0x80, CHR 0xA9]"
  by code_simp+

lemma unquote_escape_unit:
  assumes "rune_len (c # cs) = Some n"
  obtains d ds where "escape_unit c cs = (d # ds, n - 1)"
    "unquote_unit d (ds @ rest) = Some (take n (c # cs), length ds)"
proof (cases "ord c < 0x80")
  case True
  with assms have "n = 1" by simp
  with True show thesis
    using that by (cases rule: unquote_esc_ascii [OF True, of rest]) (simp_all add: escape_unit_def)
next
  case False
  obtain ds where ds: "take n (c # cs) = c # ds" "length ds = n - 1"
    using rune_len_bounds [OF assms] by (cases n) auto
  let ?ls = "[CHR 0xE2, CHR 0x80, CHR 0xA8]" and ?ps = "[CHR 0xE2, CHR 0x80, CHR 0xA9]"
  consider "take n (c # cs) = ?ls" | "take n (c # cs) = ?ps" | "take n (c # cs) \<noteq> ?ls" "take n (c # cs) \<noteq> ?ps" by blast
  then show thesis
  proof cases
    case 3
    have "unquote_unit c (ds @ rest) = Some (take n (c # cs), length ds)"
      using rune_len_take [OF assms, of rest] rune_len_bounds [OF assms] ds False
      by (cases n) (auto simp: unquote_unit_def bslash_def dquote_def simp del: rune_len.simps)
    with 3 show thesis using assms ds False by (intro that [of c ds]) (simp_all add: escape_unit_def)
  next
    case 1
    have "unquote_u (bslash # ''u2028'' @ rest) = Some (?ls, 5)"
      by (simp add: unquote_u_def getu4_def hex4_def from_hex_def encode_rune_separators)
    with 1 show thesis using assms ds False
      by (intro that [of bslash "''u2028''"]) (simp_all add: escape_unit_def unquote_unit_u)
  next
    case 2
    have "unquote_u (bslash # ''u2029'' @ rest) = Some (?ps, 5)"
      by (simp add: unquote_u_def getu4_def hex4_def from_hex_def encode_rune_separators)
    with 2 show thesis using assms ds False
      by (intro that [of bslash "''u2029''"]) (simp_all add: escape_unit_def unquote_unit_u)
  qed
qed

lemma unquote_escape: "utf8_valid s \<Longrightarrow> unquote (escape s) = Some s"
proof (induction s rule: utf8_valid.induct)
  case (2 c cs)
  then obtain n where n: "rune_len (c # cs) = Some n" and v: "utf8_valid (drop (n - 1) cs)"
    by (auto split: option.splits)
  let ?r = "escape (drop (n - 1) cs)"
  obtain d ds where u: "escape_unit c cs = (d # ds, n - 1)" "unquote_unit d (ds @ ?r) = Some (take n (c # cs), length ds)"
    using unquote_escape_unit [OF n] by blast
  have "unquote ?r = Some (drop (n - 1) cs)" by (rule 2(1) [OF n v])
  moreover have "take n (c # cs) @ drop (n - 1) cs = c # cs"
    using rune_len_bounds [OF n] by (cases n) auto
  ultimately show ?case using u unquote_append [OF u(2)] by simp
qed simp

subsection \<open>Scanning what was printed\<close>

lemma run_append: "run st (a @ b) = (case run st a of None \<Rightarrow> None | Some st' \<Rightarrow> run st' b)"
  by (induction a arbitrary: st) (auto split: option.splits)

lemma parse_from_append: "run st a = Some st' \<Longrightarrow> parse_from st (a @ b) = parse_from st' b"
  by (simp add: parse_from_def run_append)

lemma parse_from_Cons: "parse_from st (c # s) = (case step st c of None \<Rightarrow> None | Some st' \<Rightarrow> parse_from st' s)"
  by (simp add: parse_from_def split: option.splits)

definition plain :: "char \<Rightarrow> bool" where
  "plain c \<longleftrightarrow> c \<noteq> bslash \<and> c \<noteq> dquote \<and> 0x20 \<le> ord c"

lemma run_plain:
  "list_all plain u \<Longrightarrow> run (fs, MStr k False raw) u = Some (fs, MStr k False (rev u @ raw))"
  by (induction u arbitrary: raw) (auto simp: plain_def)

lemma run_escaped:
  "list_all plain u \<Longrightarrow> run (fs, MStr k False raw) (bslash # d # u) = Some (fs, MStr k False (rev (bslash # d # u) @ raw))"
  by (simp add: run_plain)

lemma plain_literal [simp]:
  "plain (CHR ''0'')" "plain (CHR ''2'')" "plain (CHR ''8'')" "plain (CHR ''9'')" "plain (CHR ''f'')" "plain (CHR ''d'')"
  by (simp_all add: plain_def bslash_def dquote_def)

lemma plain_hex [simp]: "n < 16 \<Longrightarrow> plain (hex_digit n)"
  using hex_digit_chars by (simp add: plain_def)

lemma escape_unit_shape:
  obtains "list_all plain (fst (escape_unit c cs))"
  | d u where "fst (escape_unit c cs) = bslash # d # u" "list_all plain u"
proof (cases "ord c < 0x80")
  case True
  have "nat (ord c div 16) < 16" "nat (ord c mod 16) < 16" using ord_range [of c] by linarith+
  then have u: "esc_u c = bslash # CHR ''u'' # tl (tl (esc_u c))" "list_all plain (tl (tl (esc_u c)))"
    by (simp_all add: esc_u_def)
  consider "esc_ascii c = esc_u c" | d where "esc_ascii c = [bslash, d]" | "esc_ascii c = [c]" "plain c"
  proof -
    have "esc_ascii c = esc_u c \<or> (\<exists>d. esc_ascii c = [bslash, d]) \<or> esc_ascii c = [c] \<and> plain c"
      by (simp add: esc_ascii_def plain_def)
    then show ?thesis using that by blast
  qed
  then show thesis
    by cases (use that True u in \<open>auto simp: escape_unit_def\<close>)
next
  case False
  show thesis
  proof (cases "rune_len (c # cs)")
    case None
    then show thesis using False that(2) [of "CHR ''u''" "''fffd''"] by (simp add: escape_unit_def)
  next
    case (Some n)
    have "\<forall>x \<in> set (take n (c # cs)). 0x80 \<le> ord x"
      using take_rune_high [OF Some refl] False by auto
    then have "list_all plain (take n (c # cs))"
      by (auto simp: list_all_iff plain_def bslash_def dquote_def)
    moreover have "fst (escape_unit c cs) \<in> {bslash # ''u2028'', bslash # ''u2029'', take n (c # cs)}"
      using False Some by (simp add: escape_unit_def)
    ultimately show thesis
      using that(1) that(2) [of "CHR ''u''" "''2028''"] that(2) [of "CHR ''u''" "''2029''"] by auto
  qed
qed

lemma run_escape: "run (fs, MStr k False raw) (escape s) = Some (fs, MStr k False (rev (escape s) @ raw))"
proof (induction s arbitrary: raw rule: escape.induct)
  case (2 c cs)
  have "run (fs, MStr k False raw) (fst (escape_unit c cs)) = Some (fs, MStr k False (rev (fst (escape_unit c cs)) @ raw))"
    by (cases rule: escape_unit_shape [of c cs]) (simp_all only: run_plain run_escaped)
  then show ?case by (simp add: run_append 2)
qed simp

lemma run_print_string:
  assumes "utf8_valid s" "m = MValue \<or> m = MValueOrEnd"
  shows "run (fs, m) (print_string s) = Some (fs, MDone (JStr s))"
  using assms by (auto simp: print_string_def run_append run_escape unquote_escape begin_value_def ord_special is_space_def
      bslash_def dquote_def)

lemma run_print_key:
  assumes "utf8_valid s" "m = MKey \<or> m = MKeyOrEnd"
  shows "run (FKeys kvs # fs, m) (print_string s) = Some (FObj kvs s # fs, MColon)"
  using assms by (auto simp: print_string_def run_append run_escape unquote_escape is_space_def bslash_def dquote_def)

subsection \<open>Numbers\<close>

lemma valid_exp_chars: "valid_exp s \<Longrightarrow> list_all is_num_char s"
  by (auto simp: valid_exp_def Let_def is_num_char_def list_all_iff split: list.splits if_splits)

lemma digits_chars: "list_all is_num_char (dropWhile is_digit s) \<Longrightarrow> list_all is_num_char s"
  by (induction s) (auto simp: is_num_char_def split: if_splits)

lemma valid_frac_chars: "valid_frac s \<Longrightarrow> list_all is_num_char s"
proof (cases s)
  case (Cons c cs)
  assume v: "valid_frac s"
  show ?thesis
  proof (cases "c = CHR ''.''")
    case True
    with v Cons have "valid_exp (dropWhile is_digit cs)" by (auto simp: valid_frac_def split: list.splits)
    then show ?thesis using True Cons digits_chars valid_exp_chars by (simp add: is_num_char_def)
  next
    case False
    with v Cons show ?thesis using valid_exp_chars [of s] by (simp add: valid_frac_def)
  qed
qed simp

lemma valid_number_chars:
  assumes "valid_number s"
  obtains c cs where "s = c # cs" "is_digit c \<or> c = CHR ''-''" "list_all is_num_char cs"
proof -
  from assms obtain c cs where s: "s = c # cs" by (cases s) (auto simp: valid_number_def)
  have body: "is_digit d \<and> list_all is_num_char ds"
    if "if d = CHR ''0'' then valid_frac ds else is_digit19 d \<and> valid_frac (dropWhile is_digit ds)" for d ds
    using that valid_frac_chars [of ds] digits_chars [OF valid_frac_chars, of ds]
    by (auto simp: is_digit19_def is_digit_def split: if_splits)
  show thesis
  proof (cases "c = CHR ''-''")
    case True
    with assms s obtain d ds where d: "cs = d # ds" by (cases cs) (auto simp: valid_number_def)
    with assms s True body [of d ds] have "is_digit d" "list_all is_num_char ds"
      by (auto simp: valid_number_def)
    with d s True that show thesis by (simp add: is_num_char_def)
  next
    case False
    with assms s body [of c cs] that show thesis by (auto simp: valid_number_def)
  qed
qed

lemma run_num_chars: "list_all is_num_char s \<Longrightarrow> run (fs, MNum ds) s = Some (fs, MNum (rev s @ ds))"
  by (induction s arbitrary: ds) auto

lemma is_digit_not [simp]:
  "is_digit c \<Longrightarrow> c \<noteq> dquote" "is_digit c \<Longrightarrow> c \<noteq> CHR ''[''" "is_digit c \<Longrightarrow> c \<noteq> CHR '']''"
  "is_digit c \<Longrightarrow> c \<noteq> CHR 0x7B" "is_digit c \<Longrightarrow> \<not> is_space c"
  by (auto simp: is_digit_def dquote_def is_space_def)

lemma run_print_num:
  assumes "valid_number s" "m = MValue \<or> m = MValueOrEnd"
  shows "run (fs, m) s = Some (fs, MNum (rev s))"
proof -
  obtain c cs where s: "s = c # cs" "is_digit c \<or> c = CHR ''-''" "list_all is_num_char cs"
    using valid_number_chars [OF assms(1)] by blast
  then have "step (fs, m) c = Some (fs, MNum [c])"
    using assms(2) is_digit_not [of c]
    by (cases "c = CHR ''-''") (auto simp: begin_value_def, auto simp: is_space_def dquote_def)
  then show ?thesis using s run_num_chars by simp
qed

lemma parse_from_num:
  assumes "valid_number s" "rest = [] \<or> \<not> is_num_char (hd rest)"
  shows "parse_from (fs, MNum (rev s)) rest = parse_from (fs, MDone (JNum s)) rest"
proof (cases rest)
  case Nil
  then show ?thesis using assms by (cases fs) (simp_all add: parse_from_def)
next
  case (Cons c cs)
  then show ?thesis using assms by (simp add: parse_from_Cons)
qed

subsection \<open>The round trip\<close>

text \<open>
  A tree that prints to a text the scanner accepts with \<open>n\<close> brackets open: texts and keys are valid
  UTF-8, numbers follow the grammar, and no more than 10000 brackets are open at a time.
\<close>

fun json_ok :: "int \<Rightarrow> json \<Rightarrow> bool" where
  "json_ok n JNull = True"
| "json_ok n (JBool b) = True"
| "json_ok n (JNum s) = valid_number s"
| "json_ok n (JStr s) = utf8_valid s"
| "json_ok n (JArr vs) = (n < 10000 \<and> list_all (\<lambda>v. json_ok (n + 1) v) vs)"
| "json_ok n (JObj kvs) = (n < 10000 \<and> list_all (\<lambda>kv. utf8_valid (fst kv) \<and> json_ok (n + 1) (snd kv)) kvs)"

definition reads_back :: "json \<Rightarrow> bool" where
  "reads_back v \<longleftrightarrow>
     (\<forall>fs m rest. json_ok (int (length fs)) v \<longrightarrow> m = MValue \<or> m = MValueOrEnd \<longrightarrow> rest = [] \<or> \<not> is_num_char (hd rest) \<longrightarrow>
        parse_from (fs, m) (print_json v @ rest) = parse_from (fs, MDone v) rest)"

lemma reads_backD:
  "reads_back v \<Longrightarrow> json_ok (int (length fs)) v \<Longrightarrow> m = MValue \<or> m = MValueOrEnd \<Longrightarrow> rest = [] \<or> \<not> is_num_char (hd rest) \<Longrightarrow>
   parse_from (fs, m) (print_json v @ rest) = parse_from (fs, MDone v) rest"
  unfolding reads_back_def by blast

lemma delimiters [simp]:
  "\<not> is_num_char (CHR '','')" "\<not> is_num_char (CHR '']'')" "\<not> is_num_char (CHR 0x7D)"
  "\<not> is_space (CHR '','')" "\<not> is_space (CHR '']'')" "\<not> is_space (CHR 0x7D)" "\<not> is_space (CHR '':'')"
  by (simp_all add: is_num_char_def is_space_def is_digit_def)

lemma parse_elements:
  assumes "\<forall>v \<in> set vs. reads_back v" "list_all (json_ok (int (length fs) + 1)) vs" "vs \<noteq> []"
    "m = MValue \<or> m = MValueOrEnd"
  shows "parse_from (FArr acc # fs, m) (Join (map print_json vs) '','' @ CHR '']'' # rest) =
    parse_from (fs, MDone (JArr (acc @ vs))) rest"
  using assms
proof (induction vs arbitrary: acc m rule: induct_list012)
  case (2 v)
  then have "parse_from (FArr acc # fs, m) (print_json v @ CHR '']'' # rest) = parse_from (FArr acc # fs, MDone v) (CHR '']'' # rest)"
    by (intro reads_backD) (auto simp: add.commute)
  then show ?case by (simp add: parse_from_Cons)
next
  case (3 v v' vs)
  let ?tail = "Join (map print_json (v' # vs)) '','' @ CHR '']'' # rest"
  have "parse_from (FArr acc # fs, m) (print_json v @ CHR '','' # ?tail) = parse_from (FArr acc # fs, MDone v) (CHR '','' # ?tail)"
    using 3 by (intro reads_backD) (auto simp: add.commute)
  also have "\<dots> = parse_from (FArr (acc @ [v]) # fs, MValue) ?tail"
    by (simp add: parse_from_Cons)
  also have "\<dots> = parse_from (fs, MDone (JArr ((acc @ [v]) @ v' # vs))) rest"
    using 3(3-6) by (intro 3(2)) auto
  finally show ?case by simp
qed simp

definition print_member :: "string \<times> json \<Rightarrow> string" where
  "print_member kv = print_string (fst kv) @ '':'' @ print_json (snd kv)"

lemma print_obj: "print_json (JObj kvs) = CHR 0x7B # Join (map print_member kvs) '','' @ [CHR 0x7D]"
proof -
  have "print_member = (\<lambda>kv. print_string (fst kv) @ '':'' @ print_json (snd kv))"
    by (rule ext) (simp add: print_member_def)
  then show ?thesis by simp
qed

lemma parse_member:
  assumes "reads_back v" "utf8_valid k" "json_ok (int (length fs) + 1) v" "m = MKey \<or> m = MKeyOrEnd"
    "rest = [] \<or> \<not> is_num_char (hd rest)"
  shows "parse_from (FKeys acc # fs, m) (print_member (k, v) @ rest) = parse_from (FObj acc k # fs, MDone v) rest"
proof -
  have "parse_from (FKeys acc # fs, m) (print_member (k, v) @ rest) =
      parse_from (FObj acc k # fs, MColon) (CHR '':'' # print_json v @ rest)"
    using parse_from_append [OF run_print_key [OF assms(2,4)]] by (simp add: print_member_def)
  also have "\<dots> = parse_from (FObj acc k # fs, MValue) (print_json v @ rest)"
    by (simp add: parse_from_Cons)
  also have "\<dots> = parse_from (FObj acc k # fs, MDone v) rest"
    using assms by (intro reads_backD) (auto simp: add.commute)
  finally show ?thesis .
qed

lemma parse_members:
  assumes "\<forall>kv \<in> set kvs. reads_back (snd kv)" "kvs \<noteq> []" "m = MKey \<or> m = MKeyOrEnd"
    "list_all (\<lambda>kv. utf8_valid (fst kv) \<and> json_ok (int (length fs) + 1) (snd kv)) kvs"
  shows "parse_from (FKeys acc # fs, m) (Join (map print_member kvs) '','' @ CHR 0x7D # rest) =
    parse_from (fs, MDone (JObj (acc @ kvs))) rest"
  using assms
proof (induction kvs arbitrary: acc m rule: induct_list012)
  case (2 kv)
  have "parse_from (FKeys acc # fs, m) (print_member (fst kv, snd kv) @ CHR 0x7D # rest) =
      parse_from (FObj acc (fst kv) # fs, MDone (snd kv)) (CHR 0x7D # rest)"
    using 2 by (intro parse_member) auto
  then show ?case by (simp add: parse_from_Cons)
next
  case (3 kv kv' kvs)
  let ?tail = "Join (map print_member (kv' # kvs)) '','' @ CHR 0x7D # rest"
  have "parse_from (FKeys acc # fs, m) (print_member (fst kv, snd kv) @ CHR '','' # ?tail) =
      parse_from (FObj acc (fst kv) # fs, MDone (snd kv)) (CHR '','' # ?tail)"
    using 3 by (intro parse_member) auto
  also have "\<dots> = parse_from (FKeys (acc @ [kv]) # fs, MKey) ?tail"
    by (simp add: parse_from_Cons)
  also have "\<dots> = parse_from (fs, MDone (JObj ((acc @ [kv]) @ kv' # kvs))) rest"
    using 3(3-6) by (intro 3(2)) auto
  finally show ?case by simp
qed simp

lemma reads_back_literal:
  assumes "run (fs, m) s = Some (fs, MDone v)"
  shows "parse_from (fs, m) (s @ rest) = parse_from (fs, MDone v) rest"
  by (rule parse_from_append [OF assms])

lemma begin_value_open [simp]:
  "begin_value fs (CHR ''['') = push (FArr []) fs MValueOrEnd"
  "begin_value fs (CHR 0x7B) = push (FKeys []) fs MKeyOrEnd"
  by (simp_all add: begin_value_def dquote_def)

lemma not_space [simp]:
  "\<not> is_space (CHR ''['')" "\<not> is_space (CHR 0x7B)" "\<not> is_space (CHR ''n'')" "\<not> is_space (CHR ''t'')" "\<not> is_space (CHR ''f'')"
  by (simp_all add: is_space_def)

lemma reads_back_all: "reads_back v"
proof (induction v)
  case JNull
  show ?case by (auto simp: reads_back_def parse_from_Cons begin_value_def dquote_def is_digit_def)
next
  case (JBool b)
  show ?case by (auto simp: reads_back_def parse_from_Cons begin_value_def dquote_def is_digit_def)
next
  case (JNum s)
  show ?case
    unfolding reads_back_def using parse_from_append [OF run_print_num] parse_from_num by auto
next
  case (JStr s)
  show ?case
    unfolding reads_back_def using parse_from_append [OF run_print_string] by auto
next
  case (JArr vs)
  show ?case
  proof (cases "vs = []")
    case True
    then show ?thesis by (auto simp: reads_back_def parse_from_Cons push_def)
  next
    case False
    then show ?thesis
      using JArr parse_elements [of vs _ MValueOrEnd "[]"] by (auto simp: reads_back_def parse_from_Cons push_def)
  qed
next
  case (JObj kvs)
  then have IH: "\<forall>kv \<in> set kvs. reads_back (snd kv)" by auto
  show ?case
  proof (cases "kvs = []")
    case True
    then show ?thesis by (auto simp: reads_back_def parse_from_Cons push_def)
  next
    case False
    show ?thesis
      using False IH parse_members [of kvs MKeyOrEnd _ "[]"]
      by (auto simp: reads_back_def parse_from_Cons push_def print_obj simp del: print_json.simps(6))
  qed
qed

lemma parse_print: "json_ok 0 v \<Longrightarrow> parse_json (print_json v) = Some v"
  using reads_backD [OF reads_back_all, of "[]" v MValue "[]"] by (simp add: parse_json_def, simp add: parse_from_def)

subsection \<open>Printed values have no line breaks\<close>

fun nums_free :: "char \<Rightarrow> json \<Rightarrow> bool" where
  "nums_free c (JNum s) = (c \<notin> set s)"
| "nums_free c (JArr vs) = list_all (nums_free c) vs"
| "nums_free c (JObj kvs) = list_all (\<lambda>kv. nums_free c (snd kv)) kvs"
| "nums_free c _ = True"

lemma set_Join: "set (Join xs sep) \<subseteq> \<Union> (set ` set xs) \<union> set sep"
  by (induction xs sep rule: Join.induct) auto

lemma plain_not_newline: "list_all plain u \<Longrightarrow> CHR 0x0A \<notin> set u"
  by (auto simp: list_all_iff plain_def)

lemma esc_ascii_no_newline: "CHR 0x0A \<notin> set (esc_ascii c)"
proof -
  have "nat (ord c div 16) < 16" "nat (ord c mod 16) < 16" using ord_range [of c] by linarith+
  then have "CHR 0x0A \<notin> set (esc_u c)"
    using plain_not_newline [of "[hex_digit (nat (ord c div 16)), hex_digit (nat (ord c mod 16))]"]
    by (auto simp: esc_u_def bslash_def)
  then show ?thesis by (auto simp: esc_ascii_def bslash_def dquote_def)
qed

lemma escape_no_newline: "CHR 0x0A \<notin> set (escape s)"
proof (induction s rule: escape.induct)
  case (2 c cs)
  have "CHR 0x0A \<notin> set (fst (escape_unit c cs))"
  proof (cases "ord c < 0x80")
    case False
    have "CHR 0x0A \<notin> set (take n (c # cs))" if "rune_len (c # cs) = Some n" for n
      using take_rune_high [OF that refl, of "CHR 0x0A"] False by auto
    with False show ?thesis by (auto simp: escape_unit_def bslash_def split: option.splits if_splits)
  qed (simp add: escape_unit_def esc_ascii_no_newline)
  with 2 show ?case by simp
qed simp

lemma print_string_no_newline: "CHR 0x0A \<notin> set (print_string s)"
  using escape_no_newline by (simp add: print_string_def dquote_def)

lemma print_json_no_newline: "nums_free (CHR 0x0A) v \<Longrightarrow> CHR 0x0A \<notin> set (print_json v)"
proof (induction v)
  case (JArr vs)
  then have "CHR 0x0A \<notin> \<Union> (set ` set (map print_json vs)) \<union> set '',''" by (auto simp: list_all_iff)
  then show ?case using set_Join [of "map print_json vs" "'',''"] by auto
next
  case (JObj kvs)
  then have "CHR 0x0A \<notin> \<Union> (set ` set (map print_member kvs)) \<union> set '',''"
    using print_string_no_newline by (fastforce simp: list_all_iff print_member_def)
  then show ?case using set_Join [of "map print_member kvs" "'',''"] by (auto simp: print_obj simp del: print_json.simps(6))
qed (auto simp: print_string_no_newline)

lemma collect_map_id: "collect (map Inr xs) = Inr xs"
  by (induction xs) auto

lemma collect_Inr: "collect rs = Inr xs \<longleftrightarrow> rs = map Inr xs"
proof
  show "collect rs = Inr xs \<Longrightarrow> rs = map Inr xs"
    by (induction rs arbitrary: xs) (auto split: sum.splits)
qed (simp add: collect_map_id)

lemma collect_map_Inr [simp]: "collect (map (\<lambda>x. Inr (f x)) xs) = Inr (map f xs)"
  by (simp add: collect_Inr)

lemma map_sum_id_Inr: "map_sum id f r = Inr y \<longleftrightarrow> (\<exists>x. r = Inr x \<and> y = f x)"
  by (cases r) auto

lemma num_char_not_newline: "\<not> num_char (CHR 0x0A)"
  by (simp add: num_char_def is_digit_def)

lemma valid_number_no_newline: "valid_number s \<Longrightarrow> CHR 0x0A \<notin> set s"
  by (erule valid_number_chars) (auto simp: list_all_iff is_num_char_def is_digit_def)

lemma json_of_no_newline: "json_of v = Inr j \<Longrightarrow> nums_free (CHR 0x0A) j"
proof (induction v arbitrary: j)
  case (VFloat f)
  then show ?case using f64_json_chars [of f] num_char_not_newline by (auto split: option.splits)
next
  case (VNumber s)
  then show ?case using valid_number_no_newline by (auto split: if_splits)
next
  case (VSlice vs)
  then obtain js where js: "j = JArr js" "map json_of vs = map Inr js" by (auto simp: map_sum_id_Inr collect_Inr)
  have "nums_free (CHR 0x0A) x" if "x \<in> set js" for x
  proof -
    from that js(2) obtain v where "v \<in> set vs" "json_of v = Inr x" by (metis (no_types) image_eqI imageE list.set_map)
    then show ?thesis using VSlice.IH by blast
  qed
  then show ?case using js by (simp add: list_all_iff)
next
  case (VMap kvs)
  then obtain js where js: "j = JObj js"
    "map (\<lambda>kv. map_sum id (Pair (fst kv)) (json_of (snd kv))) (sort_key fst kvs) = map Inr js"
    by (auto simp: map_sum_id_Inr collect_Inr)
  have "nums_free (CHR 0x0A) (snd x)" if "x \<in> set js" for x
  proof -
    from that have "Inr x \<in> set (map Inr js :: (json_error + _) list)" by simp
    then obtain kv where kv: "kv \<in> set kvs" "map_sum id (Pair (fst kv)) (json_of (snd kv)) = Inr x"
      unfolding js(2) [symmetric] by auto
    moreover have "snd kv \<in> Basic_BNFs.snds kv" by (cases kv) simp
    ultimately show ?thesis using VMap.IH [of kv "snd kv" "snd x"] by (auto simp: map_sum_id_Inr)
  qed
  then show ?case using js by (simp add: list_all_iff)
qed auto

lemma json_of_ne: "json_of v = Inr j \<Longrightarrow> print_json j \<noteq> []"
  using f64_json_chars
  by (cases v) (auto simp: map_sum_id_Inr print_string_def split: option.splits if_splits)

text \<open>What the log relies on: the text of a value is never empty and has no line break.\<close>

lemma Marshal_text: "Marshal v = Inr s \<Longrightarrow> s \<noteq> [] \<and> CHR 0x0A \<notin> set s"
  using json_of_no_newline json_of_ne print_json_no_newline by (fastforce simp: Marshal_def map_sum_id_Inr)

lemma dropWhile_all: "list_all P xs \<Longrightarrow> dropWhile P xs = []"
  by (simp add: list_all_iff dropWhile_eq_Nil_conv)

lemma dec_digits_lead: "0 < n \<Longrightarrow> hd (dec_digits n) \<noteq> CHR ''0''"
proof (induction n rule: dec_digits.induct)
  case (1 n)
  show ?case
  proof (cases "n < 10")
    case True
    have "digit_char n \<noteq> CHR ''0''"
    proof
      assume "digit_char n = CHR ''0''"
      then have "digit_val (digit_char n) = digit_val (CHR ''0'')" by simp
      then show False using True 1(2) by (simp add: digit_val_def [of "CHR ''0''"])
    qed
    then show ?thesis using True by (subst dec_digits.simps) simp
  next
    case False
    then show ?thesis using 1 by (subst dec_digits.simps) simp
  qed
qed

lemma valid_number_fmt_d [simp]: "valid_number (fmt_d i)"
proof -
  have pos: "case dec_digits n of [] \<Rightarrow> False | c # cs \<Rightarrow>
      if c = CHR ''0'' then valid_frac cs else is_digit19 c \<and> valid_frac (dropWhile is_digit cs)" if n: "0 \<le> n" for n
  proof (cases "n = 0")
    case True
    have "dec_digits 0 = ''0''" by code_simp
    then show ?thesis using True by (simp add: valid_frac_def)
  next
    case False
    obtain c cs where c: "dec_digits n = c # cs" by (cases "dec_digits n") auto
    then have "c \<noteq> CHR ''0''" "is_digit c" "list_all is_digit cs"
      using dec_digits_lead [of n] dec_digits_digits [of n] n False by auto
    then show ?thesis using c by (simp add: is_digit19_def dropWhile_all valid_frac_def)
  qed
  show ?thesis
  proof (cases "i < 0")
    case True
    then show ?thesis using pos [of "- i"] by (simp add: valid_number_def fmt_d_def)
  next
    case False
    obtain c cs where c: "dec_digits i = c # cs" by (cases "dec_digits i") auto
    then have "c \<noteq> CHR ''-''" using dec_digits_digits [of i] False by (auto simp: is_digit_def)
    then show ?thesis using c False pos [of i] by (simp add: valid_number_def fmt_d_def)
  qed
qed

end
