(* ===== verification/Storage.thy ===== *)
theory Storage
  imports Wal Go_Json
begin

text \<open>
  The storage layer, \<open>internal/storage/storage.go\<close>: the catalog of tables, and rows as strips of
  blocks. The state of a \<open>Storage\<close> is its log, the map from table names to table metadata and two
  counters. The code hands out pointers to metadata and updates the row count behind them, so the
  metadata live in a heap, \<open>metas\<close>, and a pointer is an index into it. Every operation runs against any
  implementation \<open>h\<close> of the storage interface and threads its state \<open>w\<close>.

  A scan hands its rows to a channel; here it returns the list of what it sends. The argument \<open>halt\<close>
  says at which rows the scan finds its context cancelled.
\<close>

definition catalogY :: int where "catalogY = 10"

definition tableY :: int where "tableY = 64"

definition tableZSpacing :: int where "tableZSpacing = 10000"

definition systemTxID :: int where "systemTxID = 1"

definition maxCatalogZ :: int where "maxCatalogZ = 1024"

type_synonym Row = "goval gomap"

record ColumnDef =
  colName :: string
  colOrdinal :: int
  colType :: string

record TableMeta =
  ID :: int
  tableName :: string
  YLevel :: int
  ZStart :: int
  StripWidth :: int
  Columns :: "ColumnDef list"
  RowCount :: int

record Storage =
  wal :: WAL
  metas :: "TableMeta list"
  tables :: "nat gomap"
  nextCatalogZ :: int
  nextTableID :: int

record catalogEntry =
  entTableID :: int
  entName :: string
  entYLevel :: int
  entColumns :: "ColumnDef list"

datatype strip_error = StripTooShort nat | DecodeXmin codec_error | DecodeXmax codec_error

datatype catalog_error = ParseCatalogColumns json_error | InvalidCatalogRow

datatype 'e storage_error =
    LoadCatalogRead int 'e
  | TableExists string
  | MarshalColumns json_error
  | SerializeCatalogRow json_error
  | WriteCatalogBlock 'e
  | TableNotFound string
  | ForceloadChunk 'e
  | MarshalValues json_error
  | WalAppend "'e wal_error"
  | BatchWriteRow 'e
  | WalCommit "'e wal_error"
  | ScanForceload int int 'e
  | ScanBatchRead int 'e
  | ReadXmax0 'e
  | ReadXmax1 'e
  | NoRowAt BlockPos
  | EmptyXmaxAt BlockPos
  | WriteDeleteMarker 'e

datatype 'e ScanResult = ScanRow Row | ScanErr "'e storage_error"

definition NewStorage :: "WAL \<Rightarrow> Storage" where
  "NewStorage wl = \<lparr>wal = wl, metas = [], tables = [], nextCatalogZ = 0, nextTableID = 1\<rparr>"

subsection \<open>Dynamic values\<close>

text \<open>\<open>v.Int64()\<close> of a \<open>json.Number\<close> with the error dropped.\<close>

definition number_int64 :: "string \<Rightarrow> int" where
  "number_int64 s = fst (ParseInt s)"

definition row_get :: "Row \<Rightarrow> string \<Rightarrow> goval" where
  "row_get row key = (case map_of row key of None \<Rightarrow> VNil | Some v \<Rightarrow> v)"

definition rowInt64 :: "Row \<Rightarrow> string \<Rightarrow> int" where
  "rowInt64 row key =
     (case map_of row key of
        None \<Rightarrow> 0
      | Some v \<Rightarrow>
          (case v of
             VInt64 i \<Rightarrow> i
           | VInt32 i \<Rightarrow> i
           | VInt i \<Rightarrow> i
           | VFloat f \<Rightarrow> int64_of_f64 f
           | VNumber s \<Rightarrow> number_int64 s
           | _ \<Rightarrow> 0))"

fun rowInt :: "goval \<Rightarrow> int" where
  "rowInt (VFloat f) = int64_of_f64 f"
| "rowInt (VInt i) = i"
| "rowInt (VInt64 i) = i"
| "rowInt (VInt32 i) = i"
| "rowInt (VNumber s) = number_int64 s"
| "rowInt _ = 0"

fun rowStr :: "goval \<Rightarrow> string" where
  "rowStr (VString s) = s"
| "rowStr (VFloat f) = f64_fmt_v f"
| "rowStr _ = []"

definition col_key :: "int \<Rightarrow> string" where
  "col_key ordinal = ''c'' @ fmt_d ordinal"

definition getColumnValue :: "goval gomap \<Rightarrow> ColumnDef \<Rightarrow> goval" where
  "getColumnValue values col =
     (case map_of values (colName col) of
        Some v \<Rightarrow> v
      | None \<Rightarrow> row_get values (col_key (colOrdinal col)))"

fun toInt32 :: "goval \<Rightarrow> int" where
  "toInt32 (VInt32 i) = i"
| "toInt32 (VInt i) = wrap32 i"
| "toInt32 (VInt64 i) = wrap32 i"
| "toInt32 (VFloat f) = int32_of_f64 f"
| "toInt32 (VNumber s) = wrap32 (number_int64 s)"
| "toInt32 _ = 0"

fun toInt64 :: "goval \<Rightarrow> int" where
  "toInt64 (VInt64 i) = i"
| "toInt64 (VInt i) = i"
| "toInt64 (VInt32 i) = i"
| "toInt64 (VFloat f) = int64_of_f64 f"
| "toInt64 (VNumber s) = number_int64 s"
| "toInt64 _ = 0"

fun toBool :: "goval \<Rightarrow> bool" where
  "toBool (VBool b) = b"
| "toBool (VString s) = (s = ''true'' \<or> s = ''1'')"
| "toBool (VFloat f) = (\<not> f64_eq f f64_zero)"
| "toBool (VInt i) = (i \<noteq> 0)"
| "toBool (VInt64 i) = (i \<noteq> 0)"
| "toBool (VNumber s) = (number_int64 s \<noteq> 0)"
| "toBool _ = False"

fun toString :: "goval \<Rightarrow> string" where
  "toString (VString s) = s"
| "toString (VFloat f) = f64_fmt_v f"
| "toString (VInt i) = fmt_d i"
| "toString (VInt64 i) = fmt_d i"
| "toString (VBool b) = (if b then ''true'' else ''false'')"
| "toString _ = []"

subsection \<open>Strips\<close>

definition nul :: string where
  "nul = [CHR 0x00]"

definition encodeSignData :: "string list \<Rightarrow> bytes" where
  "encodeSignData lines = bytes_of_string (lines ! 0 @ nul @ lines ! 1 @ nul @ lines ! 2 @ nul @ lines ! 3)"

definition decodeSignData :: "bytes \<Rightarrow> string list" where
  "decodeSignData data = (let parts = SplitN (string_of_bytes data) nul 4 in take 4 (parts @ replicate 4 []))"

fun stripWidth_loop :: "ColumnDef list \<Rightarrow> int \<Rightarrow> int" where
  "stripWidth_loop [] w = w"
| "stripWidth_loop (c # cs) w =
     (if colType c = ''INT'' \<or> colType c = ''BOOLEAN'' then stripWidth_loop cs (w + 1)
      else if colType c = ''BIGINT'' then stripWidth_loop cs (w + 2)
      else if colType c = ''TEXT'' then stripWidth_loop cs (w + 1)
      else stripWidth_loop cs w)"

definition stripWidth :: "ColumnDef list \<Rightarrow> int" where
  "stripWidth columns = stripWidth_loop columns 4"

fun isEmptyStrip :: "bytes option list \<Rightarrow> bool" where
  "isEmptyStrip [] = True"
| "isEmptyStrip (d # ds) = (if d \<noteq> None \<and> slice_len d > 0 then False else isEmptyStrip ds)"

text \<open>The number of banners before the signs.\<close>

fun numBanners :: "ColumnDef list \<Rightarrow> nat" where
  "numBanners [] = 0"
| "numBanners (c # cs) =
     (if colType c = ''INT'' \<or> colType c = ''BOOLEAN'' then 1 + numBanners cs
      else if colType c = ''BIGINT'' then 2 + numBanners cs
      else numBanners cs)"

definition set_decoded :: "string \<Rightarrow> ('a \<Rightarrow> goval) \<Rightarrow> codec_error + 'a \<Rightarrow> Row \<Rightarrow> Row" where
  "set_decoded key f r row = (case r of Inl _ \<Rightarrow> row | Inr v \<Rightarrow> AList.update key (f v) row)"

text \<open>The loop over the columns; \<open>nb\<close> is the number of banners, \<open>bi\<close> and \<open>si\<close> the banner and the sign reached.\<close>

fun decode_columns :: "bytes option list \<Rightarrow> nat \<Rightarrow> ColumnDef list \<Rightarrow> nat \<Rightarrow> nat \<Rightarrow> Row \<Rightarrow> Row" where
  "decode_columns signData nb [] bi si row = row"
| "decode_columns signData nb (col # cols) bi si row =
     (let key = col_key (colOrdinal col) in
      if colType col = ''INT'' then
        decode_columns signData nb cols (bi + 1) si
          (if bi < length signData \<and> slice_len (signData ! bi) > 0
           then set_decoded key VInt32 (DecodeInt32 (slice_string (signData ! bi))) row else row)
      else if colType col = ''BIGINT'' then
        decode_columns signData nb cols (bi + 2) si
          (if bi + 1 < length signData \<and> slice_len (signData ! bi) > 0
           then set_decoded key VInt64 (DecodeInt64 (slice_string (signData ! bi)) (slice_string (signData ! (bi + 1)))) row
           else row)
      else if colType col = ''BOOLEAN'' then
        decode_columns signData nb cols (bi + 1) si
          (if bi < length signData \<and> slice_len (signData ! bi) > 0
           then set_decoded key VBool (DecodeBool (slice_string (signData ! bi))) row else row)
      else if colType col = ''TEXT'' then
        decode_columns signData nb cols bi (si + 1)
          (let signStart = nb + si in
           if signStart < length signData \<and> slice_len (signData ! signStart) > 0
           then AList.update key (VString (DecodeText (decodeSignData (slice_bytes (signData ! signStart))))) row
           else row)
      else decode_columns signData nb cols bi si row)"

definition decodeStrip :: "bytes option list \<Rightarrow> TableMeta \<Rightarrow> strip_error + Row" where
  "decodeStrip data table =
     (if length data < 4 then Inl (StripTooShort (length data))
      else
        (case DecodeInt64 (slice_string (data ! 0)) (slice_string (data ! 1)) of
           Inl err \<Rightarrow> Inl (DecodeXmin err)
         | Inr xmin \<Rightarrow>
             (let row = [(''xmin'', VInt64 xmin)];
                  xmax =
                    (if IsNull (slice_string (data ! 2)) (slice_string (data ! 3)) then Inr VNil
                     else map_sum id VInt64 (DecodeInt64 (slice_string (data ! 2)) (slice_string (data ! 3))))
              in case xmax of
                   Inl err \<Rightarrow> Inl (DecodeXmax err)
                 | Inr v \<Rightarrow>
                     Inr (decode_columns (drop 4 data) (numBanners (Columns table)) (Columns table) 0 0
                            (AList.update ''xmax'' v row)))))"

definition isVisible :: "Row \<Rightarrow> int \<Rightarrow> bool" where
  "isVisible row txid =
     (let xmin = rowInt64 row ''xmin'' in
      if xmin > txid then False
      else if row_get row ''xmax'' = VNil then True
      else (let xmax = rowInt64 row ''xmax'' in xmax > txid))"

subsection \<open>The catalog\<close>

text \<open>\<open>json.Marshal\<close> of a \<open>[]ColumnDef\<close> that is not nil: the fields in their order.\<close>

definition column_json :: "ColumnDef \<Rightarrow> json" where
  "column_json c =
     JObj [(''Name'', JStr (colName c)), (''Ordinal'', JNum (fmt_d (colOrdinal c))), (''Type'', JStr (colType c))]"

definition Marshal_columns :: "ColumnDef list \<Rightarrow> json_error + string" where
  "Marshal_columns cols = Inr (print_json (JArr (map column_json cols)))"

text \<open>
  \<open>json.Unmarshal\<close> to a \<open>[]ColumnDef\<close>. A key selects the field it equals up to case; other keys are
  skipped, null leaves a field as it is, and a value of the wrong type is an error.
\<close>

definition set_field :: "string \<Rightarrow> json \<Rightarrow> ColumnDef \<Rightarrow> json_error + ColumnDef" where
  "set_field k v c =
     (if v = JNull then Inr c
      else if map lower k = ''name'' then (case v of JStr s \<Rightarrow> Inr (c\<lparr>colName := s\<rparr>) | _ \<Rightarrow> Inl JTypeError)
      else if map lower k = ''ordinal'' then
        (case v of
           JNum s \<Rightarrow> (case parse_int s of Inl _ \<Rightarrow> Inl JTypeError | Inr i \<Rightarrow> Inr (c\<lparr>colOrdinal := i\<rparr>))
         | _ \<Rightarrow> Inl JTypeError)
      else if map lower k = ''type'' then (case v of JStr s \<Rightarrow> Inr (c\<lparr>colType := s\<rparr>) | _ \<Rightarrow> Inl JTypeError)
      else Inr c)"

fun set_fields :: "(string \<times> json) list \<Rightarrow> ColumnDef \<Rightarrow> json_error + ColumnDef" where
  "set_fields [] c = Inr c"
| "set_fields ((k, v) # kvs) c = (case set_field k v c of Inl e \<Rightarrow> Inl e | Inr c' \<Rightarrow> set_fields kvs c')"

definition empty_column :: ColumnDef where
  "empty_column = \<lparr>colName = [], colOrdinal = 0, colType = []\<rparr>"

fun column_of :: "json \<Rightarrow> json_error + ColumnDef" where
  "column_of (JObj kvs) = set_fields kvs empty_column"
| "column_of JNull = Inr empty_column"
| "column_of _ = Inl JTypeError"

fun columns_of :: "json \<Rightarrow> json_error + ColumnDef list" where
  "columns_of (JArr vs) = collect (map column_of vs)"
| "columns_of JNull = Inr []"
| "columns_of _ = Inl JTypeError"

definition Unmarshal_columns :: "string \<Rightarrow> json_error + ColumnDef list" where
  "Unmarshal_columns s = (case parse_json s of None \<Rightarrow> Inl JSyntaxError | Some j \<Rightarrow> columns_of j)"

definition serializeRow :: "Row \<Rightarrow> json_error + bytes" where
  "serializeRow row = map_sum id bytes_of_string (Marshal (VMap row))"

text \<open>Reading a row: null leaves a nil map, which has no keys.\<close>

definition deserializeRow :: "bytes \<Rightarrow> json_error + Row" where
  "deserializeRow data =
     (case parse_json (string_of_bytes data) of
        None \<Rightarrow> Inl JSyntaxError
      | Some j \<Rightarrow>
          (case j of
             JNull \<Rightarrow> Inr []
           | JObj kvs \<Rightarrow>
               (case val_of (JObj kvs) of Inr (VMap m) \<Rightarrow> Inr m | _ \<Rightarrow> Inl JTypeError)
           | _ \<Rightarrow> Inl JTypeError))"

definition parseCatalogRow :: "Row \<Rightarrow> catalog_error + catalogEntry" where
  "parseCatalogRow row =
     (let entry = \<lparr>entTableID = 0, entName = [], entYLevel = 0, entColumns = []\<rparr>;
          entry = (case map_of row ''c0'' of Some v \<Rightarrow> entry\<lparr>entTableID := rowInt v\<rparr> | None \<Rightarrow> entry);
          entry = (case map_of row ''c1'' of Some v \<Rightarrow> entry\<lparr>entName := rowStr v\<rparr> | None \<Rightarrow> entry);
          entry = (case map_of row ''c2'' of Some v \<Rightarrow> entry\<lparr>entYLevel := rowInt v\<rparr> | None \<Rightarrow> entry);
          cols =
            (case map_of row ''c3'' of
               Some v \<Rightarrow>
                 (let colsStr = rowStr v
                  in if colsStr \<noteq> [] then Unmarshal_columns colsStr else Inr (entColumns entry))
             | None \<Rightarrow> Inr (entColumns entry))
      in case cols of
           Inl err \<Rightarrow> Inl (ParseCatalogColumns err)
         | Inr cs \<Rightarrow>
             (let entry = entry\<lparr>entColumns := cs\<rparr>
              in if entName entry = [] then Inl InvalidCatalogRow else Inr entry))"

text \<open>The fields common to the two places that build a \<open>TableMeta\<close>; the row count is zero in both.\<close>

definition new_meta :: "int \<Rightarrow> string \<Rightarrow> ColumnDef list \<Rightarrow> TableMeta" where
  "new_meta tid name cols =
     \<lparr>ID = tid, tableName = name, YLevel = tableY, ZStart = wrap64 (wrap64 (tid - 1) * tableZSpacing),
      StripWidth = stripWidth cols, Columns = cols, RowCount = 0\<rparr>"

text \<open>\<open>s.tables[name] = &TableMeta{...}\<close>: a new cell of the heap.\<close>

definition set_table :: "string \<Rightarrow> TableMeta \<Rightarrow> Storage \<Rightarrow> Storage" where
  "set_table name meta s = s\<lparr>metas := metas s @ [meta], tables := AList.update name (length (metas s)) (tables s)\<rparr>"

text \<open>The loop over the catalog blocks, with the two running maxima.\<close>

function load_loop ::
  "('w, 'e) hal \<Rightarrow> int \<Rightarrow> int \<Rightarrow> int \<Rightarrow> Storage \<Rightarrow> 'w \<Rightarrow> ('e storage_error + int \<times> int) \<times> Storage \<times> 'w" where
  "load_loop h z maxTableID lastZ s w =
     (if z < maxCatalogZ then
        (case ReadBlock h 0 catalogY z w of
           (Inl err, w) \<Rightarrow> (Inl (LoadCatalogRead z err), s, w)
         | (Inr data, w) \<Rightarrow>
             if slice_len data = 0 then (Inr (maxTableID, z), s, w)
             else
               (case deserializeRow (slice_bytes data) of
                  Inl _ \<Rightarrow> load_loop h (z + 1) maxTableID lastZ s w
                | Inr row \<Rightarrow>
                    (case parseCatalogRow row of
                       Inl _ \<Rightarrow> load_loop h (z + 1) maxTableID lastZ s w
                     | Inr entry \<Rightarrow>
                         (let meta = new_meta (entTableID entry) (entName entry) (entColumns entry)
                          in load_loop h (z + 1)
                               (if entTableID entry > maxTableID then entTableID entry else maxTableID)
                               (if z + 1 > lastZ then z + 1 else lastZ)
                               (set_table (entName entry) meta s) w))))
      else (Inr (maxTableID, lastZ), s, w))"
  by pat_completeness auto
termination
  by (relation "measure (\<lambda>(h, z, _). nat (maxCatalogZ - z))") auto

declare load_loop.simps [simp del]

definition LoadCatalog :: "('w, 'e) hal \<Rightarrow> Storage \<Rightarrow> 'w \<Rightarrow> ('e storage_error + unit) \<times> Storage \<times> 'w" where
  "LoadCatalog h s w =
     (case load_loop h 0 0 0 s w of
        (Inl err, s, w) \<Rightarrow> (Inl err, s, w)
      | (Inr (maxTableID, lastZ), s, w) \<Rightarrow>
          (let s = s\<lparr>nextCatalogZ := lastZ\<rparr>;
               s = (if maxTableID \<ge> nextTableID s then s\<lparr>nextTableID := wrap64 (maxTableID + 1)\<rparr> else s)
           in (Inr (), s, w)))"

definition catalog_row :: "int \<Rightarrow> string \<Rightarrow> string \<Rightarrow> Row" where
  "catalog_row tid name colsJSON =
     [(''xmin'', VInt systemTxID), (''xmax'', VNil), (''c0'', VInt tid), (''c1'', VString name),
      (''c2'', VInt tableY), (''c3'', VString colsJSON)]"

definition CreateTable ::
  "('w, 'e) hal \<Rightarrow> string \<Rightarrow> ColumnDef list \<Rightarrow> Storage \<Rightarrow> 'w \<Rightarrow> ('e storage_error + unit) \<times> Storage \<times> 'w" where
  "CreateTable h name cols s w =
     (if map_of (tables s) name \<noteq> None then (Inl (TableExists name), s, w)
      else
        (let tid = nextTableID s in
         case Marshal_columns cols of
           Inl err \<Rightarrow> (Inl (MarshalColumns err), s, w)
         | Inr colsJSON \<Rightarrow>
             (let catalogRow = catalog_row tid name colsJSON;
                  catalogZ = nextCatalogZ s;
                  s = s\<lparr>nextCatalogZ := wrap64 (nextCatalogZ s + 1)\<rparr>
              in case serializeRow catalogRow of
                   Inl err \<Rightarrow> (Inl (SerializeCatalogRow err), s, w)
                 | Inr rowJSON \<Rightarrow>
                     (case WriteBlock h 0 catalogY catalogZ BlockTypeBarrel rowJSON w of
                        (Inl err, w) \<Rightarrow> (Inl (WriteCatalogBlock err), s, w)
                      | (Inr _, w) \<Rightarrow>
                          (let s = set_table name (new_meta tid name cols) s;
                               s = s\<lparr>nextTableID := wrap64 (nextTableID s + 1)\<rparr>
                           in (Inr (), s, w))))))"

definition GetTable :: "string \<Rightarrow> Storage \<Rightarrow> 'e storage_error + nat" where
  "GetTable name s = (case map_of (tables s) name of None \<Rightarrow> Inl (TableNotFound name) | Some t \<Rightarrow> Inr t)"

subsection \<open>Rows\<close>

definition banner_write :: "int \<Rightarrow> int \<Rightarrow> int \<Rightarrow> string \<Rightarrow> BlockWrite" where
  "banner_write x y z enc = mk_write x y z BlockTypeBanner (bytes_of_string enc)"

text \<open>The two loops of \<open>InsertRow\<close> over the columns, with the offset reached.\<close>

fun banner_writes :: "ColumnDef list \<Rightarrow> goval gomap \<Rightarrow> int \<Rightarrow> int \<Rightarrow> int \<Rightarrow> BlockWrite list \<times> int" where
  "banner_writes [] values y z offset = ([], offset)"
| "banner_writes (col # cols) values y z offset =
     (let val = getColumnValue values col in
      if colType col = ''INT'' then
        (let (ws, off) = banner_writes cols values y z (offset + 1)
         in (banner_write offset y z (EncodeInt32 (toInt32 val)) # ws, off))
      else if colType col = ''BIGINT'' then
        (let (s1, s2) = EncodeInt64 (toInt64 val);
             (ws, off) = banner_writes cols values y z (offset + 2)
         in (banner_write offset y z s1 # banner_write (offset + 1) y z s2 # ws, off))
      else if colType col = ''BOOLEAN'' then
        (let (ws, off) = banner_writes cols values y z (offset + 1)
         in (banner_write offset y z (EncodeBool (toBool val)) # ws, off))
      else banner_writes cols values y z offset)"

fun sign_writes :: "ColumnDef list \<Rightarrow> goval gomap \<Rightarrow> int \<Rightarrow> int \<Rightarrow> int \<Rightarrow> BlockWrite list" where
  "sign_writes [] values y z offset = []"
| "sign_writes (col # cols) values y z offset =
     (if colType col \<noteq> ''TEXT'' then sign_writes cols values y z offset
      else
        (let val = getColumnValue values col; lines = EncodeText (toString val)
         in mk_write offset y z BlockTypeSign (encodeSignData lines) # sign_writes cols values y z (offset + 1)))"

definition row_writes :: "ColumnDef list \<Rightarrow> goval gomap \<Rightarrow> int \<Rightarrow> int \<Rightarrow> int \<Rightarrow> BlockWrite list" where
  "row_writes cols values txid y z =
     (let (xmin0, xmin1) = EncodeInt64 txid;
          (xmax0, xmax1) = EncodeNull;
          header = [banner_write 0 y z xmin0, banner_write 1 y z xmin1, banner_write 2 y z xmax0, banner_write 3 y z xmax1];
          (bws, offset) = banner_writes cols values y z 4
      in header @ bws @ sign_writes cols values y z offset)"

text \<open>\<open>table.RowCount++\<close> behind the pointer.\<close>

definition bump_rows :: "nat \<Rightarrow> Storage \<Rightarrow> Storage" where
  "bump_rows p s =
     s\<lparr>metas := (metas s)[p := (metas s ! p)\<lparr>RowCount := wrap64 (RowCount (metas s ! p) + 1)\<rparr>]\<rparr>"

definition InsertRow ::
  "('w, 'e) hal \<Rightarrow> nat \<Rightarrow> goval gomap \<Rightarrow> int \<Rightarrow> Storage \<Rightarrow> 'w \<Rightarrow> ('e storage_error + BlockPos) \<times> Storage \<times> 'w" where
  "InsertRow h p values txid s w =
     (let table = metas s ! p;
          z = wrap64 (ZStart table + RowCount table);
          s = bump_rows p s;
          chunkX = 0;
          chunkZ = go_quot z 16
      in case ForceLoadChunk h chunkX chunkZ w of
           (Inl err, w) \<Rightarrow> (Inl (ForceloadChunk err), s, w)
         | (Inr _, w) \<Rightarrow>
             (let stripY = YLevel table;
                  writes = row_writes (Columns table) values txid stripY z
              in case Marshal (VMap values) of
                   Inl err \<Rightarrow> (Inl (MarshalValues err), s, w)
                 | Inr newValueJSON \<Rightarrow>
                     (case Append h txid ''INSERT'' (ID table) 0 stripY z newValueJSON (wal s) w of
                        (Inl err, wl, w) \<Rightarrow> (Inl (WalAppend err), s\<lparr>wal := wl\<rparr>, w)
                      | (Inr lsn, wl, w) \<Rightarrow>
                          (case BatchWrite h writes w of
                             (Inl err, w) \<Rightarrow> (Inl (BatchWriteRow err), s\<lparr>wal := wl\<rparr>, w)
                           | (Inr _, w) \<Rightarrow>
                               (case Commit h lsn wl w of
                                  (Inl err, wl, w) \<Rightarrow> (Inl (WalCommit err), s\<lparr>wal := wl\<rparr>, w)
                                | (Inr _, wl, w) \<Rightarrow> (Inr (mk_pos 0 stripY z), s\<lparr>wal := wl\<rparr>, w))))))"

text \<open>
  One iteration of the scanning goroutine on row \<open>ri\<close>: what it sends on the channel, if anything. It ends after
  sending an error.
\<close>

definition scan_step :: "('w, 'e) hal \<Rightarrow> TableMeta \<Rightarrow> int \<Rightarrow> int \<Rightarrow> 'w \<Rightarrow> 'e ScanResult option \<times> 'w" where
  "scan_step h table txid ri w =
     (let z = wrap64 (ZStart table + ri); chunkX = 0; chunkZ = go_quot z 16
      in case ForceLoadChunk h chunkX chunkZ w of
           (Inl err, w) \<Rightarrow> (Some (ScanErr (ScanForceload chunkX chunkZ err)), w)
         | (Inr _, w) \<Rightarrow>
             (case BatchRead h (map (\<lambda>ox. mk_pos ox (YLevel table) z) [0..StripWidth table - 1]) w of
                (Inl err, w) \<Rightarrow> (Some (ScanErr (ScanBatchRead z err)), w)
              | (Inr data, w) \<Rightarrow>
                  if isEmptyStrip data then (None, w)
                  else
                    (case decodeStrip data table of
                       Inl _ \<Rightarrow> (None, w)
                     | Inr row \<Rightarrow>
                         if isVisible row txid then
                           (let row = AList.update ''_x'' (VInt 0) row;
                                row = AList.update ''_y'' (VInt (YLevel table)) row;
                                row = AList.update ''_z'' (VInt z) row
                            in (Some (ScanRow row), w))
                         else (None, w))))"

text \<open>The loop of the goroutine: what it sends on the channel, in order.\<close>

function scan_loop ::
  "('w, 'e) hal \<Rightarrow> (int \<Rightarrow> bool) \<Rightarrow> TableMeta \<Rightarrow> int \<Rightarrow> int \<Rightarrow> int \<Rightarrow> 'w \<Rightarrow> 'e ScanResult list \<times> 'w" where
  "scan_loop h halt table txid rowCount ri w =
     (if ri < rowCount then
        if halt ri then ([], w)
        else
          (case scan_step h table txid ri w of
             (None, w) \<Rightarrow> scan_loop h halt table txid rowCount (ri + 1) w
           | (Some (ScanErr err), w) \<Rightarrow> ([ScanErr err], w)
           | (Some (ScanRow row), w) \<Rightarrow>
               (let (rs, w) = scan_loop h halt table txid rowCount (ri + 1) w in (ScanRow row # rs, w)))
      else ([], w))"
  by pat_completeness auto
termination
  by (relation "measure (\<lambda>(h, halt, table, txid, rowCount, ri, w). nat (rowCount - ri))") auto

declare scan_loop.simps [simp del]

definition SeqScan ::
  "('w, 'e) hal \<Rightarrow> (int \<Rightarrow> bool) \<Rightarrow> nat \<Rightarrow> int \<Rightarrow> Storage \<Rightarrow> 'w \<Rightarrow> 'e ScanResult list \<times> 'w" where
  "SeqScan h halt p txid s w =
     (let table = metas s ! p; rowCount = RowCount table
      in if rowCount = 0 then ([], w) else scan_loop h halt table txid rowCount 0 w)"

definition MarkDeleted ::
  "('w, 'e) hal \<Rightarrow> BlockPos \<Rightarrow> int \<Rightarrow> Storage \<Rightarrow> 'w \<Rightarrow> ('e storage_error + unit) \<times> Storage \<times> 'w" where
  "MarkDeleted h pos txid s w =
     (case ReadBlock h 2 (PosY pos) (PosZ pos) w of
        (Inl err, w) \<Rightarrow> (Inl (ReadXmax0 err), s, w)
      | (Inr xmax0Banner, w) \<Rightarrow>
          (case ReadBlock h 3 (PosY pos) (PosZ pos) w of
             (Inl err, w) \<Rightarrow> (Inl (ReadXmax1 err), s, w)
           | (Inr xmax1Banner, w) \<Rightarrow>
               if xmax0Banner = None \<or> xmax1Banner = None then (Inl (NoRowAt pos), s, w)
               else if slice_string xmax0Banner = [] then (Inl (EmptyXmaxAt pos), s, w)
               else
                 (let tableID = wrap64 (go_quot (PosZ pos) tableZSpacing + 1);
                      newValue = fmt_d txid
                  in case Append h txid ''UPDATE_XMAX'' tableID (PosX pos) (PosY pos) (PosZ pos) newValue (wal s) w of
                       (Inl err, wl, w) \<Rightarrow> (Inl (WalAppend err), s\<lparr>wal := wl\<rparr>, w)
                     | (Inr lsn, wl, w) \<Rightarrow>
                         (let (s1New, s2New) = EncodeInt64 txid;
                              writes = [banner_write 2 (PosY pos) (PosZ pos) s1New, banner_write 3 (PosY pos) (PosZ pos) s2New]
                          in case BatchWrite h writes w of
                               (Inl err, w) \<Rightarrow> (Inl (WriteDeleteMarker err), s\<lparr>wal := wl\<rparr>, w)
                             | (Inr _, w) \<Rightarrow>
                                 (case Commit h lsn wl w of
                                    (Inl err, wl, w) \<Rightarrow> (Inl (WalCommit err), s\<lparr>wal := wl\<rparr>, w)
                                  | (Inr _, wl, w) \<Rightarrow> (Inr (), s\<lparr>wal := wl\<rparr>, w))))))"

end
