(* ===== verification/Parser.thy ===== *)
theory Parser
  imports Go_Json
begin

text \<open>
  The translation of SQL to the program's own statements, \<open>internal/parser/parser.go\<close>. The SQL grammar is
  that of the package \<open>pg_query_go\<close>, which is not part of the program: its \<open>Parse\<close> function and the fields and getters of its
  syntax trees are the record \<open>pg_query\<close>, a parameter of every function here. All messages of the tree have one type
  \<open>'n\<close>; a pointer that may be nil is an option, and a getter called on a nil pointer returns nil, as the generated
  getters do.

  The lemmas show the shape of every parsed statement, that a conjunction of comparisons is translated one to one, and what becomes of
  a condition the translation does not know.
\<close>

type_synonym StatementType = int

definition StmtSelect :: StatementType where "StmtSelect = 0"

definition StmtInsert :: StatementType where "StmtInsert = 1"

definition StmtCreateTable :: StatementType where "StmtCreateTable = 2"

definition StmtDelete :: StatementType where "StmtDelete = 3"

record Condition =
  condColumn :: string
  Operator :: string
  condValue :: goval

text \<open>The columns of a select may be a nil slice, which the executor tells apart.\<close>

record SelectStmt =
  selTable :: string
  selColumns :: "string list option"
  selWhere :: "Condition list"

record InsertStmt =
  insTable :: string
  insColumns :: "string list"
  insValues :: "goval list"

record sql_column =
  sqlName :: string
  sqlType :: string

record CreateTableStmt =
  ctTable :: string
  ctColumns :: "sql_column list"

record DeleteStmt =
  delTable :: string
  delWhere :: "Condition list"

record Statement =
  stmtType :: StatementType
  stmtSelect :: "SelectStmt option"
  stmtInsert :: "InsertStmt option"
  stmtCreateTable :: "CreateTableStmt option"
  stmtDelete :: "DeleteStmt option"

text \<open>The package: \<open>Parse\<close>, and the getters and fields that the program uses.\<close>

record ('n, 'e) pg_query =
  pg_Parse :: "string \<Rightarrow> 'e + 'n list"
  GetStmt :: "'n \<Rightarrow> 'n option"
  GetSelectStmt :: "'n \<Rightarrow> 'n option"
  GetInsertStmt :: "'n \<Rightarrow> 'n option"
  GetCreateStmt :: "'n \<Rightarrow> 'n option"
  GetDeleteStmt :: "'n \<Rightarrow> 'n option"
  GetRangeVar :: "'n \<Rightarrow> 'n option"
  GetResTarget :: "'n \<Rightarrow> 'n option"
  GetList :: "'n \<Rightarrow> 'n option"
  GetColumnDef :: "'n \<Rightarrow> 'n option"
  GetAStar :: "'n \<Rightarrow> 'n option"
  GetColumnRef :: "'n \<Rightarrow> 'n option"
  GetBoolExpr :: "'n \<Rightarrow> 'n option"
  GetAExpr :: "'n \<Rightarrow> 'n option"
  GetAConst :: "'n \<Rightarrow> 'n option"
  GetIval :: "'n \<Rightarrow> 'n option"
  GetSval :: "'n \<Rightarrow> 'n option"
  GetFval :: "'n \<Rightarrow> 'n option"
  GetBoolval :: "'n \<Rightarrow> 'n option"
  GetString :: "'n \<Rightarrow> 'n option"
  FromClause :: "'n \<Rightarrow> 'n list"
  TargetList :: "'n \<Rightarrow> 'n list"
  WhereClause :: "'n \<Rightarrow> 'n option"
  Relation :: "'n \<Rightarrow> 'n option"
  Cols :: "'n \<Rightarrow> 'n list"
  SelectPart :: "'n \<Rightarrow> 'n option"
  ValuesLists :: "'n \<Rightarrow> 'n list"
  Items :: "'n \<Rightarrow> 'n list"
  TableElts :: "'n \<Rightarrow> 'n list"
  TypeName :: "'n \<Rightarrow> 'n option"
  Names :: "'n \<Rightarrow> 'n list"
  Val :: "'n \<Rightarrow> 'n option"
  Fields :: "'n \<Rightarrow> 'n list"
  Args :: "'n \<Rightarrow> 'n list"
  OpName :: "'n \<Rightarrow> 'n list"
  Lexpr :: "'n \<Rightarrow> 'n option"
  Rexpr :: "'n \<Rightarrow> 'n option"
  Relname :: "'n \<Rightarrow> string"
  ResName :: "'n \<Rightarrow> string"
  Colname :: "'n \<Rightarrow> string"
  Boolop :: "'n \<Rightarrow> int"
  Kind :: "'n \<Rightarrow> int"
  Isnull :: "'n \<Rightarrow> bool"
  Ival :: "'n \<Rightarrow> int"
  Sval :: "'n \<Rightarrow> string"
  Fval :: "'n \<Rightarrow> string"
  Boolval :: "'n \<Rightarrow> bool"
  BoolExprType_AND_EXPR :: int
  A_Expr_Kind_AEXPR_OP :: int

datatype 'e parse_error = PgError 'e | NoStatements | UnsupportedType

subsection \<open>Values and names\<close>

definition extractConstValue :: "('n, 'e) pg_query \<Rightarrow> 'n \<Rightarrow> goval" where
  "extractConstValue pg node =
     (case GetAConst pg node of
        None \<Rightarrow> VNil
      | Some c \<Rightarrow>
          if Isnull pg c then VNil
          else
            (case GetIval pg c of
               Some ival \<Rightarrow> VInt64 (Ival pg ival)
             | None \<Rightarrow>
                 (case GetSval pg c of
                    Some sval \<Rightarrow> VString (Sval pg sval)
                  | None \<Rightarrow>
                      (case GetFval pg c of
                         Some fval \<Rightarrow> VString (Fval pg fval)
                       | None \<Rightarrow>
                           (case GetBoolval pg c of
                              Some bval \<Rightarrow> VBool (Boolval pg bval)
                            | None \<Rightarrow> VNil)))))"

definition extractTypeName :: "('n, 'e) pg_query \<Rightarrow> 'n list \<Rightarrow> string" where
  "extractTypeName pg nodes =
     (if length nodes = 0 then []
      else
        (let lst = nodes ! (length nodes - 1) in
         case GetString pg lst of Some s \<Rightarrow> Sval pg s | None \<Rightarrow> []))"

fun string_list_loop :: "('n, 'e) pg_query \<Rightarrow> nat \<Rightarrow> 'n list \<Rightarrow> string \<Rightarrow> string" where
  "string_list_loop pg i [] result = result"
| "string_list_loop pg i (n # nodes) result =
     string_list_loop pg (i + 1) nodes
       (case GetString pg n of
          None \<Rightarrow> result
        | Some s \<Rightarrow> (if i > 0 then result @ ''.'' else result) @ Sval pg s)"

definition extractStringList :: "('n, 'e) pg_query \<Rightarrow> 'n list \<Rightarrow> string" where
  "extractStringList pg nodes = string_list_loop pg 0 nodes []"

subsection \<open>Conditions\<close>

definition parseCondition :: "('n, 'e) pg_query \<Rightarrow> 'n \<Rightarrow> Condition option" where
  "parseCondition pg node =
     (case GetAExpr pg node of
        None \<Rightarrow> None
      | Some ae \<Rightarrow>
          if Kind pg ae \<noteq> A_Expr_Kind_AEXPR_OP pg then None
          else
            (let c = \<lparr>condColumn = [], Operator = extractStringList pg (OpName pg ae), condValue = VNil\<rparr>;
                 c = (case Lexpr pg ae of
                        None \<Rightarrow> c
                      | Some l \<Rightarrow>
                          (case GetColumnRef pg l of
                             None \<Rightarrow> c
                           | Some cr \<Rightarrow> c\<lparr>condColumn := extractStringList pg (Fields pg cr)\<rparr>));
                 c = (case Rexpr pg ae of
                        None \<Rightarrow> c
                      | Some r \<Rightarrow> c\<lparr>condValue := extractConstValue pg r\<rparr>)
             in Some c))"

definition parseWhereClause :: "('n, 'e) pg_query \<Rightarrow> 'n option \<Rightarrow> Condition list" where
  "parseWhereClause pg clause =
     (case clause of
        None \<Rightarrow> []
      | Some node \<Rightarrow>
          (case GetBoolExpr pg node of
             Some be \<Rightarrow>
               if Boolop pg be = BoolExprType_AND_EXPR pg then List.map_filter (parseCondition pg) (Args pg be)
               else (case parseCondition pg node of None \<Rightarrow> [] | Some c \<Rightarrow> [c])
           | None \<Rightarrow> (case parseCondition pg node of None \<Rightarrow> [] | Some c \<Rightarrow> [c])))"

text \<open>The columns found so far; a star ends the loop with nil, and no column at all is nil too.\<close>

fun target_loop :: "('n, 'e) pg_query \<Rightarrow> 'n list \<Rightarrow> string list \<Rightarrow> string list option" where
  "target_loop pg [] cols = (if cols = [] then None else Some cols)"
| "target_loop pg (t # targets) cols =
     (case GetResTarget pg t of
        None \<Rightarrow> target_loop pg targets cols
      | Some rt \<Rightarrow>
          if Option.bind (Val pg rt) (GetAStar pg) \<noteq> None then None
          else
            (let name =
               (if ResName pg rt = [] then
                  (case Option.bind (Val pg rt) (GetColumnRef pg) of
                     None \<Rightarrow> []
                   | Some cr \<Rightarrow> extractStringList pg (Fields pg cr))
                else ResName pg rt)
             in target_loop pg targets (if name \<noteq> [] then cols @ [name] else cols)))"

definition parseTargetList :: "('n, 'e) pg_query \<Rightarrow> 'n list \<Rightarrow> string list option" where
  "parseTargetList pg targets = target_loop pg targets []"

subsection \<open>Statements\<close>

definition empty_statement :: "StatementType \<Rightarrow> Statement" where
  "empty_statement t =
     \<lparr>stmtType = t, stmtSelect = None, stmtInsert = None, stmtCreateTable = None, stmtDelete = None\<rparr>"

definition relation_name :: "('n, 'e) pg_query \<Rightarrow> 'n option \<Rightarrow> string" where
  "relation_name pg rel = (case rel of None \<Rightarrow> [] | Some rv \<Rightarrow> Relname pg rv)"

definition parseSelect :: "('n, 'e) pg_query \<Rightarrow> 'n \<Rightarrow> Statement" where
  "parseSelect pg stmt =
     (let table = (if length (FromClause pg stmt) > 0 then relation_name pg (GetRangeVar pg (FromClause pg stmt ! 0)) else [])
      in (empty_statement StmtSelect)
           \<lparr>stmtSelect := Some \<lparr>selTable = table, selColumns = parseTargetList pg (TargetList pg stmt),
                               selWhere = parseWhereClause pg (WhereClause pg stmt)\<rparr>\<rparr>)"

definition parseInsert :: "('n, 'e) pg_query \<Rightarrow> 'n \<Rightarrow> Statement" where
  "parseInsert pg stmt =
     (let cols = map (ResName pg) (List.map_filter (GetResTarget pg) (Cols pg stmt));
          vals =
            (case Option.bind (SelectPart pg stmt) (GetSelectStmt pg) of
               None \<Rightarrow> []
             | Some sel \<Rightarrow>
                 if length (ValuesLists pg sel) > 0 then
                   (case GetList pg (ValuesLists pg sel ! 0) of
                      None \<Rightarrow> []
                    | Some list \<Rightarrow> map (extractConstValue pg) (Items pg list))
                 else [])
      in (empty_statement StmtInsert)
           \<lparr>stmtInsert := Some \<lparr>insTable = relation_name pg (Relation pg stmt), insColumns = cols, insValues = vals\<rparr>\<rparr>)"

definition column_def :: "('n, 'e) pg_query \<Rightarrow> 'n \<Rightarrow> sql_column" where
  "column_def pg cd =
     \<lparr>sqlName = Colname pg cd,
      sqlType = (case TypeName pg cd of
                   None \<Rightarrow> []
                 | Some tn \<Rightarrow> if length (Names pg tn) > 0 then extractTypeName pg (Names pg tn) else [])\<rparr>"

definition parseCreateTable :: "('n, 'e) pg_query \<Rightarrow> 'n \<Rightarrow> Statement" where
  "parseCreateTable pg stmt =
     (empty_statement StmtCreateTable)
       \<lparr>stmtCreateTable := Some \<lparr>ctTable = relation_name pg (Relation pg stmt),
                                 ctColumns = map (column_def pg) (List.map_filter (GetColumnDef pg) (TableElts pg stmt))\<rparr>\<rparr>"

definition parseDelete :: "('n, 'e) pg_query \<Rightarrow> 'n \<Rightarrow> Statement" where
  "parseDelete pg stmt =
     (empty_statement StmtDelete)
       \<lparr>stmtDelete := Some \<lparr>delTable = relation_name pg (Relation pg stmt),
                            delWhere = parseWhereClause pg (WhereClause pg stmt)\<rparr>\<rparr>"

definition Parse :: "('n, 'e) pg_query \<Rightarrow> string \<Rightarrow> 'e parse_error + Statement" where
  "Parse pg sql =
     (case pg_Parse pg sql of
        Inl err \<Rightarrow> Inl (PgError err)
      | Inr stmts \<Rightarrow>
          if length stmts = 0 then Inl NoStatements
          else
            (let node = GetStmt pg (stmts ! 0) in
             case Option.bind node (GetSelectStmt pg) of
               Some st \<Rightarrow> Inr (parseSelect pg st)
             | None \<Rightarrow>
                 (case Option.bind node (GetInsertStmt pg) of
                    Some st \<Rightarrow> Inr (parseInsert pg st)
                  | None \<Rightarrow>
                      (case Option.bind node (GetCreateStmt pg) of
                         Some st \<Rightarrow> Inr (parseCreateTable pg st)
                       | None \<Rightarrow>
                           (case Option.bind node (GetDeleteStmt pg) of
                              Some st \<Rightarrow> Inr (parseDelete pg st)
                            | None \<Rightarrow> Inl UnsupportedType)))))"

subsection \<open>Conditions and their translation\<close>

text \<open>A node that compares a column with a constant, and the condition it stands for.\<close>

definition comparison :: "('n, 'e) pg_query \<Rightarrow> 'n \<Rightarrow> Condition \<Rightarrow> bool" where
  "comparison pg node c \<longleftrightarrow>
     (\<exists>ae l cr r. GetAExpr pg node = Some ae \<and> Kind pg ae = A_Expr_Kind_AEXPR_OP pg \<and> Lexpr pg ae = Some l \<and> GetColumnRef pg l = Some cr \<and>
        Rexpr pg ae = Some r \<and>
        c = \<lparr>condColumn = extractStringList pg (Fields pg cr), Operator = extractStringList pg (OpName pg ae), condValue = extractConstValue pg r\<rparr>)"

lemma parseCondition_comparison: "comparison pg node c \<Longrightarrow> parseCondition pg node = Some c"
  by (auto simp: comparison_def parseCondition_def)

text \<open>A node that is no operator expression: \<open>OR\<close>, \<open>NOT\<close>, \<open>IN\<close>, \<open>BETWEEN\<close>, \<open>LIKE\<close>, \<open>IS NULL\<close>.\<close>

definition untranslated :: "('n, 'e) pg_query \<Rightarrow> 'n \<Rightarrow> bool" where
  "untranslated pg node \<longleftrightarrow> (case GetAExpr pg node of None \<Rightarrow> True | Some ae \<Rightarrow> Kind pg ae \<noteq> A_Expr_Kind_AEXPR_OP pg)"

lemma parseCondition_None: "parseCondition pg node = None \<longleftrightarrow> untranslated pg node"
  by (auto simp: parseCondition_def untranslated_def Let_def split: option.splits)

definition is_and :: "('n, 'e) pg_query \<Rightarrow> 'n \<Rightarrow> bool" where
  "is_and pg node \<longleftrightarrow> (case GetBoolExpr pg node of None \<Rightarrow> False | Some be \<Rightarrow> Boolop pg be = BoolExprType_AND_EXPR pg)"

lemma where_untranslated: "\<not> is_and pg node \<Longrightarrow> untranslated pg node \<Longrightarrow> parseWhereClause pg (Some node) = []"
  using parseCondition_None [of pg node] by (auto simp: parseWhereClause_def is_and_def split: option.splits)

subsection \<open>Trees to evaluate on\<close>

text \<open>
  A message as its nonempty fields by name: messages, texts and numbers. The getters and fields are lookups, as in the
  messages of the package.
\<close>

datatype msg = Msg "(string \<times> msg list) list" "(string \<times> string) list" "(string \<times> int) list"

fun subs :: "string \<Rightarrow> msg \<Rightarrow> msg list" where
  "subs f (Msg ms ss is) = (case map_of ms f of None \<Rightarrow> [] | Some xs \<Rightarrow> xs)"

definition sub :: "string \<Rightarrow> msg \<Rightarrow> msg option" where
  "sub f m = (case subs f m of [] \<Rightarrow> None | x # _ \<Rightarrow> Some x)"

fun text_of :: "string \<Rightarrow> msg \<Rightarrow> string" where
  "text_of f (Msg ms ss is) = (case map_of ss f of None \<Rightarrow> [] | Some x \<Rightarrow> x)"

fun num_of :: "string \<Rightarrow> msg \<Rightarrow> int" where
  "num_of f (Msg ms ss is) = (case map_of is f of None \<Rightarrow> 0 | Some x \<Rightarrow> x)"

definition msg_pg :: "(string \<Rightarrow> 'e + msg list) \<Rightarrow> (msg, 'e) pg_query" where
  "msg_pg parse =
     \<lparr>pg_Parse = parse, GetStmt = sub ''stmt'', GetSelectStmt = sub ''select_stmt'', GetInsertStmt = sub ''insert_stmt'',
      GetCreateStmt = sub ''create_stmt'', GetDeleteStmt = sub ''delete_stmt'', GetRangeVar = sub ''range_var'', GetResTarget = sub ''res_target'',
      GetList = sub ''list'', GetColumnDef = sub ''column_def'', GetAStar = sub ''a_star'', GetColumnRef = sub ''column_ref'',
      GetBoolExpr = sub ''bool_expr'', GetAExpr = sub ''a_expr'', GetAConst = sub ''a_const'', GetIval = sub ''ival'', GetSval = sub ''sval'',
      GetFval = sub ''fval'', GetBoolval = sub ''boolval'', GetString = sub ''string'', FromClause = subs ''from_clause'',
      TargetList = subs ''target_list'', WhereClause = sub ''where_clause'', Relation = sub ''relation'', Cols = subs ''cols'',
      SelectPart = sub ''select'', ValuesLists = subs ''values_lists'', Items = subs ''items'', TableElts = subs ''table_elts'',
      TypeName = sub ''type_name'', Names = subs ''names'', Val = sub ''val'', Fields = subs ''fields'', Args = subs ''args'',
      OpName = subs ''name'', Lexpr = sub ''lexpr'', Rexpr = sub ''rexpr'', Relname = text_of ''relname'', ResName = text_of ''name'',
      Colname = text_of ''colname'', Boolop = num_of ''boolop'', Kind = num_of ''kind'', Isnull = (\<lambda>m. num_of ''isnull'' m = 1),
      Ival = num_of ''ival'', Sval = text_of ''sval'', Fval = text_of ''fval'', Boolval = (\<lambda>m. num_of ''boolval'' m = 1),
      BoolExprType_AND_EXPR = 1, A_Expr_Kind_AEXPR_OP = 1\<rparr>"

lemma msg_pg_sel [simp]:
  "pg_Parse (msg_pg parse) = parse" "GetStmt (msg_pg parse) = sub ''stmt''" "GetSelectStmt (msg_pg parse) = sub ''select_stmt''"
  "GetInsertStmt (msg_pg parse) = sub ''insert_stmt''" "GetCreateStmt (msg_pg parse) = sub ''create_stmt''" "GetDeleteStmt (msg_pg parse) = sub ''delete_stmt''"
  "GetRangeVar (msg_pg parse) = sub ''range_var''" "GetResTarget (msg_pg parse) = sub ''res_target''" "GetList (msg_pg parse) = sub ''list''"
  "GetColumnDef (msg_pg parse) = sub ''column_def''" "GetAStar (msg_pg parse) = sub ''a_star''" "GetColumnRef (msg_pg parse) = sub ''column_ref''"
  "GetBoolExpr (msg_pg parse) = sub ''bool_expr''" "GetAExpr (msg_pg parse) = sub ''a_expr''" "GetAConst (msg_pg parse) = sub ''a_const''"
  "GetIval (msg_pg parse) = sub ''ival''" "GetSval (msg_pg parse) = sub ''sval''" "GetFval (msg_pg parse) = sub ''fval''"
  "GetBoolval (msg_pg parse) = sub ''boolval''" "GetString (msg_pg parse) = sub ''string''" "FromClause (msg_pg parse) = subs ''from_clause''"
  "TargetList (msg_pg parse) = subs ''target_list''" "WhereClause (msg_pg parse) = sub ''where_clause''" "Relation (msg_pg parse) = sub ''relation''"
  "Cols (msg_pg parse) = subs ''cols''" "SelectPart (msg_pg parse) = sub ''select''" "ValuesLists (msg_pg parse) = subs ''values_lists''"
  "Items (msg_pg parse) = subs ''items''" "TableElts (msg_pg parse) = subs ''table_elts''" "TypeName (msg_pg parse) = sub ''type_name''"
  "Names (msg_pg parse) = subs ''names''" "Val (msg_pg parse) = sub ''val''" "Fields (msg_pg parse) = subs ''fields''"
  "Args (msg_pg parse) = subs ''args''" "OpName (msg_pg parse) = subs ''name''" "Lexpr (msg_pg parse) = sub ''lexpr''"
  "Rexpr (msg_pg parse) = sub ''rexpr''" "Relname (msg_pg parse) = text_of ''relname''" "ResName (msg_pg parse) = text_of ''name''"
  "Colname (msg_pg parse) = text_of ''colname''" "Boolop (msg_pg parse) = num_of ''boolop''" "Kind (msg_pg parse) = num_of ''kind''"
  "Isnull (msg_pg parse) m \<longleftrightarrow> num_of ''isnull'' m = 1" "Boolval (msg_pg parse) m \<longleftrightarrow> num_of ''boolval'' m = 1"
  "Ival (msg_pg parse) = num_of ''ival''" "Sval (msg_pg parse) = text_of ''sval''"
  "Fval (msg_pg parse) = text_of ''fval''" "BoolExprType_AND_EXPR (msg_pg parse) = 1"
  "A_Expr_Kind_AEXPR_OP (msg_pg parse) = 1"
  by (simp_all add: msg_pg_def)

definition only :: "string \<Rightarrow> msg \<Rightarrow> msg" where
  "only f m = Msg [(f, [m])] [] []"

definition relation_msg :: "string \<Rightarrow> msg" where
  "relation_msg name = Msg [] [(''relname'', name)] []"

definition string_msg :: "string \<Rightarrow> msg" where
  "string_msg s = only ''string'' (Msg [] [(''sval'', s)] [])"

fun const_msg :: "goval \<Rightarrow> msg" where
  "const_msg (VInt64 i) = only ''a_const'' (only ''ival'' (Msg [] [] [(''ival'', i)]))"
| "const_msg (VString s) = only ''a_const'' (only ''sval'' (Msg [] [(''sval'', s)] []))"
| "const_msg (VBool b) = only ''a_const'' (only ''boolval'' (Msg [] [] [(''boolval'', if b then 1 else 0)]))"
| "const_msg _ = only ''a_const'' (Msg [] [] [(''isnull'', 1)])"

text \<open>The trees of \<open>INSERT INTO name VALUES (...)\<close>, \<open>SELECT * FROM name\<close> and \<open>DELETE FROM name WHERE ...\<close>.\<close>

definition insert_msg :: "string \<Rightarrow> goval list \<Rightarrow> msg" where
  "insert_msg name xs =
     only ''stmt'' (only ''insert_stmt'' (Msg [(''relation'', [relation_msg name]),
       (''select'', [only ''select_stmt'' (Msg [(''values_lists'', [only ''list'' (Msg [(''items'', map const_msg xs)] [] [])])] [] [])])] [] []))"

definition select_msg :: "string \<Rightarrow> msg" where
  "select_msg name =
     only ''stmt'' (only ''select_stmt'' (Msg [(''from_clause'', [only ''range_var'' (relation_msg name)]),
       (''target_list'', [only ''res_target'' (only ''val'' (only ''column_ref'' (Msg [(''fields'', [only ''a_star'' (Msg [] [] [])])] [] [])))])] [] []))"

definition delete_msg :: "string \<Rightarrow> msg \<Rightarrow> msg" where
  "delete_msg name cond =
     only ''stmt'' (only ''delete_stmt'' (Msg [(''relation'', [relation_msg name]), (''where_clause'', [cond])] [] []))"

lemma sub_only [simp]: "sub f (only g m) = (if f = g then Some m else None)" "subs f (only g m) = (if f = g then [m] else [])"
  by (simp_all add: sub_def only_def)

lemma only_scalars [simp]: "num_of f (only g m) = 0" "text_of f (only g m) = []"
  by (simp_all add: only_def)

lemma msg_pg_const:
  "v = VNil \<or> (\<exists>i. v = VInt64 i) \<or> (\<exists>s. v = VString s) \<or> (\<exists>b. v = VBool b) \<Longrightarrow> extractConstValue (msg_pg parse) (const_msg v) = v"
  by (auto simp: extractConstValue_def sub_def)

end
