(* ===== verification/Executor.thy ===== *)
theory Executor
  imports Storage Parser
begin

text \<open>
  The execution of statements, \<open>internal/executor/executor.go\<close>, over the storage layer. The loop of a select
  reads the rows of a scan from the channel and changes nothing, so it works on the list the scan sends. The loop of a delete marks the rows
  while the scan goes on: here each row is handled when the scan has sent it, and before the scan goes on to the next row
  (theory \<open>Schedule\<close> shows that other schedules give the same result).
\<close>

text \<open>\<open>fmt.Sprintf("%v", v)\<close>.\<close>

fun fmt_v :: "goval \<Rightarrow> string" where
  "fmt_v VNil = ''<nil>''"
| "fmt_v (VInt i) = fmt_d i"
| "fmt_v (VInt32 i) = fmt_d i"
| "fmt_v (VInt64 i) = fmt_d i"
| "fmt_v (VFloat f) = f64_fmt_v f"
| "fmt_v (VString s) = s"
| "fmt_v (VBool b) = (if b then ''true'' else ''false'')"
| "fmt_v (VNumber s) = s"
| "fmt_v (VSlice vs) = ''['' @ Join (map fmt_v vs) '' '' @ '']''"
| "fmt_v (VMap kvs) =
     ''map['' @ Join (map (\<lambda>(k, v). k @ '':'' @ v) (sort_key fst (map (\<lambda>(k, v). (k, fmt_v v)) kvs))) '' '' @ '']''"

record Result =
  resColumns :: "string list"
  resColumnTypes :: "string list"
  resRows :: "goval list list"
  Tag :: string

definition tag_result :: "string \<Rightarrow> Result" where
  "tag_result tag = \<lparr>resColumns = [], resColumnTypes = [], resRows = [], Tag = tag\<rparr>"

datatype 'e exec_error =
    UnsupportedStatement
  | NilCreateTable
  | NilInsert
  | NilSelect
  | NilDelete
  | ExecStorage "'e storage_error"

subsection \<open>Columns\<close>

definition normalizeType :: "string \<Rightarrow> string" where
  "normalizeType t =
     (if t = ''int4'' \<or> t = ''integer'' then ''INT''
      else if t = ''int8'' \<or> t = ''bigint'' then ''BIGINT''
      else if t = ''text'' \<or> t = ''varchar'' \<or> t = ''bpchar'' then ''TEXT''
      else if t = ''bool'' \<or> t = ''boolean'' then ''BOOLEAN''
      else if t = ''float4'' \<or> t = ''float8'' \<or> t = ''real'' \<or> t = ''double precision'' then ''FLOAT''
      else t)"

definition table_columns :: "sql_column list \<Rightarrow> ColumnDef list" where
  "table_columns cols =
     map (\<lambda>(i, c). \<lparr>colName = sqlName c, colOrdinal = int i, colType = normalizeType (sqlType c)\<rparr>) (enumerate 0 cols)"

definition buildColumnMap :: "ColumnDef list \<Rightarrow> int gomap" where
  "buildColumnMap cols = fold (\<lambda>c m. AList.update (colName c) (colOrdinal c) m) cols []"

fun find_column :: "string \<Rightarrow> ColumnDef list \<Rightarrow> ColumnDef option" where
  "find_column name [] = None"
| "find_column name (c # defs) = (if colName c = name then Some c else find_column name defs)"

definition resolveOutputColumns :: "string list option \<Rightarrow> ColumnDef list \<Rightarrow> ColumnDef list" where
  "resolveOutputColumns requested defs =
     (case requested of
        None \<Rightarrow> defs
      | Some names \<Rightarrow> List.map_filter (\<lambda>name. find_column name defs) names)"

definition columnTypes :: "ColumnDef list \<Rightarrow> string list" where
  "columnTypes cols = map colType cols"

definition columnNames :: "ColumnDef list \<Rightarrow> string list" where
  "columnNames cols = map colName cols"

subsection \<open>Conditions\<close>

definition toFloat :: "goval \<Rightarrow> f64 \<times> bool" where
  "toFloat v =
     (case v of
        VFloat f \<Rightarrow> (f, True)
      | VInt64 i \<Rightarrow> (f64_of_int i, True)
      | VInt32 i \<Rightarrow> (f64_of_int i, True)
      | VInt i \<Rightarrow> (f64_of_int i, True)
      | VString s \<Rightarrow> (case ParseFloat s of Inl _ \<Rightarrow> (f64_zero, False) | Inr f \<Rightarrow> (f, True))
      | _ \<Rightarrow> (f64_zero, False))"

definition compareNum :: "f64 \<Rightarrow> f64 \<Rightarrow> string \<Rightarrow> bool" where
  "compareNum a b op =
     (if op = ''='' then f64_eq a b
      else if op = ''>'' then f64_less b a
      else if op = ''<'' then f64_less a b
      else if op = ''>='' then f64_less b a \<or> f64_eq a b
      else if op = ''<='' then f64_less a b \<or> f64_eq a b
      else if op = ''!='' then \<not> f64_eq a b
      else False)"

definition compareStr :: "string \<Rightarrow> string \<Rightarrow> string \<Rightarrow> bool" where
  "compareStr a b op =
     (if op = ''='' then a = b
      else if op = ''>'' then b < a
      else if op = ''<'' then a < b
      else if op = ''>='' then b \<le> a
      else if op = ''<='' then a \<le> b
      else if op = ''!='' then a \<noteq> b
      else False)"

definition compareValue :: "goval \<Rightarrow> goval \<Rightarrow> string \<Rightarrow> bool" where
  "compareValue rowVal condVal op =
     (if rowVal = VNil \<and> condVal = VNil then op = ''=''
      else if rowVal = VNil \<or> condVal = VNil then op = ''!=''
      else
        (let (rn, rOk) = toFloat rowVal; (cn, cOk) = toFloat condVal in
         if rOk \<and> cOk then compareNum rn cn op
         else
           (case (rowVal, condVal) of
              (VString rs, VString cs) \<Rightarrow> compareStr rs cs op
            | (VString rs2, _) \<Rightarrow> compareStr rs2 (fmt_v condVal) op
            | _ \<Rightarrow> False)))"

fun evaluateWhere :: "Row \<Rightarrow> Condition list \<Rightarrow> int gomap \<Rightarrow> bool" where
  "evaluateWhere row [] colMap = True"
| "evaluateWhere row (cond # conds) colMap =
     (case map_of colMap (condColumn cond) of
        None \<Rightarrow> False
      | Some ordinal \<Rightarrow>
          (let rowVal = row_get row (col_key ordinal) in
           if \<not> compareValue rowVal (condValue cond) (Operator cond) then False
           else evaluateWhere row conds colMap))"

fun toInt :: "goval \<Rightarrow> int" where
  "toInt (VFloat f) = int64_of_f64 f"
| "toInt (VInt i) = i"
| "toInt (VInt32 i) = i"
| "toInt (VInt64 i) = i"
| "toInt _ = 0"

text \<open>None for a row that lacks one of the coordinates.\<close>

definition rowBlockPos :: "Row \<Rightarrow> BlockPos option" where
  "rowBlockPos row =
     (case map_of row ''_x'' of
        None \<Rightarrow> None
      | Some x \<Rightarrow>
          (case map_of row ''_y'' of
             None \<Rightarrow> None
           | Some y \<Rightarrow>
               (case map_of row ''_z'' of
                  None \<Rightarrow> None
                | Some z \<Rightarrow> Some (mk_pos (toInt x) (toInt y) (toInt z)))))"

subsection \<open>Statements\<close>

definition executeCreateTable ::
  "('w, 'e) hal \<Rightarrow> Statement \<Rightarrow> Storage \<Rightarrow> 'w \<Rightarrow> ('e exec_error + Result) \<times> Storage \<times> 'w" where
  "executeCreateTable h stmt s w =
     (case stmtCreateTable stmt of
        None \<Rightarrow> (Inl NilCreateTable, s, w)
      | Some ct \<Rightarrow>
          (let cols = table_columns (ctColumns ct) in
           case CreateTable h (ctTable ct) cols s w of
             (Inl err, s, w) \<Rightarrow> (Inl (ExecStorage err), s, w)
           | (Inr _, s, w) \<Rightarrow> (Inr (tag_result ''CREATE TABLE''), s, w)))"

text \<open>The map of the values of an insert: each name is set to the value at its place, if there is one.\<close>

definition insert_values :: "string list \<Rightarrow> goval list \<Rightarrow> goval gomap" where
  "insert_values names vals = fold (\<lambda>(n, v) m. AList.update n v m) (zip names vals) []"

definition executeInsert ::
  "('w, 'e) hal \<Rightarrow> Statement \<Rightarrow> int \<Rightarrow> Storage \<Rightarrow> 'w \<Rightarrow> ('e exec_error + Result) \<times> Storage \<times> 'w" where
  "executeInsert h stmt txid s w =
     (case stmtInsert stmt of
        None \<Rightarrow> (Inl NilInsert, s, w)
      | Some ins \<Rightarrow>
          (case GetTable (insTable ins) s of
             Inl err \<Rightarrow> (Inl (ExecStorage err), s, w)
           | Inr p \<Rightarrow>
               (let meta = metas s ! p;
                    vals =
                      (if length (insColumns ins) = 0
                       then insert_values (map colName (Columns meta)) (insValues ins)
                       else insert_values (insColumns ins) (insValues ins))
                in case InsertRow h p vals txid s w of
                     (Inl err, s, w) \<Rightarrow> (Inl (ExecStorage err), s, w)
                   | (Inr _, s, w) \<Rightarrow> (Inr (tag_result ''INSERT 0 1''), s, w))))"

definition output_row :: "ColumnDef list \<Rightarrow> Row \<Rightarrow> goval list" where
  "output_row outCols row = map (\<lambda>col. row_get row (col_key (colOrdinal col))) outCols"

fun select_loop :: "Condition list \<Rightarrow> int gomap \<Rightarrow> ColumnDef list \<Rightarrow> 'e ScanResult list \<Rightarrow> 'e storage_error + goval list list" where
  "select_loop conds colMap outCols [] = Inr []"
| "select_loop conds colMap outCols (ScanErr err # rs) = Inl err"
| "select_loop conds colMap outCols (ScanRow row # rs) =
     (if \<not> evaluateWhere row conds colMap then select_loop conds colMap outCols rs
      else
        (case select_loop conds colMap outCols rs of
           Inl err \<Rightarrow> Inl err
         | Inr rows \<Rightarrow> Inr (output_row outCols row # rows)))"

definition executeSelect ::
  "('w, 'e) hal \<Rightarrow> (int \<Rightarrow> bool) \<Rightarrow> Statement \<Rightarrow> int \<Rightarrow> Storage \<Rightarrow> 'w \<Rightarrow> ('e exec_error + Result) \<times> Storage \<times> 'w" where
  "executeSelect h halt stmt txid s w =
     (case stmtSelect stmt of
        None \<Rightarrow> (Inl NilSelect, s, w)
      | Some sel \<Rightarrow>
          (case GetTable (selTable sel) s of
             Inl err \<Rightarrow> (Inl (ExecStorage err), s, w)
           | Inr p \<Rightarrow>
               (let meta = metas s ! p;
                    colMap = buildColumnMap (Columns meta);
                    outCols = resolveOutputColumns (selColumns sel) (Columns meta);
                    (ch, w) = SeqScan h halt p txid s w
                in case select_loop (selWhere sel) colMap outCols ch of
                     Inl err \<Rightarrow> (Inl (ExecStorage err), s, w)
                   | Inr rows \<Rightarrow>
                       (Inr \<lparr>resColumns = columnNames outCols, resColumnTypes = columnTypes outCols, resRows = rows,
                             Tag = ''SELECT '' @ fmt_d (int (length rows))\<rparr>, s, w))))"

text \<open>The scan and the loop over its channel, one row at a time; \<open>count\<close> rows are deleted so far.\<close>

function delete_loop ::
  "('w, 'e) hal \<Rightarrow> (int \<Rightarrow> bool) \<Rightarrow> TableMeta \<Rightarrow> Condition list \<Rightarrow> int gomap \<Rightarrow> int \<Rightarrow> int \<Rightarrow> int \<Rightarrow> int \<Rightarrow> Storage \<Rightarrow> 'w
     \<Rightarrow> ('e storage_error + int) \<times> Storage \<times> 'w" where
  "delete_loop h halt table conds colMap txid rowCount ri count s w =
     (if ri < rowCount then
        if halt ri then (Inr count, s, w)
        else
          (case scan_step h table txid ri w of
             (None, w) \<Rightarrow> delete_loop h halt table conds colMap txid rowCount (ri + 1) count s w
           | (Some (ScanErr err), w) \<Rightarrow> (Inl err, s, w)
           | (Some (ScanRow row), w) \<Rightarrow>
               if \<not> evaluateWhere row conds colMap then delete_loop h halt table conds colMap txid rowCount (ri + 1) count s w
               else
                 (case rowBlockPos row of
                    None \<Rightarrow> delete_loop h halt table conds colMap txid rowCount (ri + 1) count s w
                  | Some pos \<Rightarrow>
                      (case MarkDeleted h pos txid s w of
                         (Inl err, s, w) \<Rightarrow> (Inl err, s, w)
                       | (Inr _, s, w) \<Rightarrow> delete_loop h halt table conds colMap txid rowCount (ri + 1) (count + 1) s w)))
      else (Inr count, s, w))"
  by pat_completeness auto
termination
  by (relation "measure (\<lambda>(h, halt, table, conds, colMap, txid, rowCount, ri, count, s, w). nat (rowCount - ri))") auto

declare delete_loop.simps [simp del]

definition executeDelete ::
  "('w, 'e) hal \<Rightarrow> (int \<Rightarrow> bool) \<Rightarrow> Statement \<Rightarrow> int \<Rightarrow> Storage \<Rightarrow> 'w \<Rightarrow> ('e exec_error + Result) \<times> Storage \<times> 'w" where
  "executeDelete h halt stmt txid s w =
     (case stmtDelete stmt of
        None \<Rightarrow> (Inl NilDelete, s, w)
      | Some del \<Rightarrow>
          (case GetTable (delTable del) s of
             Inl err \<Rightarrow> (Inl (ExecStorage err), s, w)
           | Inr p \<Rightarrow>
               (let meta = metas s ! p; colMap = buildColumnMap (Columns meta)
                in case delete_loop h halt meta (delWhere del) colMap txid (RowCount meta) 0 0 s w of
                     (Inl err, s, w) \<Rightarrow> (Inl (ExecStorage err), s, w)
                   | (Inr count, s, w) \<Rightarrow> (Inr (tag_result (''DELETE '' @ fmt_d count)), s, w))))"

definition Execute ::
  "('w, 'e) hal \<Rightarrow> (int \<Rightarrow> bool) \<Rightarrow> Statement \<Rightarrow> int \<Rightarrow> Storage \<Rightarrow> 'w \<Rightarrow> ('e exec_error + Result) \<times> Storage \<times> 'w" where
  "Execute h halt stmt txid s w =
     (if stmtType stmt = StmtCreateTable then executeCreateTable h stmt s w
      else if stmtType stmt = StmtInsert then executeInsert h stmt txid s w
      else if stmtType stmt = StmtSelect then executeSelect h halt stmt txid s w
      else if stmtType stmt = StmtDelete then executeDelete h halt stmt txid s w
      else (Inl UnsupportedStatement, s, w))"

end
