(* ===== verification/Wire.thy ===== *)
theory Wire
  imports Executor
begin

text \<open>
  The two servers, \<open>internal/wire/server.go\<close> and \<open>internal/wire/chatserver.go\<close>. The PostgreSQL protocol itself is the package
  \<open>pgproto3\<close>: a connection is the list of messages it delivers, a receive fails at the end of the list, and the answer is the list of
  messages handed to \<open>Send\<close>, whose result the server ignores. The texts of errors other than the parser's own are parameters.
  The accept loops and the log output are left out.
\<close>

record FieldDescription =
  fdName :: bytes
  TableOID :: int
  TableAttributeNumber :: int
  DataTypeOID :: int
  DataTypeSize :: int
  TypeModifier :: int
  Format :: int

datatype BackendMessage =
    RowDescription "FieldDescription list"
  | DataRow "bytes option list"
  | CommandComplete bytes
  | ReadyForQuery char
  | ErrorResponse string string string
  | AuthenticationOk
  | ParameterStatus string string
  | BackendKeyData int int

datatype FrontendMessage = Query string | Terminate | PasswordMessage | OtherMessage

datatype StartupRequest = SSLRequest | GSSEncRequest | CancelRequest | StartupMessage | OtherStartup

text \<open>What goes out on a connection: a raw byte before the protocol starts, or a message.\<close>

datatype sent = RawByte byte | Message BackendMessage

text \<open>\<open>err.Error()\<close> of what \<open>Parse\<close> returns, with the texts of the grammar's own errors as a parameter.\<close>

fun parse_text :: "('e \<Rightarrow> string) \<Rightarrow> 'e parse_error \<Rightarrow> string" where
  "parse_text pt (PgError err) = ''parse: '' @ pt err"
| "parse_text pt NoStatements = ''parse: no statements found''"
| "parse_text pt UnsupportedType = ''parse: unsupported statement type''"

subsection \<open>The PostgreSQL server\<close>

definition typeToOID :: "string \<Rightarrow> int \<times> int" where
  "typeToOID t =
     (if t \<in> {''int4'', ''INT'', ''int'', ''integer''} then (23, 4)
      else if t \<in> {''int8'', ''BIGINT'', ''bigint''} then (20, 8)
      else if t \<in> {''int2'', ''SMALLINT'', ''smallint''} then (21, 2)
      else if t \<in> {''float4'', ''real''} then (700, 4)
      else if t \<in> {''float8'', ''FLOAT'', ''float'', ''double precision''} then (701, 8)
      else if t \<in> {''bool'', ''BOOLEAN'', ''boolean''} then (16, 1)
      else (25, - 1))"

definition encodeValue :: "goval \<Rightarrow> bytes option" where
  "encodeValue val =
     (if val = VNil then None
      else (case val of VString s \<Rightarrow> Some (bytes_of_string s) | v \<Rightarrow> Some (bytes_of_string (fmt_v v))))"

definition sendError :: "string \<Rightarrow> string \<Rightarrow> BackendMessage list" where
  "sendError code message = [ErrorResponse ''ERROR'' code message]"

definition field_of :: "Result \<Rightarrow> nat \<times> string \<Rightarrow> FieldDescription" where
  "field_of result p =
     (let (i, name) = p; (oid, size) = typeToOID (resColumnTypes result ! i)
      in \<lparr>fdName = bytes_of_string name, TableOID = 0, TableAttributeNumber = 0, DataTypeOID = oid, DataTypeSize = size,
          TypeModifier = - 1, Format = 0\<rparr>)"

definition sendSelectResult :: "Result \<Rightarrow> BackendMessage list" where
  "sendSelectResult result =
     RowDescription (map (field_of result) (enumerate 0 (resColumns result))) #
     map (\<lambda>row. DataRow (map encodeValue row)) (resRows result) @
     [CommandComplete (bytes_of_string (Tag result))]"

definition handleQuery ::
  "('n, 'pe) pg_query \<Rightarrow> ('pe \<Rightarrow> string) \<Rightarrow> ('e exec_error \<Rightarrow> string) \<Rightarrow> ('w, 'e) hal \<Rightarrow> (int \<Rightarrow> bool) \<Rightarrow> string \<Rightarrow> Storage \<Rightarrow> 'w
     \<Rightarrow> BackendMessage list \<times> Storage \<times> 'w" where
  "handleQuery pg pt et h halt sql s w =
     (case Parse pg sql of
        Inl err \<Rightarrow> (sendError ''42601'' (''syntax error: '' @ parse_text pt err) @ [ReadyForQuery (CHR ''I'')], s, w)
      | Inr stmt \<Rightarrow>
          (case Execute h halt stmt 1 s w of
             (Inl err, s, w) \<Rightarrow> (sendError ''0A000'' (et err) @ [ReadyForQuery (CHR ''I'')], s, w)
           | (Inr result, s, w) \<Rightarrow>
               ((if stmtType stmt = StmtSelect then sendSelectResult result
                 else if stmtType stmt = StmtInsert \<or> stmtType stmt = StmtCreateTable \<or> stmtType stmt = StmtDelete
                 then [CommandComplete (bytes_of_string (Tag result))]
                 else []) @ [ReadyForQuery (CHR ''I'')], s, w)))"

text \<open>Each request comes with whether the answer to it can be written.\<close>

fun startupHandshake :: "(StartupRequest \<times> bool) list \<Rightarrow> sent list \<times> bool" where
  "startupHandshake [] = ([], False)"
| "startupHandshake ((msg, written) # msgs) =
     (case msg of
        SSLRequest \<Rightarrow> if \<not> written then ([], False) else (let (out, ok) = startupHandshake msgs in (RawByte 0x4E # out, ok))
      | GSSEncRequest \<Rightarrow> if \<not> written then ([], False) else (let (out, ok) = startupHandshake msgs in (RawByte 0x4E # out, ok))
      | CancelRequest \<Rightarrow> ([], False)
      | StartupMessage \<Rightarrow>
          (map Message
             [AuthenticationOk, ParameterStatus ''server_version'' ''15.0'', ParameterStatus ''client_encoding'' ''UTF8'',
              ParameterStatus ''standard_conforming_strings'' ''on'', BackendKeyData 1 0, ReadyForQuery (CHR ''I'')], True)
      | OtherStartup \<Rightarrow> startupHandshake msgs)"

text \<open>The loop over the messages of a client.\<close>

fun serve_loop ::
  "('n, 'pe) pg_query \<Rightarrow> ('pe \<Rightarrow> string) \<Rightarrow> ('e exec_error \<Rightarrow> string) \<Rightarrow> ('w, 'e) hal \<Rightarrow> (int \<Rightarrow> bool) \<Rightarrow> FrontendMessage list \<Rightarrow> Storage \<Rightarrow> 'w
     \<Rightarrow> BackendMessage list \<times> Storage \<times> 'w" where
  "serve_loop pg pt et h halt [] s w = ([], s, w)"
| "serve_loop pg pt et h halt (m # msgs) s w =
     (case m of
        Query sql \<Rightarrow>
          (let (out, s, w) = handleQuery pg pt et h halt sql s w; (outs, s, w) = serve_loop pg pt et h halt msgs s w
           in (out @ outs, s, w))
      | Terminate \<Rightarrow> ([], s, w)
      | PasswordMessage \<Rightarrow> serve_loop pg pt et h halt msgs s w
      | OtherMessage \<Rightarrow>
          (let (outs, s, w) = serve_loop pg pt et h halt msgs s w
           in (sendError ''0A000'' ''not implemented'' @ [ReadyForQuery (CHR ''I'')] @ outs, s, w)))"

definition handleConn ::
  "('n, 'pe) pg_query \<Rightarrow> ('pe \<Rightarrow> string) \<Rightarrow> ('e exec_error \<Rightarrow> string) \<Rightarrow> ('w, 'e) hal \<Rightarrow> (int \<Rightarrow> bool) \<Rightarrow> (StartupRequest \<times> bool) list \<Rightarrow>
     FrontendMessage list \<Rightarrow> Storage \<Rightarrow> 'w \<Rightarrow> sent list \<times> Storage \<times> 'w" where
  "handleConn pg pt et h halt startup msgs s w =
     (let (hello, ok) = startupHandshake startup in
      if \<not> ok then (hello, s, w)
      else (let (outs, s, w) = serve_loop pg pt et h halt msgs s w in (hello @ map Message outs, s, w)))"

subsection \<open>The chat server\<close>

record chatResponse =
  chatColumns :: "string list"
  chatRows :: "string list list"
  chatRowCount :: int
  chatTruncated :: bool

definition rowsToStrings :: "goval list list \<Rightarrow> string list list" where
  "rowsToStrings rows = map (map fmt_v) rows"

text \<open>\<open>json.Marshal\<close> of a response: its fields in order, under the names of their tags.\<close>

definition response_json :: "chatResponse \<Rightarrow> json" where
  "response_json r =
     JObj [(''columns'', JArr (map JStr (chatColumns r))),
           (''rows'', JArr (map (\<lambda>row. JArr (map JStr row)) (chatRows r))),
           (''row_count'', JNum (fmt_d (chatRowCount r))),
           (''truncated'', JBool (chatTruncated r))]"

definition newline :: string where
  "newline = [CHR 0x0A]"

definition writeSuccess :: "string \<Rightarrow> string" where
  "writeSuccess line = line @ newline"

definition writeError :: "string \<Rightarrow> string" where
  "writeError message = print_json (JObj [(''error'', JStr message)]) @ newline"

text \<open>The line of a client, if it could be read, and what is written back.\<close>

definition chat_handleConn ::
  "('n, 'pe) pg_query \<Rightarrow> ('pe \<Rightarrow> string) \<Rightarrow> ('e exec_error \<Rightarrow> string) \<Rightarrow> ('w, 'e) hal \<Rightarrow> (int \<Rightarrow> bool) \<Rightarrow> string option \<Rightarrow> Storage \<Rightarrow> 'w
     \<Rightarrow> string \<times> Storage \<times> 'w" where
  "chat_handleConn pg pt et h halt line s w =
     (case line of
        None \<Rightarrow> ([], s, w)
      | Some query \<Rightarrow>
          if length query > 10 * 1024 * 1024 then (writeError ''query too large'', s, w)
          else
            (case Parse pg query of
               Inl err \<Rightarrow> (writeError (''syntax error: '' @ parse_text pt err), s, w)
             | Inr stmt \<Rightarrow>
                 (case Execute h halt stmt 1 s w of
                    (Inl err, s, w) \<Rightarrow> (writeError (et err), s, w)
                  | (Inr result, s, w) \<Rightarrow>
                      (let resp = \<lparr>chatColumns = resColumns result, chatRows = rowsToStrings (resRows result),
                                   chatRowCount = int (length (resRows result)), chatTruncated = False\<rparr>
                       in (writeSuccess (print_json (response_json resp)), s, w)))))"

subsection \<open>The shape of the answers\<close>

definition no_ready :: "BackendMessage list \<Rightarrow> bool" where
  "no_ready ms \<longleftrightarrow> (\<forall>c. ReadyForQuery c \<notin> set ms)"

text \<open>An answer of the protocol: an error, a tag, or a description with rows of as many values as it has fields and a tag.\<close>

definition answer_ok :: "BackendMessage list \<Rightarrow> bool" where
  "answer_ok ms \<longleftrightarrow>
     (\<exists>code text. ms = [ErrorResponse ''ERROR'' code text]) \<or> (\<exists>tag. ms = [CommandComplete tag]) \<or>
     (\<exists>fields rows tag. ms = RowDescription fields # map DataRow rows @ [CommandComplete tag] \<and> (\<forall>r \<in> set rows. length r = length fields))"

lemma answer_ok_error [simp]: "answer_ok (sendError code text)"
  by (simp add: answer_ok_def sendError_def)

lemma answer_no_ready: "answer_ok ms \<Longrightarrow> no_ready ms"
  by (auto simp: answer_ok_def no_ready_def)

text \<open>Every parsed statement has exactly the part its type names.\<close>

definition stmt_ok :: "Statement \<Rightarrow> bool" where
  "stmt_ok st \<longleftrightarrow>
     (\<exists>x. st = (empty_statement StmtSelect)\<lparr>stmtSelect := Some x\<rparr>) \<or> (\<exists>x. st = (empty_statement StmtInsert)\<lparr>stmtInsert := Some x\<rparr>) \<or>
     (\<exists>x. st = (empty_statement StmtCreateTable)\<lparr>stmtCreateTable := Some x\<rparr>) \<or> (\<exists>x. st = (empty_statement StmtDelete)\<lparr>stmtDelete := Some x\<rparr>)"

lemma Parse_ok: "Parse pg sql = Inr st \<Longrightarrow> stmt_ok st"
  by (auto simp: Parse_def parseSelect_def parseInsert_def parseCreateTable_def parseDelete_def stmt_ok_def Let_def
      split: sum.splits if_splits option.splits)

lemma select_loop_lengths: "select_loop conds m out rs = Inr rows \<Longrightarrow> \<forall>r \<in> set rows. length r = length out"
proof (induction rs arbitrary: rows)
  case (Cons r rs)
  then show ?case by (cases r) (auto simp: output_row_def split: if_splits sum.splits)
qed simp

lemma executeSelect_lengths:
  assumes "executeSelect h halt stmt txid s w = (Inr r, s', w')"
  shows "length (resColumnTypes r) = length (resColumns r)" "\<forall>row \<in> set (resRows r). length row = length (resColumns r)"
  using assms
  by (auto simp: executeSelect_def columnNames_def columnTypes_def Let_def split: option.splits sum.splits prod.splits dest!: select_loop_lengths)

lemma sendSelectResult_ok:
  assumes "\<forall>row \<in> set (resRows r). length row = length (resColumns r)"
  shows "answer_ok (sendSelectResult r)"
proof -
  have "sendSelectResult r = RowDescription (map (field_of r) (enumerate 0 (resColumns r))) #
      map DataRow (map (map encodeValue) (resRows r)) @ [CommandComplete (bytes_of_string (Tag r))]"
    by (simp add: sendSelectResult_def)
  moreover have "\<forall>v \<in> set (map (map encodeValue) (resRows r)). length v = length (map (field_of r) (enumerate 0 (resColumns r)))"
    using assms by simp
  ultimately show ?thesis unfolding answer_ok_def by blast
qed

lemmas stmt_type_consts = StmtSelect_def StmtInsert_def StmtCreateTable_def StmtDelete_def empty_statement_def

definition asks :: "FrontendMessage \<Rightarrow> bool" where
  "asks m \<longleftrightarrow> (case m of Query _ \<Rightarrow> True | OtherMessage \<Rightarrow> True | _ \<Rightarrow> False)"

definition requests :: "FrontendMessage list \<Rightarrow> FrontendMessage list" where
  "requests msgs = filter asks (takeWhile (\<lambda>m. m \<noteq> Terminate) msgs)"

text \<open>
  What the protocol owes a request: the messages before the ready-for-query message, and the storage and the world the request
  leaves. An error of the grammar leaves both alone; an error of the execution is reported as it is; the rows of a result go
  out in order, each value as text under the type of its column.
\<close>

definition column_field :: "string \<Rightarrow> string \<Rightarrow> FieldDescription" where
  "column_field name t =
     \<lparr>fdName = bytes_of_string name, TableOID = 0, TableAttributeNumber = 0, DataTypeOID = fst (typeToOID t),
      DataTypeSize = snd (typeToOID t), TypeModifier = - 1, Format = 0\<rparr>"

definition wire_value :: "goval \<Rightarrow> bytes option" where
  "wire_value v = (if v = VNil then None else Some (bytes_of_string (fmt_v v)))"

inductive answers ::
  "('n, 'pe) pg_query \<Rightarrow> ('pe \<Rightarrow> string) \<Rightarrow> ('e exec_error \<Rightarrow> string) \<Rightarrow> ('w, 'e) hal \<Rightarrow> (int \<Rightarrow> bool) \<Rightarrow>
     FrontendMessage \<Rightarrow> Storage \<times> 'w \<Rightarrow> BackendMessage list \<Rightarrow> Storage \<times> 'w \<Rightarrow> bool"
  for pg pt et h halt where
  syntax_error:
    "Parse pg sql = Inl err \<Longrightarrow>
     answers pg pt et h halt (Query sql) st [ErrorResponse ''ERROR'' ''42601'' (''syntax error: '' @ parse_text pt err)] st"
| execution_error:
    "Parse pg sql = Inr stmt \<Longrightarrow> Execute h halt stmt 1 s w = (Inl err, s', w') \<Longrightarrow>
     answers pg pt et h halt (Query sql) (s, w) [ErrorResponse ''ERROR'' ''0A000'' (et err)] (s', w')"
| result_rows:
    "Parse pg sql = Inr stmt \<Longrightarrow> stmtType stmt = StmtSelect \<Longrightarrow> Execute h halt stmt 1 s w = (Inr r, s', w') \<Longrightarrow>
     answers pg pt et h halt (Query sql) (s, w)
       (RowDescription (map2 column_field (resColumns r) (resColumnTypes r)) #
        map (\<lambda>row. DataRow (map wire_value row)) (resRows r) @ [CommandComplete (bytes_of_string (Tag r))]) (s', w')"
| result_tag:
    "Parse pg sql = Inr stmt \<Longrightarrow> stmtType stmt \<noteq> StmtSelect \<Longrightarrow> Execute h halt stmt 1 s w = (Inr r, s', w') \<Longrightarrow>
     answers pg pt et h halt (Query sql) (s, w) [CommandComplete (bytes_of_string (Tag r))] (s', w')"
| unknown_message:
    "answers pg pt et h halt OtherMessage st [ErrorResponse ''ERROR'' ''0A000'' ''not implemented''] st"

text \<open>The answers to a list of requests, each one executed where the one before it ended.\<close>

inductive dialogue ::
  "('n, 'pe) pg_query \<Rightarrow> ('pe \<Rightarrow> string) \<Rightarrow> ('e exec_error \<Rightarrow> string) \<Rightarrow> ('w, 'e) hal \<Rightarrow> (int \<Rightarrow> bool) \<Rightarrow>
     FrontendMessage list \<Rightarrow> Storage \<times> 'w \<Rightarrow> BackendMessage list list \<Rightarrow> Storage \<times> 'w \<Rightarrow> bool"
  for pg pt et h halt where
  no_request: "dialogue pg pt et h halt [] st [] st"
| request: "answers pg pt et h halt m st a st1 \<Longrightarrow> dialogue pg pt et h halt ms st1 as st2 \<Longrightarrow> dialogue pg pt et h halt (m # ms) st (a # as) st2"

inductive_cases dialogue_NilE: "dialogue pg pt et h halt [] st as st'"
inductive_cases dialogue_ConsE: "dialogue pg pt et h halt (m # ms) st as st'"

lemma answers_unique:
  assumes "answers pg pt et h halt m st a st'" "answers pg pt et h halt m st b st''"
  shows "a = b \<and> st' = st''"
  using assms(1) by cases (use assms(2) in \<open>cases; auto\<close>)+

lemma dialogue_unique:
  "dialogue pg pt et h halt ms st as st' \<Longrightarrow> dialogue pg pt et h halt ms st bs st'' \<Longrightarrow> as = bs \<and> st' = st''"
proof (induction arbitrary: bs st'' rule: dialogue.induct)
  case (request m st a st1 ms as st2)
  from request.prems obtain b st1' bs' where
    b: "bs = b # bs'" "answers pg pt et h halt m st b st1'" "dialogue pg pt et h halt ms st1' bs' st''" by (rule dialogue_ConsE)
  from answers_unique [OF request.hyps(1) b(2)] have "a = b" "st1' = st1" by auto
  with request.IH [of bs' st''] b show ?case by simp
qed (auto elim: dialogue_NilE)

lemma encodeValue_wire: "encodeValue = wire_value"
proof
  fix v show "encodeValue v = wire_value v" by (cases v) (simp_all add: encodeValue_def wire_value_def)
qed

lemma sendSelectResult_fields:
  assumes "length (resColumnTypes r) = length (resColumns r)"
  shows "sendSelectResult r = RowDescription (map2 column_field (resColumns r) (resColumnTypes r)) #
    map (\<lambda>row. DataRow (map wire_value row)) (resRows r) @ [CommandComplete (bytes_of_string (Tag r))]"
proof -
  have "map (field_of r) (enumerate 0 (resColumns r)) = map2 column_field (resColumns r) (resColumnTypes r)"
    using assms by (intro nth_equalityI) (simp_all add: field_of_def column_field_def nth_enumerate_eq split: prod.splits)
  then show ?thesis by (simp add: sendSelectResult_def encodeValue_wire)
qed

lemma handleQuery_answers:
  assumes "handleQuery pg pt et h halt sql s w = (out, s', w')"
  shows "\<exists>a. out = a @ [ReadyForQuery (CHR ''I'')] \<and> answers pg pt et h halt (Query sql) (s, w) a (s', w')"
proof (cases "Parse pg sql")
  case (Inl err)
  then show ?thesis using assms syntax_error [OF Inl, of pt et h halt "(s, w)"] by (auto simp: handleQuery_def sendError_def)
next
  case (Inr stmt)
  note parsed = this
  obtain r s1 w1 where ex: "Execute h halt stmt 1 s w = (r, s1, w1)" by (metis prod_cases3)
  show ?thesis
  proof (cases r)
    case (Inl err)
    then show ?thesis using assms parsed ex by (auto simp: handleQuery_def sendError_def intro: execution_error)
  next
    case (Inr res)
    show ?thesis
    proof (cases "stmtType stmt = StmtSelect")
      case True
      then have "executeSelect h halt stmt 1 s w = (Inr res, s1, w1)" using ex Inr by (simp add: Execute_def stmt_type_consts)
      note sendSelectResult_fields [OF executeSelect_lengths(1) [OF this]]
      then show ?thesis using assms parsed ex Inr True result_rows [OF parsed True] by (auto simp: handleQuery_def)
    next
      case False
      then have "stmtType stmt = StmtInsert \<or> stmtType stmt = StmtCreateTable \<or> stmtType stmt = StmtDelete"
        using Parse_ok [OF parsed] by (auto simp: stmt_ok_def empty_statement_def)
      then show ?thesis using assms parsed ex Inr False by (auto simp: handleQuery_def intro: result_tag)
    qed
  qed
qed

lemma answers_shape:
  assumes "answers pg pt et h halt m st a st'"
  shows "answer_ok a"
  using assms
proof cases
  case (result_rows sql stmt s w r s' w')
  then have "executeSelect h halt stmt 1 s w = (Inr r, s', w')" by (simp add: Execute_def stmt_type_consts)
  note executeSelect_lengths [OF this]
  then show ?thesis
    using sendSelectResult_ok [of r] sendSelectResult_fields [of r] result_rows(3) by simp
qed (simp_all add: answer_ok_def)

lemma dialogue_shape: "dialogue pg pt et h halt ms st as st' \<Longrightarrow> list_all answer_ok as \<and> length as = length ms"
  by (induction rule: dialogue.induct) (simp_all add: answers_shape)

lemma serve_loop_dialogue:
  "serve_loop pg pt et h halt msgs s w = (out, s', w') \<Longrightarrow>
   \<exists>as. out = concat (map (\<lambda>a. a @ [ReadyForQuery (CHR ''I'')]) as) \<and> dialogue pg pt et h halt (requests msgs) (s, w) as (s', w')"
proof (induction msgs arbitrary: out s w)
  case Nil
  then show ?case by (simp add: requests_def no_request)
next
  case (Cons m msgs)
  show ?case
  proof (cases m)
    case (Query sql)
    obtain o1 s1 w1 where 1: "handleQuery pg pt et h halt sql s w = (o1, s1, w1)" by (metis prod_cases3)
    obtain o2 s2 w2 where 2: "serve_loop pg pt et h halt msgs s1 w1 = (o2, s2, w2)" by (metis prod_cases3)
    have out: "out = o1 @ o2" "s2 = s'" "w2 = w'" using Cons.prems Query 1 2 by auto
    with 2 Cons.IH [of s1 w1 o2] obtain as where
      as: "o2 = concat (map (\<lambda>a. a @ [ReadyForQuery (CHR ''I'')]) as)" "dialogue pg pt et h halt (requests msgs) (s1, w1) as (s', w')" by auto
    from handleQuery_answers [OF 1] obtain a where
      a: "o1 = a @ [ReadyForQuery (CHR ''I'')]" "answers pg pt et h halt (Query sql) (s, w) a (s1, w1)" by blast
    show ?thesis
      by (rule exI [of _ "a # as"]) (use request [OF a(2) as(2)] a(1) as(1) out Query in \<open>simp add: requests_def asks_def\<close>)
  next
    case OtherMessage
    obtain o2 s2 w2 where 2: "serve_loop pg pt et h halt msgs s w = (o2, s2, w2)" by (metis prod_cases3)
    have out: "out = sendError ''0A000'' ''not implemented'' @ [ReadyForQuery (CHR ''I'')] @ o2" "s2 = s'" "w2 = w'"
      using Cons.prems OtherMessage 2 by auto
    with 2 Cons.IH [of s w o2] obtain as where
      as: "o2 = concat (map (\<lambda>a. a @ [ReadyForQuery (CHR ''I'')]) as)" "dialogue pg pt et h halt (requests msgs) (s, w) as (s', w')" by auto
    show ?thesis
      by (rule exI [of _ "sendError ''0A000'' ''not implemented'' # as"])
         (use request [OF unknown_message as(2)] as(1) out OtherMessage in \<open>simp add: requests_def asks_def sendError_def\<close>)
  qed (use Cons in \<open>auto simp: requests_def asks_def no_request\<close>)
qed

subsection \<open>Properties\<close>


text \<open>
  Property C31: parsed statements are executable. \<open>Parse\<close> fails exactly when the grammar does, when there is no statement, or when the first one is of
  another kind; a statement it returns has exactly the part its type names, so executing it never ends in one of the errors for
  a missing part or an unknown type.
\<close>

theorem parsed_statement_executes:
  "(isl (Parse pg sql) \<longleftrightarrow>
      (case pg_Parse pg sql of
         Inl _ \<Rightarrow> True
       | Inr stmts \<Rightarrow>
           stmts = [] \<or> list_all (\<lambda>get. Option.bind (GetStmt pg (hd stmts)) get = None) [GetSelectStmt pg, GetInsertStmt pg, GetCreateStmt pg, GetDeleteStmt pg])) \<and>
   (case Parse pg sql of
      Inl _ \<Rightarrow> True
    | Inr stmt \<Rightarrow> fst (Execute h halt stmt txid s w) \<notin> Inl ` {UnsupportedStatement, NilCreateTable, NilInsert, NilSelect, NilDelete})"
proof (intro conjI)
  show "isl (Parse pg sql) \<longleftrightarrow>
      (case pg_Parse pg sql of
         Inl _ \<Rightarrow> True
       | Inr stmts \<Rightarrow>
           stmts = [] \<or> list_all (\<lambda>get. Option.bind (GetStmt pg (hd stmts)) get = None) [GetSelectStmt pg, GetInsertStmt pg, GetCreateStmt pg, GetDeleteStmt pg])"
    by (auto simp: Parse_def Let_def hd_conv_nth split: sum.splits option.splits)
  have "fst (Execute h halt stmt txid s w) \<notin> Inl ` {UnsupportedStatement, NilCreateTable, NilInsert, NilSelect, NilDelete}"
    if "stmt_ok stmt" for stmt
    using that
    by (auto simp: stmt_ok_def Execute_def stmt_type_consts executeSelect_def executeInsert_def executeDelete_def executeCreateTable_def Let_def
        split: sum.splits prod.splits)
  then show "case Parse pg sql of
      Inl _ \<Rightarrow> True
    | Inr stmt \<Rightarrow> fst (Execute h halt stmt txid s w) \<notin> Inl ` {UnsupportedStatement, NilCreateTable, NilInsert, NilSelect, NilDelete}"
    using Parse_ok by (auto split: sum.splits)
qed

end
