(* ===== verification/Rows.thy ===== *)
theory Rows
  imports Storage
begin

text \<open>
  Rows as strips of blocks: what \<open>InsertRow\<close> writes, what \<open>decodeStrip\<close> reads, and the specification of a
  table they implement. A table is, abstractly, the list of the versions of its rows, each with the
  transaction that inserted it, the one that deleted it (if any) and its values; a table of
  the storage layer represents it when the strip of every row holds the encoding of its version.
\<close>

subsection \<open>The blocks of a row\<close>

fun banner_data :: "ColumnDef list \<Rightarrow> goval gomap \<Rightarrow> bytes list" where
  "banner_data [] vals = []"
| "banner_data (col # cols) vals =
     (let val = getColumnValue vals col in
      if colType col = ''INT'' then bytes_of_string (EncodeInt32 (toInt32 val)) # banner_data cols vals
      else if colType col = ''BIGINT'' then
        bytes_of_string (fst (EncodeInt64 (toInt64 val))) # bytes_of_string (snd (EncodeInt64 (toInt64 val))) # banner_data cols vals
      else if colType col = ''BOOLEAN'' then bytes_of_string (EncodeBool (toBool val)) # banner_data cols vals
      else banner_data cols vals)"

fun sign_data :: "ColumnDef list \<Rightarrow> goval gomap \<Rightarrow> bytes list" where
  "sign_data [] vals = []"
| "sign_data (col # cols) vals =
     (if colType col = ''TEXT''
      then encodeSignData (EncodeText (toString (getColumnValue vals col))) # sign_data cols vals
      else sign_data cols vals)"

text \<open>Writes to consecutive blocks of one strip, none of them empty.\<close>

fun seq_writes :: "int \<Rightarrow> int \<Rightarrow> int \<Rightarrow> BlockWrite list \<Rightarrow> bool" where
  "seq_writes y z off [] = True"
| "seq_writes y z off (bw # bws) = (Pos bw = mk_pos off y z \<and> Data bw \<noteq> [] \<and> seq_writes y z (off + 1) bws)"

lemma seq_writes_append:
  "seq_writes y z off (a @ b) \<longleftrightarrow> seq_writes y z off a \<and> seq_writes y z (off + int (length a)) b"
  by (induction a arbitrary: off) (auto simp: add.assoc add.commute)

lemma put_writes_seq:
  "seq_writes y z off ws \<Longrightarrow>
   put_writes ws b (x, y', z') =
     (if y' = y \<and> z' = z \<and> off \<le> x \<and> x < off + int (length ws) then Some (Data (ws ! nat (x - off))) else b (x, y', z'))"
proof (induction ws arbitrary: off b)
  case (Cons bw ws)
  have "nat (x - off) = Suc (nat (x - (off + 1)))" if "off + 1 \<le> x" using that by linarith
  then show ?case
    using Cons by (auto simp: put_write_def put_block_apply nth_Cons')
qed auto

lemma encodeSignData_ne [simp]: "encodeSignData lines \<noteq> []"
  by (simp add: encodeSignData_def nul_def)

lemma encoded_ne [simp]:
  "EncodeInt32 v \<noteq> []" "EncodeBool p \<noteq> []" "fst (EncodeInt64 n) \<noteq> []" "snd (EncodeInt64 n) \<noteq> []" "nullHex \<noteq> []"
  using length_EncodeInt32 [of v] length_EncodeBool [of p] length_EncodeInt64 [of n] length_nullHex by fastforce+

lemma banner_write_sel [simp]: "Pos (banner_write x y z e) = mk_pos x y z" "Data (banner_write x y z e) = bytes_of_string e"
  by (simp_all add: banner_write_def)

lemma banner_writes_data:
  assumes "banner_writes cols vals y z off = (ws, off')"
  shows "map Data ws = banner_data cols vals \<and> seq_writes y z off ws \<and> off' = off + int (length ws)"
  using assms
proof (induction cols arbitrary: off ws off')
  case (Cons col cols)
  let ?v = "getColumnValue vals col"
  obtain s1 s2 where e: "EncodeInt64 (toInt64 ?v) = (s1, s2)" by fastforce
  then have ne: "s1 \<noteq> []" "s2 \<noteq> []" using encoded_ne(3,4) [of "toInt64 ?v"] by simp_all
  obtain ws0 off0 where 0: "banner_writes cols vals y z off = (ws0, off0)" by fastforce
  obtain ws1 off1 where 1: "banner_writes cols vals y z (off + 1) = (ws1, off1)" by fastforce
  obtain ws2 off2 where 2: "banner_writes cols vals y z (off + 2) = (ws2, off2)" by fastforce
  from Cons.prems Cons.IH [OF 0] Cons.IH [OF 1] Cons.IH [OF 2] ne show ?case
    by (auto simp: Let_def 0 1 2 e add.commute [of 2] split: if_splits)
qed simp

lemma sign_writes_data:
  "map Data (sign_writes cols vals y z off) = sign_data cols vals \<and> seq_writes y z off (sign_writes cols vals y z off)"
  by (induction cols arbitrary: off) (auto simp: Let_def)

lemma row_writes_data:
  "map Data (row_writes cols vals txid y z) =
     map bytes_of_string [fst (EncodeInt64 txid), snd (EncodeInt64 txid), nullHex, nullHex] @ banner_data cols vals @ sign_data cols vals"
  "seq_writes y z 0 (row_writes cols vals txid y z)"
proof -
  obtain ws off where b: "banner_writes cols vals y z 4 = (ws, off)" by fastforce
  obtain m0 m1 where m: "EncodeInt64 txid = (m0, m1)" by fastforce
  note d = banner_writes_data [OF b] sign_writes_data [of cols vals y z off]
  from d show "map Data (row_writes cols vals txid y z) =
     map bytes_of_string [fst (EncodeInt64 txid), snd (EncodeInt64 txid), nullHex, nullHex] @ banner_data cols vals @ sign_data cols vals"
    by (simp add: row_writes_def b m EncodeNull_def)
  from d encoded_ne(3,4) [of txid] show "seq_writes y z 0 (row_writes cols vals txid y z)"
    by (simp add: row_writes_def b m EncodeNull_def seq_writes_append)
qed

lemma length_banner_data: "length (banner_data cols vals) = numBanners cols"
  by (induction cols) (auto simp: Let_def)

lemma stripWidth_loop: "stripWidth_loop cols w = w + int (length (banner_data cols vals) + length (sign_data cols vals))"
  by (induction cols arbitrary: w) (auto simp: Let_def)

lemma stripWidth_eq: "stripWidth cols = 4 + int (length (banner_data cols vals) + length (sign_data cols vals))"
  using stripWidth_loop [of cols 4 vals] by (simp add: stripWidth_def)

subsection \<open>Reading a row back\<close>

text \<open>
  What a column keeps of a value: a number reduced to the width of the column, a truth value, a text cut
  to the size of a sign; a column of any other type keeps nothing.
\<close>

definition clip :: "string \<Rightarrow> string" where
  "clip s = (if length s \<le> 64 then s else take 61 s @ ''...'')"

definition stored :: "ColumnDef \<Rightarrow> goval \<Rightarrow> goval option" where
  "stored col v =
     (if colType col = ''INT'' then Some (VInt32 (toInt32 v))
      else if colType col = ''BIGINT'' then Some (VInt64 (toInt64 v))
      else if colType col = ''BOOLEAN'' then Some (VBool (toBool v))
      else if colType col = ''TEXT'' then Some (VString (clip (toString v)))
      else None)"

definition set_stored :: "goval gomap \<Rightarrow> ColumnDef \<Rightarrow> Row \<Rightarrow> Row" where
  "set_stored vals col row =
     (case stored col (getColumnValue vals col) of
        None \<Rightarrow> row
      | Some v \<Rightarrow> AList.update (col_key (colOrdinal col)) v row)"

text \<open>Values in the range of their Go types, with no NUL where the column separates lines by it.\<close>

fun goval_ok :: "goval \<Rightarrow> bool" where
  "goval_ok (VInt i) = in_i64 i"
| "goval_ok (VInt64 i) = in_i64 i"
| "goval_ok (VInt32 i) = in_i32 i"
| "goval_ok _ = True"

definition storable :: "ColumnDef \<Rightarrow> goval \<Rightarrow> bool" where
  "storable col v \<longleftrightarrow> goval_ok v \<and> (colType col = ''TEXT'' \<longrightarrow> CHR 0x00 \<notin> set (toString v))"

definition row_storable :: "ColumnDef list \<Rightarrow> goval gomap \<Rightarrow> bool" where
  "row_storable cols vals \<longleftrightarrow> (\<forall>col \<in> set cols. storable col (getColumnValue vals col))"

lemma number_int64_range [simp]: "in_i64 (number_int64 s)"
  using ParseInt_range [of s] by (cases "ParseInt s") (simp add: number_int64_def)

lemma f64_int_range [simp]: "in_i64 (int64_of_f64 f)" "in_i32 (int32_of_f64 f)"
  by (auto simp: int64_of_f64_def int32_of_f64_def in_i64_def in_i32_def split: option.splits)

lemma toInt32_range: "goval_ok v \<Longrightarrow> in_i32 (toInt32 v)"
  by (cases v) (auto simp: in_i32_def [of 0])

lemma toInt64_range: "goval_ok v \<Longrightarrow> in_i64 (toInt64 v)"
  by (cases v) (auto simp: in_i64_def [of 0] in_i32_in_i64)

lemma clip_text: "DecodeText (EncodeText s) = clip s"
  using decode_encode_text [of s] by (simp add: clip_def codec_consts)

text \<open>The lines of a sign, separated by NUL.\<close>

lemma EncodeText_set: "l \<in> set (EncodeText s) \<Longrightarrow> set l \<subseteq> set s \<union> {CHR ''.''}"
  by (cases "length s \<le> signMaxLen")
     (auto simp: EncodeText_short EncodeText_long dest!: in_set_takeD in_set_dropD)

lemma decode_encode_sign:
  assumes "length lines = 4" "\<forall>l \<in> set lines. CHR 0x00 \<notin> set l"
  shows "decodeSignData (encodeSignData lines) = lines"
proof -
  obtain a b c d where l: "lines = [a, b, c, d]"
    using assms(1) by (auto simp: numeral_eq_Suc length_Suc_conv)
  have sep: "sep_safe nul t" if "CHR 0x00 \<notin> set t" for t using that by (simp add: nul_def sep_safe_char)
  have "sep_safe nul a" "sep_safe nul b" "sep_safe nul c" using sep assms(2) l by auto
  then have "SplitN (a @ nul @ b @ nul @ c @ nul @ d) nul (Suc (Suc (Suc (Suc 0)))) = [a, b, c, d]"
    by (simp add: SplitN_append_sep del: SplitN.simps(3))
  then show ?thesis by (simp add: decodeSignData_def encodeSignData_def l eval_nat_numeral del: SplitN.simps(3))
qed

lemma decode_sign:
  assumes "CHR 0x00 \<notin> set s"
  shows "DecodeText (decodeSignData (encodeSignData (EncodeText s))) = clip s"
proof -
  have "\<forall>l \<in> set (EncodeText s). CHR 0x00 \<notin> set l" using EncodeText_set [of _ s] assms by fastforce
  then show ?thesis using decode_encode_sign [of "EncodeText s"] by (simp add: clip_text)
qed

text \<open>The loop over the columns, from any column on: \<open>bpre\<close> and \<open>spre\<close> are the banners and signs before it.\<close>

lemma decode_columns_data:
  assumes "row_storable cols vals" "nb = length bpre + length (banner_data cols vals)"
  shows "decode_columns (map Some (bpre @ banner_data cols vals @ spre @ sign_data cols vals)) nb cols (length bpre) (length spre) row =
    fold (set_stored vals) cols row"
  using assms
proof (induction cols arbitrary: bpre spre row)
  case (Cons col cols)
  let ?v = "getColumnValue vals col" and ?B = "banner_data cols vals" and ?S = "sign_data cols vals"
  have st: "storable col ?v" and rest: "row_storable cols vals"
    using Cons.prems by (simp_all add: row_storable_def)
  have ok: "goval_ok ?v" using st by (simp add: storable_def)
  note IH = Cons.IH [OF rest]
  consider (int) "colType col = ''INT''" | (big) "colType col = ''BIGINT''" | (bool) "colType col = ''BOOLEAN''"
    | (sign) "colType col = ''TEXT''" | (other) "colType col \<notin> {''INT'', ''BIGINT'', ''BOOLEAN'', ''TEXT''}" by blast
  then show ?case
  proof cases
    case int
    then show ?thesis
      using IH [of "bpre @ [bytes_of_string (EncodeInt32 (toInt32 ?v))]" spre] Cons.prems(2) toInt32_range [OF ok]
      by (simp add: nth_append set_decoded_def set_stored_def stored_def Let_def)
  next
    case big
    have "DecodeInt64 (fst (EncodeInt64 (toInt64 ?v))) (snd (EncodeInt64 (toInt64 ?v))) = Inr (toInt64 ?v)"
      by (rule decode_encode_int64 [OF toInt64_range [OF ok]])
    then show ?thesis
      using big IH [of "bpre @ [bytes_of_string (fst (EncodeInt64 (toInt64 ?v))), bytes_of_string (snd (EncodeInt64 (toInt64 ?v)))]" spre]
        Cons.prems(2)
      by (simp add: nth_append set_decoded_def set_stored_def stored_def Let_def)
  next
    case bool
    then show ?thesis
      using IH [of "bpre @ [bytes_of_string (EncodeBool (toBool ?v))]" spre] Cons.prems(2)
      by (simp add: nth_append set_decoded_def set_stored_def stored_def Let_def)
  next
    case sign
    then have "CHR 0x00 \<notin> set (toString ?v)" using st by (simp add: storable_def)
    with sign show ?thesis
      using IH [of bpre "spre @ [encodeSignData (EncodeText (toString ?v))]"] Cons.prems(2)
      by (simp add: nth_append set_stored_def stored_def Let_def decode_sign)
  next
    case other
    then show ?thesis using IH [of bpre spre] Cons.prems(2) by (simp add: set_stored_def stored_def Let_def)
  qed
qed simp

subsection \<open>Versions\<close>

record version =
  vmin :: int
  vmax :: "int option"
  vals :: "goval gomap"

definition xmax_data :: "int option \<Rightarrow> string \<times> string" where
  "xmax_data t = (case t of None \<Rightarrow> EncodeNull | Some i \<Rightarrow> EncodeInt64 i)"

definition version_strip :: "ColumnDef list \<Rightarrow> version \<Rightarrow> bytes option list" where
  "version_strip cols v =
     map Some
       (map bytes_of_string [fst (EncodeInt64 (vmin v)), snd (EncodeInt64 (vmin v)), fst (xmax_data (vmax v)), snd (xmax_data (vmax v))] @
        banner_data cols (vals v) @ sign_data cols (vals v))"

definition xmax_val :: "int option \<Rightarrow> goval" where
  "xmax_val t = (case t of None \<Rightarrow> VNil | Some i \<Rightarrow> VInt64 i)"

text \<open>The row a scan finds in the strip of a version.\<close>

definition version_row :: "ColumnDef list \<Rightarrow> version \<Rightarrow> Row" where
  "version_row cols v = fold (set_stored (vals v)) cols [(''xmin'', VInt64 (vmin v)), (''xmax'', xmax_val (vmax v))]"

definition version_ok :: "ColumnDef list \<Rightarrow> version \<Rightarrow> bool" where
  "version_ok cols v \<longleftrightarrow> in_i64 (vmin v) \<and> (\<forall>t. vmax v = Some t \<longrightarrow> in_i64 t) \<and> row_storable cols (vals v)"

lemma decodeStrip_version:
  assumes "version_ok (Columns t) v"
  shows "decodeStrip (version_strip (Columns t) v) t = Inr (version_row (Columns t) v)"
proof -
  let ?cols = "Columns t"
  have st: "row_storable ?cols (vals v)" and min: "in_i64 (vmin v)" using assms by (simp_all add: version_ok_def)
  have cols: "decode_columns (map Some (banner_data ?cols (vals v) @ sign_data ?cols (vals v))) (numBanners ?cols) ?cols 0 0 row =
      fold (set_stored (vals v)) ?cols row" for row
    using decode_columns_data [OF st, of "numBanners ?cols" "[]" "[]" row] by (simp add: length_banner_data)
  show ?thesis
  proof (cases "vmax v")
    case None
    then show ?thesis
      using cols decode_encode_int64 [OF min]
      by (simp add: decodeStrip_def version_strip_def version_row_def xmax_data_def xmax_val_def EncodeNull_def IsNull_def)
  next
    case (Some i)
    then have "DecodeInt64 (fst (EncodeInt64 i)) (snd (EncodeInt64 i)) = Inr i"
      using assms by (intro decode_encode_int64) (simp add: version_ok_def)
    moreover have "\<not> IsNull (fst (EncodeInt64 i)) (snd (EncodeInt64 i))" by (simp add: IsNull_EncodeInt64)
    ultimately show ?thesis
      using Some cols decode_encode_int64 [OF min]
      by (simp add: decodeStrip_def version_strip_def version_row_def xmax_data_def xmax_val_def)
  qed
qed

text \<open>A version is visible to a transaction that is not older than it, unless it is deleted for it.\<close>

definition visible :: "int \<Rightarrow> version \<Rightarrow> bool" where
  "visible txid v \<longleftrightarrow> vmin v \<le> txid \<and> (case vmax v of None \<Rightarrow> True | Some t \<Rightarrow> txid < t)"

lemma col_key_ne: "hd k \<noteq> CHR ''c'' \<Longrightarrow> col_key i \<noteq> k"
  by (auto simp: col_key_def)

lemma map_of_set_stored: "hd k \<noteq> CHR ''c'' \<Longrightarrow> map_of (set_stored vs col row) k = map_of row k"
  using col_key_ne [of k "colOrdinal col"] by (auto simp: set_stored_def map_of_update split: option.splits)

lemma map_of_stored_columns: "hd k \<noteq> CHR ''c'' \<Longrightarrow> map_of (fold (set_stored vs) cols row) k = map_of row k"
  by (induction cols arbitrary: row) (simp_all add: map_of_set_stored)

lemma isVisible_version [simp]: "isVisible (version_row cols v) txid \<longleftrightarrow> visible txid v"
proof -
  have "map_of (version_row cols v) ''xmin'' = Some (VInt64 (vmin v))"
    "map_of (version_row cols v) ''xmax'' = Some (xmax_val (vmax v))"
    by (simp_all add: version_row_def map_of_stored_columns)
  then show ?thesis
    by (auto simp: isVisible_def rowInt64_def row_get_def visible_def xmax_val_def Let_def split: option.splits)
qed

subsection \<open>Scanning\<close>

definition strip :: "blocks \<Rightarrow> TableMeta \<Rightarrow> int \<Rightarrow> bytes option list" where
  "strip b t z = map (\<lambda>ox. b (ox, YLevel t, z)) [0..StripWidth t - 1]"

definition located :: "TableMeta \<Rightarrow> int \<Rightarrow> Row \<Rightarrow> Row" where
  "located t z row = AList.update ''_z'' (VInt z) (AList.update ''_y'' (VInt (YLevel t)) (AList.update ''_x'' (VInt 0) row))"

text \<open>What one iteration of the scan sends for the row it reads.\<close>

definition scan_one :: "TableMeta \<Rightarrow> int \<Rightarrow> blocks \<Rightarrow> int \<Rightarrow> Row option" where
  "scan_one t txid b ri =
     (let z = wrap64 (ZStart t + ri); data = strip b t z in
      if isEmptyStrip data then None
      else
        (case decodeStrip data t of
           Inl _ \<Rightarrow> None
         | Inr row \<Rightarrow> if isVisible row txid then Some (located t z row) else None))"

definition scan_rows :: "TableMeta \<Rightarrow> int \<Rightarrow> blocks \<Rightarrow> int list \<Rightarrow> Row list" where
  "scan_rows t txid b ris = List.map_filter (scan_one t txid b) ris"

lemma scan_rows_simps [simp]:
  "scan_rows t txid b [] = []"
  "scan_rows t txid b (ri # ris) =
     (case scan_one t txid b ri of None \<Rightarrow> scan_rows t txid b ris | Some row \<Rightarrow> row # scan_rows t txid b ris)"
  by (simp_all add: scan_rows_def map_filter_simps split: option.splits)

lemma upto_Cons: "(i :: int) < n \<Longrightarrow> [i..n - 1] = i # [i + 1..n - 1]"
  by (simp add: upto_rec1)

context hal_reliable
begin

lemma scan_step_run:
  assumes "world_ok w"
  obtains w' where "scan_step h t txid ri w = (map_option ScanRow (scan_one t txid (blocks w) ri), w')" "world_ok w'" "blocks w' = blocks w"
proof -
  let ?z = "wrap64 (ZStart t + ri)"
  let ?ps = "map (\<lambda>ox. mk_pos ox (YLevel t) ?z) [0..StripWidth t - 1]"
  obtain w1 where 1: "ForceLoadChunk h 0 (go_quot ?z 16) w = (Inr (), w1)" "world_ok w1" "blocks w1 = blocks w"
    using force_run [OF assms] by blast
  obtain w2 where 2: "BatchRead h ?ps w1 = (Inr (map (blocks w1 \<circ> pos_key) ?ps), w2)" "world_ok w2" "blocks w2 = blocks w"
    using batch_read_run [OF 1(2)] 1(3) by metis
  have data: "map (blocks w1 \<circ> pos_key) ?ps = strip (blocks w) t ?z"
    using 1(3) by (simp add: strip_def)
  have "scan_step h t txid ri w = (map_option ScanRow (scan_one t txid (blocks w) ri), w2)"
    using 1(1) 2(1) data by (auto simp: scan_step_def scan_one_def located_def Let_def split: sum.splits)
  with 2 that show thesis by blast
qed

lemma scan_loop_run:
  assumes "world_ok w"
  shows "\<exists>w'. scan_loop h halt t txid n ri w =
      (map ScanRow (scan_rows t txid (blocks w) (takeWhile (\<lambda>i. \<not> halt i) [ri..n - 1])), w') \<and>
    world_ok w' \<and> blocks w' = blocks w"
  using assms
proof (induction "nat (n - ri)" arbitrary: ri w)
  case 0
  then show ?case by (subst scan_loop.simps) auto
next
  case (Suc k)
  then have ri: "ri < n" by simp
  show ?case
  proof (cases "halt ri")
    case True
    then show ?thesis using Suc.prems ri by (subst scan_loop.simps) (simp add: upto_Cons)
  next
    case False
    obtain w2 where 2: "scan_step h t txid ri w = (map_option ScanRow (scan_one t txid (blocks w) ri), w2)"
      "world_ok w2" "blocks w2 = blocks w"
      by (rule scan_step_run [OF Suc.prems])
    have "k = nat (n - (ri + 1))" using Suc.hyps(2) by linarith
    then obtain w3 where 3: "scan_loop h halt t txid n (ri + 1) w2 =
        (map ScanRow (scan_rows t txid (blocks w) (takeWhile (\<lambda>i. \<not> halt i) [ri + 1..n - 1])), w3)"
      "world_ok w3" "blocks w3 = blocks w"
      using Suc.hyps(1) [of "ri + 1" w2] 2 by auto
    have "scan_loop h halt t txid n ri w =
        (map ScanRow (scan_rows t txid (blocks w) (takeWhile (\<lambda>i. \<not> halt i) [ri..n - 1])), w3)"
      using ri False 2(1) 3(1)
      by (subst scan_loop.simps) (auto simp: upto_Cons split: option.splits)
    with 3 show ?thesis by blast
  qed
qed

lemma SeqScan_run:
  assumes "world_ok w"
  shows "\<exists>w'. SeqScan h halt p txid s w =
      (map ScanRow (scan_rows (metas s ! p) txid (blocks w) (takeWhile (\<lambda>i. \<not> halt i) [0..RowCount (metas s ! p) - 1])), w') \<and>
    world_ok w' \<and> blocks w' = blocks w"
  using scan_loop_run [OF assms, of halt "metas s ! p" txid "RowCount (metas s ! p)" 0] assms
  by (auto simp: SeqScan_def Let_def)

end

subsection \<open>Tables\<close>

text \<open>
  The metadata of a table: its rows start at the plane its identifier gives it, \<open>tableZSpacing\<close> planes
  from its neighbours. The bound on the identifier keeps every coordinate inside \<open>int64\<close>.
\<close>

definition meta_ok :: "TableMeta \<Rightarrow> bool" where
  "meta_ok t \<longleftrightarrow>
     1 \<le> ID t \<and> ID t < 2 ^ 48 \<and> YLevel t = tableY \<and> ZStart t = (ID t - 1) * tableZSpacing \<and>
     StripWidth t = stripWidth (Columns t) \<and> 0 \<le> RowCount t \<and> RowCount t \<le> tableZSpacing"

definition table_repr :: "blocks \<Rightarrow> TableMeta \<Rightarrow> version list \<Rightarrow> bool" where
  "table_repr b t vs \<longleftrightarrow>
     RowCount t = int (length vs) \<and>
     (\<forall>i < length vs. version_ok (Columns t) (vs ! i) \<and> strip b t (ZStart t + int i) = version_strip (Columns t) (vs ! i))"

text \<open>What a scan of a table returns to a transaction.\<close>

definition table_rows :: "TableMeta \<Rightarrow> int \<Rightarrow> version list \<Rightarrow> Row list" where
  "table_rows t txid vs =
     map (\<lambda>(i, v). located t (ZStart t + int i) (version_row (Columns t) v)) (filter (\<lambda>(i, v). visible txid v) (enumerate 0 vs))"

lemmas meta_consts = tableY_def tableZSpacing_def

lemma meta_z_range:
  assumes "meta_ok t" "0 \<le> i" "i \<le> tableZSpacing"
  shows "wrap64 (ZStart t + i) = ZStart t + i" "0 \<le> ZStart t + i" "ZStart t + i < 2 ^ 62"
proof -
  have "0 \<le> ZStart t" "ZStart t \<le> (2 ^ 48 - 2) * 10000"
    using assms(1) by (auto simp: meta_ok_def tableZSpacing_def)
  then show "0 \<le> ZStart t + i" "ZStart t + i < 2 ^ 62"
    using assms(2,3) by (simp_all add: tableZSpacing_def)
  then show "wrap64 (ZStart t + i) = ZStart t + i" by (simp add: in_i64_def)
qed

lemma not_isEmptyStrip_version [simp]: "\<not> isEmptyStrip (version_strip cols v)"
  using encoded_ne(3) [of "vmin v"] by (simp add: version_strip_def)

lemma scan_one_version:
  assumes "meta_ok t" "table_repr b t vs" "i < length vs"
  shows "scan_one t txid b (int i) =
    (if visible txid (vs ! i) then Some (located t (ZStart t + int i) (version_row (Columns t) (vs ! i))) else None)"
proof -
  have "int i \<le> tableZSpacing" using assms by (simp add: meta_ok_def table_repr_def)
  then have z: "wrap64 (ZStart t + int i) = ZStart t + int i" using meta_z_range [OF assms(1)] by simp
  have "strip b t (ZStart t + int i) = version_strip (Columns t) (vs ! i)" "version_ok (Columns t) (vs ! i)"
    using assms(2,3) by (simp_all add: table_repr_def)
  then show ?thesis
    by (simp add: scan_one_def Let_def z decodeStrip_version)
qed

lemma upto_int_upt: "[0..int n - 1] = map int [0..<n]"
proof (induction n)
  case (Suc n)
  have "[0..int (Suc n) - 1] = [0..int n - 1] @ [int n]" using upto_rec2 [of 0 "int n"] by simp
  with Suc show ?case by simp
qed simp

lemma scan_rows_append: "scan_rows t txid b (xs @ ys) = scan_rows t txid b xs @ scan_rows t txid b ys"
  by (induction xs) (auto split: option.splits)

lemma table_rows_snoc:
  "table_rows t txid (vs @ [v]) =
     table_rows t txid vs @ (if visible txid v then [located t (ZStart t + int (length vs)) (version_row (Columns t) v)] else [])"
  by (simp add: table_rows_def enumerate_append_eq)

lemma scan_rows_table:
  assumes "meta_ok t" "table_repr b t vs" "k \<le> length vs"
  shows "scan_rows t txid b (map int [0..<k]) = table_rows t txid (take k vs)"
  using assms(3)
proof (induction k)
  case (Suc k)
  then show ?case
    using scan_one_version [OF assms(1,2), of k txid]
    by (simp add: scan_rows_append take_Suc_conv_app_nth table_rows_snoc)
qed (simp add: table_rows_def)

lemma scan_table:
  assumes "meta_ok t" "table_repr b t vs"
  shows "scan_rows t txid b [0..RowCount t - 1] = table_rows t txid vs"
  using scan_rows_table [OF assms, of "length vs" txid] assms(2) by (simp add: table_repr_def upto_int_upt)

subsection \<open>Writing a strip\<close>

lemma length_strip: "length (strip b t z) = nat (StripWidth t)"
  by (simp add: strip_def)

lemma nth_strip: "i < nat (StripWidth t) \<Longrightarrow> strip b t z ! i = b (int i, YLevel t, z)"
  by (simp add: strip_def nth_upto)

lemma strip_cong: "(\<And>x. 0 \<le> x \<Longrightarrow> x < StripWidth t \<Longrightarrow> b (x, YLevel t, z) = b' (x, YLevel t, z)) \<Longrightarrow> strip b t z = strip b' t z"
  by (simp add: strip_def)

lemma length_version_strip: "length (version_strip cols v) = nat (stripWidth cols)"
  using stripWidth_eq [of cols "vals v"] by (simp add: version_strip_def)

lemma length_row_writes: "int (length (row_writes cols vs txid y z)) = stripWidth cols"
  using arg_cong [OF row_writes_data(1), of length] stripWidth_eq [of cols vs] by simp

text \<open>The version an insert makes.\<close>

definition new_version :: "int \<Rightarrow> goval gomap \<Rightarrow> version" where
  "new_version txid vs = \<lparr>vmin = txid, vmax = None, vals = vs\<rparr>"

lemma strip_row_writes:
  assumes "StripWidth t = stripWidth (Columns t)"
  shows "strip (put_writes (row_writes (Columns t) vs txid (YLevel t) z) b) t z = version_strip (Columns t) (new_version txid vs)"
proof (rule nth_equalityI)
  let ?ws = "row_writes (Columns t) vs txid (YLevel t) z"
  show len: "length (strip (put_writes ?ws b) t z) = length (version_strip (Columns t) (new_version txid vs))"
    by (simp add: length_strip length_version_strip assms)
  fix i
  assume "i < length (strip (put_writes ?ws b) t z)"
  then have i: "i < nat (StripWidth t)" by (simp add: length_strip)
  then have il: "i < length ?ws" using length_row_writes [of "Columns t" vs txid "YLevel t" z] assms by linarith
  have "strip (put_writes ?ws b) t z ! i = Some (map Data ?ws ! i)"
    using put_writes_seq [OF row_writes_data(2) [of "YLevel t" z "Columns t" vs txid], of b "int i" "YLevel t" z] i il
    by (simp add: nth_strip)
  also have "\<dots> = version_strip (Columns t) (new_version txid vs) ! i"
    using il arg_cong [OF row_writes_data(1), of length "Columns t" vs txid "YLevel t" z]
    by (subst row_writes_data(1))
       (simp only: version_strip_def new_version_def version.select_convs xmax_data_def option.case EncodeNull_def fst_conv snd_conv
         length_map nth_map)
  finally show "strip (put_writes ?ws b) t z ! i = version_strip (Columns t) (new_version txid vs) ! i" .
qed

lemma put_row_frame:
  "z' \<noteq> z \<or> y' \<noteq> y \<Longrightarrow> put_writes (row_writes cols vs txid y z) b (x, y', z') = b (x, y', z')"
  using put_writes_seq [OF row_writes_data(2)] by auto

text \<open>Deleting a version: its two \<open>xmax\<close> banners, blocks 2 and 3 of the strip.\<close>

definition delete_version :: "int \<Rightarrow> version \<Rightarrow> version" where
  "delete_version txid v = v\<lparr>vmax := Some txid\<rparr>"

lemma stripWidth_ge: "4 \<le> stripWidth cols"
  using stripWidth_eq [of cols "[]"] by simp

lemma xmax_banners_apply:
  "xmax_banners y z txid b (x, y', z') =
     (if y' = y \<and> z' = z \<and> x = 2 then Some (bytes_of_string (fst (EncodeInt64 txid)))
      else if y' = y \<and> z' = z \<and> x = 3 then Some (bytes_of_string (snd (EncodeInt64 txid)))
      else b (x, y', z'))"
  by (auto simp: xmax_banners_def put_block_apply)

lemma strip_xmax_banners:
  assumes "StripWidth t = stripWidth (Columns t)" "strip b t z = version_strip (Columns t) v"
  shows "strip (xmax_banners (YLevel t) z txid b) t z = version_strip (Columns t) (delete_version txid v)"
proof (rule nth_equalityI)
  let ?b = "xmax_banners (YLevel t) z txid b"
  show "length (strip ?b t z) = length (version_strip (Columns t) (delete_version txid v))"
    by (simp add: length_strip length_version_strip assms(1))
  fix i
  assume "i < length (strip ?b t z)"
  then have i: "i < nat (StripWidth t)" by (simp add: length_strip)
  have "version_strip (Columns t) (delete_version txid v) =
      (version_strip (Columns t) v)[2 := Some (bytes_of_string (fst (EncodeInt64 txid))), 3 := Some (bytes_of_string (snd (EncodeInt64 txid)))]"
    by (simp add: version_strip_def delete_version_def xmax_data_def numeral_2_eq_2 numeral_3_eq_3)
  moreover have "b (int i, YLevel t, z) = version_strip (Columns t) v ! i"
    using nth_strip [OF i, of b z] assms(2) by simp
  moreover have "length (version_strip (Columns t) v) = nat (StripWidth t)"
    by (simp add: length_version_strip assms(1))
  ultimately show "strip ?b t z ! i = version_strip (Columns t) (delete_version txid v) ! i"
    using i by (auto simp: nth_strip xmax_banners_apply nth_list_update)
qed

subsection \<open>Inserting and deleting on a store that does not fail\<close>

definition log_entry :: "int \<Rightarrow> int \<Rightarrow> string \<Rightarrow> int \<Rightarrow> int \<Rightarrow> int \<Rightarrow> int \<Rightarrow> string \<Rightarrow> Entry" where
  "log_entry lsn txid op t x y z v =
     \<lparr>LSN = lsn, TXID = txid, Status = ''PENDING'', Op = op, TableID = t, TargetX = x, TargetY = y, TargetZ = z, NewValue = v\<rparr>"

text \<open>The lectern of an entry, with the book it has once committed.\<close>

definition put_book :: "Entry \<Rightarrow> string \<Rightarrow> blocks \<Rightarrow> blocks" where
  "put_book e status b = b((0, walY, - LSN e) \<mapsto> bytes_of_string (book_of e status))"

lemma put_book_apply:
  "put_book e status b p = (if p = (0, walY, - LSN e) then Some (bytes_of_string (book_of e status)) else b p)"
  by (simp add: put_book_def)

definition lsn_ok :: "WAL \<Rightarrow> bool" where
  "lsn_ok wl \<longleftrightarrow> 1 \<le> nextLSN wl \<and> nextLSN wl < 2 ^ 62"

lemma lsn_okD:
  assumes "lsn_ok wl"
  shows "wal_pos (nextLSN wl) = (0, walY, - nextLSN wl)" "wrap64 (nextLSN wl + 1) = nextLSN wl + 1" "in_i64 (nextLSN wl)"
  using assms by (auto simp: lsn_ok_def in_i64_def intro!: wal_pos_eq wrap64_id)

context hal_reliable
begin

text \<open>
  The pattern both operations share: append an entry, write some blocks that are not lecterns, commit
  the entry.
\<close>

lemma logged_write_run:
  assumes ok: "world_ok w" and wl: "lsn_ok wl"
    and e: "entry_ok (log_entry (nextLSN wl) txid op t x y z v)" (is "entry_ok ?e")
    and frame: "\<forall>bw \<in> set ws. pos_key (Pos bw) \<noteq> (0, walY, - nextLSN wl)"
  obtains w1 w2 w3 where
    "Append h txid op t x y z v wl w = (Inr (nextLSN wl), \<lparr>nextLSN = nextLSN wl + 1\<rparr>, w1)"
    "BatchWrite h ws w1 = (Inr (), w2)"
    "Commit h (nextLSN wl) \<lparr>nextLSN = nextLSN wl + 1\<rparr> w2 = (Inr (), \<lparr>nextLSN = nextLSN wl + 1\<rparr>, w3)"
    "world_ok w3" "blocks w3 = put_book ?e ''COMMITTED'' (put_writes ws (put_book ?e ''PENDING'' (blocks w)))"
proof -
  let ?wl = "\<lparr>nextLSN = nextLSN wl + 1\<rparr>" and ?lp = "(0, walY, - nextLSN wl)"
  have wl': "wl\<lparr>nextLSN := wrap64 (nextLSN wl + 1)\<rparr> = ?wl" using lsn_okD [OF wl] by simp
  have book: "pending_book (nextLSN wl) txid op t x y z v = bytes_of_string (book_of ?e ''PENDING'')"
    by (simp add: pending_book_eq log_entry_def)
  obtain w1 where 0: "Append h txid op t x y z v wl w = (Inr (nextLSN wl), wl\<lparr>nextLSN := wrap64 (nextLSN wl + 1)\<rparr>, w1)"
    "world_ok w1" "blocks w1 = put_block (wal_pos (nextLSN wl)) (pending_book (nextLSN wl) txid op t x y z v) (blocks w)"
    by (rule Append_run [OF ok])
  then have 1: "Append h txid op t x y z v wl w = (Inr (nextLSN wl), ?wl, w1)" "world_ok w1"
    "blocks w1 = put_book ?e ''PENDING'' (blocks w)"
    unfolding wl' by (simp_all add: put_book_def put_block_def book lsn_okD(1) [OF wl]) (simp add: log_entry_def)
  obtain w2 where 2: "BatchWrite h ws w1 = (Inr (), w2)" "world_ok w2" "blocks w2 = put_writes ws (blocks w1)"
    using batch_write_run [OF 1(2)] by blast
  have "blocks w2 ?lp = Some (bytes_of_string (book_of ?e ''PENDING''))"
    using put_writes_frame [OF frame] by (simp add: 2(3) 1(3) put_book_def log_entry_def)
  moreover have "deserializeEntry (string_of_bytes (bytes_of_string (book_of ?e ''PENDING''))) = Inr ?e"
    using deserialize_book [OF e, of "''PENDING''"] by (simp add: log_entry_def)
  moreover have "Status ?e = ''PENDING''" by (simp add: log_entry_def)
  ultimately obtain w3 where 3: "Commit h (nextLSN wl) ?wl w2 = (Inr (), ?wl, w3)" "world_ok w3"
    "blocks w3 = put_block (wal_pos (nextLSN wl)) (bytes_of_string (book_of ?e ''COMMITTED'')) (blocks w2)"
    using Commit_run [OF 2(2)] lsn_okD(1) [OF wl] by metis
  have "blocks w3 = put_book ?e ''COMMITTED'' (blocks w2)"
    using 3(3) lsn_okD(1) [OF wl] by (simp add: put_book_def put_block_def log_entry_def)
  then show thesis using that [OF 1(1) 2(1) 3(1,2)] 1(3) 2(3) by simp
qed

end

text \<open>The effect of an insert at row \<open>z\<close>, and that of a delete.\<close>

definition insert_blocks :: "TableMeta \<Rightarrow> goval gomap \<Rightarrow> int \<Rightarrow> int \<Rightarrow> int \<Rightarrow> string \<Rightarrow> blocks \<Rightarrow> blocks" where
  "insert_blocks t vs txid z lsn js b =
     put_book (log_entry lsn txid ''INSERT'' (ID t) 0 (YLevel t) z js) ''COMMITTED''
       (put_writes (row_writes (Columns t) vs txid (YLevel t) z) b)"

definition delete_blocks :: "BlockPos \<Rightarrow> int \<Rightarrow> int \<Rightarrow> blocks \<Rightarrow> blocks" where
  "delete_blocks p txid lsn b =
     put_book (log_entry lsn txid ''UPDATE_XMAX'' (wrap64 (go_quot (PosZ p) tableZSpacing + 1)) (PosX p) (PosY p) (PosZ p) (fmt_d txid))
       ''COMMITTED'' (xmax_banners (PosY p) (PosZ p) txid b)"

lemma put_book_twice:
  assumes "\<forall>bw \<in> set ws. pos_key (Pos bw) \<noteq> (0, walY, - LSN e)"
  shows "put_book e s (put_writes ws (put_book e s' b)) = put_book e s (put_writes ws b)"
proof -
  have "put_writes ws (b(p \<mapsto> d)) = (put_writes ws b)(p \<mapsto> d)" if "\<forall>bw \<in> set ws. pos_key (Pos bw) \<noteq> p" for p d and b :: blocks
    using that
  proof (induction ws arbitrary: b)
    case (Cons bw ws)
    then have "put_write bw (b(p \<mapsto> d)) = (put_write bw b)(p \<mapsto> d)" by (auto simp: put_write_def put_block_def)
    then have "put_writes (bw # ws) (b(p \<mapsto> d)) = put_writes ws ((put_write bw b)(p \<mapsto> d))"
      by (simp only: put_writes_simps)
    also have "\<dots> = (put_writes ws (put_write bw b))(p \<mapsto> d)" using Cons by (intro Cons.IH) auto
    finally show ?case by (simp only: put_writes_simps)
  qed simp
  from this [OF assms] show ?thesis by (simp add: put_book_def)
qed

lemma row_writes_pos: "bw \<in> set (row_writes cols vs txid y z) \<Longrightarrow> PosY (Pos bw) = y \<and> PosZ (Pos bw) = z"
proof -
  have "seq_writes y z off ws \<Longrightarrow> bw \<in> set ws \<Longrightarrow> PosY (Pos bw) = y \<and> PosZ (Pos bw) = z" for off ws
    by (induction ws arbitrary: off) auto
  then show "bw \<in> set (row_writes cols vs txid y z) \<Longrightarrow> PosY (Pos bw) = y \<and> PosZ (Pos bw) = z"
    using row_writes_data(2) by blast
qed

context hal_reliable
begin

lemma InsertRow_run:
  assumes ok: "world_ok w" and t: "meta_ok (metas s ! p)"
    and wl: "lsn_ok (wal s)" and tx: "in_i64 txid" and js: "Marshal (VMap vs) = Inr js"
  obtains w' where
    "InsertRow h p vs txid s w =
       (Inr (mk_pos 0 tableY (ZStart (metas s ! p) + RowCount (metas s ! p))), (bump_rows p s)\<lparr>wal := \<lparr>nextLSN = nextLSN (wal s) + 1\<rparr>\<rparr>, w')"
    "world_ok w'"
    "blocks w' = insert_blocks (metas s ! p) vs txid (ZStart (metas s ! p) + RowCount (metas s ! p)) (nextLSN (wal s)) js (blocks w)"
proof -
  let ?t = "metas s ! p" and ?lsn = "nextLSN (wal s)"
  let ?z = "ZStart ?t + RowCount ?t"
  let ?ws = "row_writes (Columns ?t) vs txid (YLevel ?t) ?z"
  let ?e = "log_entry ?lsn txid ''INSERT'' (ID ?t) 0 (YLevel ?t) ?z js"
  have "0 \<le> RowCount ?t" "RowCount ?t \<le> tableZSpacing" using t by (simp_all add: meta_ok_def)
  note z = meta_z_range [OF t this]
  have "in_i64 ?z" using z by (simp add: in_i64_def)
  moreover have "in_i64 (ID ?t)" "in_i64 (YLevel ?t)" "in_i64 0"
    using t by (simp_all add: in_i64_def meta_ok_def tableY_def)
  ultimately have e: "entry_ok ?e"
    using lsn_okD(3) [OF wl] tx Marshal_text [OF js] by (simp add: entry_ok_def log_entry_def)
  have frame: "\<forall>bw \<in> set ?ws. pos_key (Pos bw) \<noteq> (0, walY, - ?lsn)"
    using z wl by (auto simp: pos_key_def lsn_ok_def dest!: row_writes_pos)
  obtain w0 where 0: "ForceLoadChunk h 0 (go_quot ?z 16) w = (Inr (), w0)" "world_ok w0" "blocks w0 = blocks w"
    using force_run [OF ok] by blast
  obtain w1 w2 w3 where run:
    "Append h txid ''INSERT'' (ID ?t) 0 (YLevel ?t) ?z js (wal s) w0 = (Inr ?lsn, \<lparr>nextLSN = ?lsn + 1\<rparr>, w1)"
    "BatchWrite h ?ws w1 = (Inr (), w2)" "Commit h ?lsn \<lparr>nextLSN = ?lsn + 1\<rparr> w2 = (Inr (), \<lparr>nextLSN = ?lsn + 1\<rparr>, w3)"
    "world_ok w3" "blocks w3 = put_book ?e ''COMMITTED'' (put_writes ?ws (put_book ?e ''PENDING'' (blocks w0)))"
    by (rule logged_write_run [OF 0(2) wl e frame])
  have "blocks w3 = insert_blocks ?t vs txid ?z ?lsn js (blocks w)"
    using run(5) 0(3) put_book_twice [of ?ws ?e] frame by (simp add: insert_blocks_def log_entry_def)
  moreover have "YLevel ?t = tableY" using t by (simp add: meta_ok_def)
  moreover have "wal (bump_rows p s) = wal s" by (simp add: bump_rows_def)
  ultimately show thesis
    using that [of w3] run z(1) 0(1) js by (simp add: InsertRow_def Let_def)
qed

lemma MarkDeleted_run:
  assumes ok: "world_ok w" and wl: "lsn_ok (wal s)" and tx: "in_i64 txid"
    and pos: "in_i64 (PosX pos)" "in_i64 (PosY pos)" "0 \<le> PosZ pos" "in_i64 (PosZ pos)"
    and row: "blocks w (2, PosY pos, PosZ pos) \<noteq> None" "blocks w (3, PosY pos, PosZ pos) \<noteq> None"
  obtains w' where
    "MarkDeleted h pos txid s w = (Inr (), s\<lparr>wal := \<lparr>nextLSN = nextLSN (wal s) + 1\<rparr>\<rparr>, w')"
    "world_ok w'" "blocks w' = delete_blocks pos txid (nextLSN (wal s)) (blocks w)"
proof -
  let ?y = "PosY pos" and ?z = "PosZ pos" and ?lsn = "nextLSN (wal s)"
  let ?tid = "wrap64 (go_quot ?z tableZSpacing + 1)"
  let ?e = "log_entry ?lsn txid ''UPDATE_XMAX'' ?tid (PosX pos) ?y ?z (fmt_d txid)"
  obtain s1 s2 where enc: "EncodeInt64 txid = (s1, s2)" by fastforce
  let ?ws = "[banner_write 2 ?y ?z s1, banner_write 3 ?y ?z s2]"
  obtain d2 d3 where d: "blocks w (2, ?y, ?z) = Some d2" "blocks w (3, ?y, ?z) = Some d3" using row by auto
  have "d2 \<noteq> []" using blocks_no_empty [OF ok] d(1) by metis
  then have s2: "string_of_bytes d2 \<noteq> []" by (simp add: string_of_bytes_def)
  have e: "entry_ok ?e"
    using lsn_okD(3) [OF wl] tx pos by (simp add: entry_ok_def log_entry_def)
  obtain w1 where 1: "ReadBlock h 2 ?y ?z w = (Inr (Some d2), w1)" "world_ok w1" "blocks w1 = blocks w"
    using read_run [OF ok, of 2 ?y ?z] d by metis
  obtain w2 where 2: "ReadBlock h 3 ?y ?z w1 = (Inr (Some d3), w2)" "world_ok w2" "blocks w2 = blocks w"
    using read_run [OF 1(2), of 3 ?y ?z] 1(3) d by metis
  have frame: "\<forall>bw \<in> set ?ws. pos_key (Pos bw) \<noteq> (0, walY, - ?lsn)" by simp
  obtain w3 w4 w5 where run:
    "Append h txid ''UPDATE_XMAX'' ?tid (PosX pos) ?y ?z (fmt_d txid) (wal s) w2 = (Inr ?lsn, \<lparr>nextLSN = ?lsn + 1\<rparr>, w3)"
    "BatchWrite h ?ws w3 = (Inr (), w4)" "Commit h ?lsn \<lparr>nextLSN = ?lsn + 1\<rparr> w4 = (Inr (), \<lparr>nextLSN = ?lsn + 1\<rparr>, w5)"
    "world_ok w5" "blocks w5 = put_book ?e ''COMMITTED'' (put_writes ?ws (put_book ?e ''PENDING'' (blocks w2)))"
    by (rule logged_write_run [OF 2(2) wl e frame])
  have "put_writes ?ws b = xmax_banners ?y ?z txid b" for b by (simp add: xmax_banners_def enc banner_write_def)
  then have "blocks w5 = delete_blocks pos txid ?lsn (blocks w)"
    using run(5) 2(3) put_book_twice [of ?ws ?e] frame by (simp add: delete_blocks_def log_entry_def)
  then show thesis
    using that [of w5] run 1 2 s2 enc by (simp add: MarkDeleted_def Let_def)
qed

end

subsection \<open>Properties\<close>

lemma col_key_inject [simp]: "col_key i = col_key j \<longleftrightarrow> i = j"
  by (simp add: col_key_def)

lemma map_of_stored_other:
  "\<forall>col \<in> set cols. col_key (colOrdinal col) \<noteq> key \<Longrightarrow> map_of (fold (set_stored vs) cols row) key = map_of row key"
  by (induction cols arbitrary: row) (auto simp: set_stored_def map_of_update split: option.splits)

lemma map_of_stored_column:
  assumes "distinct (map colOrdinal cols)" "col \<in> set cols" "map_of row (col_key (colOrdinal col)) = None"
  shows "map_of (fold (set_stored vs) cols row) (col_key (colOrdinal col)) = stored col (getColumnValue vs col)"
  using assms
proof (induction cols arbitrary: row)
  case (Cons c cols)
  show ?case
  proof (cases "c = col")
    case True
    then have "\<forall>c' \<in> set cols. col_key (colOrdinal c') \<noteq> col_key (colOrdinal col)"
      using Cons.prems(1) by (force simp: image_iff)
    then have "map_of (fold (set_stored vs) (c # cols) row) (col_key (colOrdinal col)) = map_of (set_stored vs col row) (col_key (colOrdinal col))"
      using True map_of_stored_other by simp
    also have "\<dots> = stored col (getColumnValue vs col)"
      using Cons.prems(3) by (auto simp: set_stored_def map_of_update split: option.splits)
    finally show ?thesis .
  next
    case False
    then have "col \<in> set cols" "colOrdinal c \<noteq> colOrdinal col" using Cons.prems(1,2) by auto
    then have "map_of (set_stored vs c row) (col_key (colOrdinal col)) = None"
      using Cons.prems(3) by (auto simp: set_stored_def map_of_update split: option.splits)
    then show ?thesis using Cons.IH Cons.prems(1) \<open>col \<in> set cols\<close> by simp
  qed
qed simp

text \<open>
  Property C11: a row survives its blocks. Whatever was in the strip before, decoding the strip that an
  insert writes gives a row with the inserting transaction as \<open>xmin\<close>, no \<open>xmax\<close>, and in every column
  what the column keeps of its value: an integer reduced to its width, a truth value, a text of at most 64
  bytes, and nothing in a column whose type has no encoding.
\<close>

theorem row_roundtrip:
  assumes "StripWidth t = stripWidth (Columns t)" "in_i64 txid" "row_storable (Columns t) vs" "distinct (map colOrdinal (Columns t))"
  shows "\<exists>row. decodeStrip (strip (put_writes (row_writes (Columns t) vs txid (YLevel t) z) b) t z) t = Inr row \<and>
    map_of row ''xmin'' = Some (VInt64 txid) \<and> map_of row ''xmax'' = Some VNil \<and>
    (\<forall>col \<in> set (Columns t). map_of row (col_key (colOrdinal col)) = stored col (getColumnValue vs col))"
proof -
  have "version_ok (Columns t) (new_version txid vs)" using assms(2,3) by (simp add: version_ok_def new_version_def)
  then have "decodeStrip (strip (put_writes (row_writes (Columns t) vs txid (YLevel t) z) b) t z) t =
      Inr (version_row (Columns t) (new_version txid vs))"
    using strip_row_writes [OF assms(1)] decodeStrip_version by simp
  moreover have "map_of (version_row (Columns t) (new_version txid vs)) (col_key (colOrdinal col)) = stored col (getColumnValue vs col)"
    if "col \<in> set (Columns t)" for col
    using map_of_stored_column [OF assms(4) that] by (simp add: version_row_def new_version_def col_key_def)
  ultimately show ?thesis
    by (simp add: version_row_def new_version_def map_of_stored_columns xmax_val_def)
qed

definition sample_columns :: "ColumnDef list" where
  "sample_columns =
     [\<lparr>colName = ''id'', colOrdinal = 0, colType = ''INT''\<rparr>, \<lparr>colName = ''note'', colOrdinal = 1, colType = ''TEXT''\<rparr>,
      \<lparr>colName = ''big'', colOrdinal = 2, colType = ''BIGINT''\<rparr>]"

definition sample_values :: "goval gomap" where
  "sample_values = [(''id'', VInt64 7), (''note'', VString ''iron''), (''big'', VInt64 (- 1))]"

lemma sample_storable: "row_storable sample_columns sample_values"
  by (simp add: row_storable_def sample_columns_def sample_values_def storable_def getColumnValue_def in_i64_def)

theorem row_roundtrip_witness:
  "\<exists>row. decodeStrip (strip (put_writes (row_writes sample_columns sample_values 5 64 0) (\<lambda>_. None)) (new_meta 1 ''t'' sample_columns) 0)
      (new_meta 1 ''t'' sample_columns) = Inr row \<and>
    map_of row ''xmin'' = Some (VInt64 5) \<and> map_of row (col_key 1) = Some (VString ''iron'')"
  using row_roundtrip [of "new_meta 1 ''t'' sample_columns" 5 sample_values 0 "\<lambda>_. None"] sample_storable
  by (auto simp: new_meta_def in_i64_def sample_columns_def sample_values_def tableY_def stored_def getColumnValue_def clip_def)

text \<open>
  Property C12: a scan sees a version exactly as long as it is alive for the transaction: it is inserted by a
  transaction that is not younger, and not deleted or deleted by a younger one. The strip of a version
  always decodes.
\<close>

theorem version_visibility:
  assumes "version_ok (Columns t) v"
  shows "\<exists>row. decodeStrip (version_strip (Columns t) v) t = Inr row \<and>
    (isVisible row txid \<longleftrightarrow> vmin v \<le> txid \<and> (case vmax v of None \<Rightarrow> True | Some d \<Rightarrow> txid < d))"
  using decodeStrip_version [OF assms] isVisible_version by (auto simp: visible_def)

theorem version_visibility_witness:
  "\<exists>row. decodeStrip (version_strip sample_columns \<lparr>vmin = 2, vmax = Some 9, vals = sample_values\<rparr>) (new_meta 1 ''t'' sample_columns) = Inr row \<and>
    isVisible row 8"
  using version_visibility [of "new_meta 1 ''t'' sample_columns" "\<lparr>vmin = 2, vmax = Some 9, vals = sample_values\<rparr>" 8] sample_storable
  by (auto simp: version_ok_def new_meta_def in_i64_def)

end
