(* ===== verification/Catalog.thy ===== *)
theory Catalog
  imports Storage
begin

text \<open>
  The catalog: the blocks \<open>CreateTable\<close> writes, and what \<open>LoadCatalog\<close> makes of them. The catalog is,
  abstractly, the list of the tables created, each with its identifier, name and columns; the blocks
  from \<open>(0, 10, 0)\<close> on represent it when each holds the serialized row of its table.
\<close>

subsection \<open>Printed text is valid UTF-8\<close>

lemma utf8_valid_append: "utf8_valid a \<Longrightarrow> utf8_valid b \<Longrightarrow> utf8_valid (a @ b)"
proof (induction a rule: utf8_valid.induct)
  case (2 c cs)
  then obtain n where n: "rune_len (c # cs) = Some n" and v: "utf8_valid (drop (n - 1) cs)"
    by (auto split: option.splits)
  note bounds = rune_len_bounds [OF n]
  have "rune_len (take n (c # cs) @ drop n (c # cs) @ b) = Some n" by (rule rune_len_take [OF n])
  then have "rune_len (c # cs @ b) = Some n" by (simp del: rune_len.simps flip: append_assoc)
  moreover have "drop (n - 1) (cs @ b) = drop (n - 1) cs @ b" using bounds by simp
  moreover have "utf8_valid (drop (n - 1) cs @ b)" using 2(1) [OF n v] 2(3) by blast
  ultimately show ?case by simp
qed simp

lemma utf8_valid_ascii: "list_all (\<lambda>c. ord c < 0x80) s \<Longrightarrow> utf8_valid s"
  by (induction s) auto

lemma utf8_valid_rune:
  assumes "rune_len s = Some n"
  shows "utf8_valid (take n s)"
proof -
  obtain c cs where s: "s = c # cs" using assms by (cases s) auto
  obtain ds where ds: "take n s = c # ds" "length ds = n - 1"
    using rune_len_bounds [OF assms] s by (cases n) auto
  have "rune_len (c # ds) = Some n" using rune_len_take [OF assms, of "[]"] ds by simp
  then show ?thesis using ds by (simp del: rune_len.simps)
qed

lemma hex_digit_ascii: "n < 16 \<Longrightarrow> ord (hex_digit n) < 0x80"
proof -
  have "list_all (\<lambda>n. ord (hex_digit n) < 0x80) [0..<16]" by code_simp
  then show "n < 16 \<Longrightarrow> ord (hex_digit n) < 0x80" by (simp add: list_all_iff)
qed

lemma esc_ascii_ascii: "ord c < 0x80 \<Longrightarrow> list_all (\<lambda>c. ord c < 0x80) (esc_ascii c)"
proof -
  have "nat (ord c div 16) < 16" "nat (ord c mod 16) < 16" using ord_range [of c] by linarith+
  then show "ord c < 0x80 \<Longrightarrow> list_all (\<lambda>c. ord c < 0x80) (esc_ascii c)"
    by (simp add: esc_ascii_def esc_u_def hex_digit_ascii bslash_def dquote_def)
qed

lemma utf8_valid_escape: "utf8_valid s \<Longrightarrow> utf8_valid (escape s)"
proof (induction s rule: utf8_valid.induct)
  case (2 c cs)
  then obtain n where n: "rune_len (c # cs) = Some n" and v: "utf8_valid (drop (n - 1) cs)"
    by (auto split: option.splits)
  have "utf8_valid (escape (drop (n - 1) cs))" by (rule 2(1) [OF n v])
  moreover have "utf8_valid (fst (escape_unit c cs))"
    using utf8_valid_rune [OF n] utf8_valid_ascii [OF esc_ascii_ascii] n
    by (auto simp: escape_unit_def bslash_def simp del: utf8_valid.simps rune_len.simps intro!: utf8_valid_ascii split: option.splits)
  moreover have "snd (escape_unit c cs) = n - 1"
    using unquote_escape_unit [OF n] by (metis snd_conv)
  ultimately show ?case by (simp add: utf8_valid_append del: utf8_valid.simps)
qed simp

lemma utf8_valid_Join: "list_all utf8_valid xs \<Longrightarrow> utf8_valid sep \<Longrightarrow> utf8_valid (Join xs sep)"
  by (induction xs sep rule: Join.induct) (auto simp: utf8_valid_append simp del: utf8_valid.simps(2))

lemma utf8_valid_lit:
  "utf8_valid [dquote]" "utf8_valid '',''" "utf8_valid '':''" "utf8_valid [CHR 0x7B]" "utf8_valid [CHR 0x7D]"
  "utf8_valid ''[''" "utf8_valid '']''" "utf8_valid ''null''" "utf8_valid ''true''" "utf8_valid ''false''"
  by (simp_all add: dquote_def)

lemma utf8_valid_print_string: "utf8_valid s \<Longrightarrow> utf8_valid (print_string s)"
  using utf8_valid_append [OF utf8_valid_lit(1) utf8_valid_append [OF utf8_valid_escape [of s] utf8_valid_lit(1)]]
  by (simp add: print_string_def del: utf8_valid.simps)

lemma is_digit_ord: "is_digit c \<Longrightarrow> ord c < 0x80"
  using of_nat_of_char [of c, where 'a = int] by (simp add: is_digit_def)

lemma is_num_char_ord: "is_num_char c \<Longrightarrow> ord c < 0x80"
  by (auto simp: is_num_char_def is_digit_ord)

lemma utf8_valid_number: "valid_number s \<Longrightarrow> utf8_valid s"
  by (erule valid_number_chars)
     (auto simp: list_all_iff is_num_char_ord is_digit_ord intro!: utf8_valid_ascii simp del: utf8_valid.simps)

lemma utf8_valid_print: "json_ok n v \<Longrightarrow> utf8_valid (print_json v)"
proof (induction v arbitrary: n)
  case (JArr vs)
  then have "list_all utf8_valid (map print_json vs)" by (auto simp: list_all_iff)
  then show ?case
    using utf8_valid_append [OF utf8_valid_lit(6) utf8_valid_append [OF utf8_valid_Join utf8_valid_lit(7)]] utf8_valid_lit(2)
    by (simp del: utf8_valid.simps)
next
  case (JObj kvs)
  have "utf8_valid (print_member kv)" if "kv \<in> set kvs" for kv
  proof -
    have ok: "utf8_valid (fst kv)" "json_ok (n + 1) (snd kv)" using JObj.prems that by (auto simp: list_all_iff)
    moreover have "snd kv \<in> Basic_BNFs.snds kv" by (cases kv) simp
    ultimately have "utf8_valid (print_json (snd kv))" using JObj.IH [OF that] by blast
    then show ?thesis
      using utf8_valid_append [OF utf8_valid_print_string [OF ok(1)] utf8_valid_append [OF utf8_valid_lit(3)]]
      by (simp add: print_member_def del: utf8_valid.simps)
  qed
  then have "list_all utf8_valid (map print_member kvs)" by (simp add: list_all_iff)
  then show ?case
    using utf8_valid_append [OF utf8_valid_lit(4) utf8_valid_append [OF utf8_valid_Join utf8_valid_lit(5)]] utf8_valid_lit(2)
    by (simp add: print_obj del: utf8_valid.simps print_json.simps)
qed (auto simp: utf8_valid_print_string utf8_valid_number utf8_valid_lit simp del: utf8_valid.simps)

subsection \<open>The columns of a table\<close>

definition column_ok :: "ColumnDef \<Rightarrow> bool" where
  "column_ok c \<longleftrightarrow> utf8_valid (colName c) \<and> utf8_valid (colType c) \<and> in_i64 (colOrdinal c)"

lemma lower_fields: "map lower ''Name'' = ''name''" "map lower ''Ordinal'' = ''ordinal''" "map lower ''Type'' = ''type''"
  by code_simp+

lemma column_of_json: "in_i64 (colOrdinal c) \<Longrightarrow> column_of (column_json c) = Inr c"
  unfolding column_json_def column_of.simps set_fields.simps set_field_def lower_fields
  by (simp add: empty_column_def)

definition columns_json :: "ColumnDef list \<Rightarrow> string" where
  "columns_json cols = print_json (JArr (map column_json cols))"

lemma column_json_ok: "column_ok c \<Longrightarrow> n < 10000 \<Longrightarrow> json_ok n (column_json c)"
  by (simp add: column_json_def column_ok_def)

lemma columns_json_ok: "list_all column_ok cols \<Longrightarrow> json_ok 0 (JArr (map column_json cols))"
  by (auto simp: list_all_iff column_json_ok)

lemma Marshal_columns_eq: "Marshal_columns cols = Inr (columns_json cols)"
  by (simp add: Marshal_columns_def columns_json_def)

lemma Unmarshal_columns_json:
  assumes "list_all column_ok cols"
  shows "Unmarshal_columns (columns_json cols) = Inr cols"
proof -
  have "map (column_of \<circ> column_json) cols = map Inr cols"
    using assms by (auto simp: list_all_iff column_ok_def column_of_json)
  then show ?thesis
    using parse_print [OF columns_json_ok [OF assms]]
    by (simp add: Unmarshal_columns_def columns_json_def collect_Inr del: print_json.simps)
qed

subsection \<open>The block of a table\<close>

definition catalog_json :: "int \<Rightarrow> string \<Rightarrow> ColumnDef list \<Rightarrow> json" where
  "catalog_json tid name cols =
     JObj [(''c0'', JNum (fmt_d tid)), (''c1'', JStr name), (''c2'', JNum (fmt_d tableY)), (''c3'', JStr (columns_json cols)),
       (''xmax'', JNull), (''xmin'', JNum (fmt_d systemTxID))]"

lemma sort_catalog_keys:
  "sort_key fst [(''xmin'', a :: goval), (''xmax'', b), (''c0'', c), (''c1'', d), (''c2'', e), (''c3'', f)] =
   [(''c0'', c), (''c1'', d), (''c2'', e), (''c3'', f), (''xmax'', b), (''xmin'', a)]"
  by code_simp

lemma serialize_catalog_row:
  "serializeRow (catalog_row tid name (columns_json cols)) = Inr (bytes_of_string (print_json (catalog_json tid name cols)))"
  unfolding serializeRow_def Marshal_def catalog_row_def json_of.simps sort_catalog_keys
  by (simp add: catalog_json_def del: print_json.simps)

lemma fmt_tableY: "ParseFloat (fmt_d tableY) = Inr (f64_of_int 64)" "ParseFloat (fmt_d systemTxID) = Inr (f64_of_int 1)"
  by (simp_all add: tableY_def systemTxID_def ParseFloat_fmt_d_small)

lemma catalog_json_ok:
  "utf8_valid name \<Longrightarrow> list_all column_ok cols \<Longrightarrow> json_ok 0 (catalog_json tid name cols)"
  using utf8_valid_print [OF columns_json_ok [of cols]] by (simp add: catalog_json_def columns_json_def del: print_json.simps)

definition catalog_block :: "int \<Rightarrow> string \<Rightarrow> ColumnDef list \<Rightarrow> bytes" where
  "catalog_block tid name cols = bytes_of_string (print_json (catalog_json tid name cols))"

lemma catalog_block_ne [simp]: "catalog_block tid name cols \<noteq> []"
  by (simp add: catalog_block_def catalog_json_def)

definition catalog_back :: "int \<Rightarrow> string \<Rightarrow> ColumnDef list \<Rightarrow> Row" where
  "catalog_back tid name cols =
     [(''c0'', VFloat (f64_of_int tid)), (''c1'', VString name), (''c2'', VFloat (f64_of_int 64)), (''c3'', VString (columns_json cols)),
      (''xmax'', VNil), (''xmin'', VFloat (f64_of_int 1))]"

lemma deserialize_catalog_block:
  assumes "utf8_valid name" "list_all column_ok cols" "\<bar>tid\<bar> < 2 ^ 53"
  shows "deserializeRow (catalog_block tid name cols) = Inr (catalog_back tid name cols)"
proof -
  have "parse_json (string_of_bytes (catalog_block tid name cols)) = Some (catalog_json tid name cols)"
    using parse_print [OF catalog_json_ok [OF assms(1,2)]] by (simp add: catalog_block_def)
  then show ?thesis
    using ParseFloat_fmt_d_small [OF assms(3)]
    by (simp add: deserializeRow_def catalog_json_def catalog_back_def fmt_tableY)
qed

lemma columns_json_ne [simp]: "columns_json cols \<noteq> []"
  by (simp add: columns_json_def)

lemma parse_catalog_back:
  assumes "list_all column_ok cols" "\<bar>tid\<bar> < 2 ^ 53" "name \<noteq> []"
  shows "parseCatalogRow (catalog_back tid name cols) =
    Inr \<lparr>entTableID = tid, entName = name, entYLevel = 64, entColumns = cols\<rparr>"
  using assms Unmarshal_columns_json [OF assms(1)]
  by (simp add: parseCatalogRow_def catalog_back_def Let_def)

subsection \<open>Loading\<close>

type_synonym table_def = "int \<times> string \<times> ColumnDef list"

definition def_ok :: "table_def \<Rightarrow> bool" where
  "def_ok d \<longleftrightarrow>
     (case d of (tid, name, cols) \<Rightarrow> 0 < tid \<and> tid < 2 ^ 48 \<and> name \<noteq> [] \<and> utf8_valid name \<and> list_all column_ok cols)"

definition def_block :: "table_def \<Rightarrow> bytes" where
  "def_block d = (case d of (tid, name, cols) \<Rightarrow> catalog_block tid name cols)"

definition def_meta :: "table_def \<Rightarrow> TableMeta" where
  "def_meta d = (case d of (tid, name, cols) \<Rightarrow> new_meta tid name cols)"

definition catalog_repr :: "blocks \<Rightarrow> table_def list \<Rightarrow> bool" where
  "catalog_repr b ds \<longleftrightarrow>
     list_all def_ok ds \<and>
     (\<forall>i < length ds. b (0, catalogY, int i) = Some (def_block (ds ! i))) \<and> b (0, catalogY, int (length ds)) = None"

text \<open>What the loop does for the tables it reads.\<close>

definition load_defs :: "table_def list \<Rightarrow> Storage \<Rightarrow> Storage" where
  "load_defs ds s = fold (\<lambda>d. set_table (fst (snd d)) (def_meta d)) ds s"

definition max_id :: "int \<Rightarrow> table_def list \<Rightarrow> int" where
  "max_id m ds = fold (\<lambda>d m. if fst d > m then fst d else m) ds m"

lemma load_defs_simps [simp]:
  "load_defs [] s = s" "load_defs (d # ds) s = load_defs ds (set_table (fst (snd d)) (def_meta d) s)"
  "load_defs (ds @ ds') s = load_defs ds' (load_defs ds s)"
  by (simp_all add: load_defs_def)

lemma max_id_simps [simp]:
  "max_id m [] = m" "max_id m (d # ds) = max_id (if fst d > m then fst d else m) ds"
  "max_id m (ds @ ds') = max_id (max_id m ds) ds'"
  by (simp_all add: max_id_def)

lemma drop_nth_Cons: "i < length xs \<Longrightarrow> drop i xs = xs ! i # drop (Suc i) xs"
  by (rule Cons_nth_drop_Suc [symmetric])

context hal_reliable
begin

lemma load_loop_run:
  assumes "world_ok w" "catalog_repr (blocks w) ds" "i \<le> length ds" "int (length ds) \<le> maxCatalogZ" "z = int i"
    "lastZ = int i"
  shows "\<exists>w'. load_loop h z m lastZ s w =
      (Inr (max_id m (drop i ds), int (length ds)), load_defs (drop i ds) s, w') \<and>
    world_ok w' \<and> blocks w' = blocks w"
  using assms
proof (induction "length ds - i" arbitrary: i m s w z lastZ)
  case 0
  then have i: "i = length ds" by simp
  show ?case
  proof (cases "int i < maxCatalogZ")
    case True
    obtain w1 where 1: "ReadBlock h 0 catalogY (int i) w = (Inr (blocks w (0, catalogY, int i)), w1)" "world_ok w1" "blocks w1 = blocks w"
      using read_run [OF 0(2)] by blast
    have "blocks w (0, catalogY, int i) = None" using 0(3) i by (simp add: catalog_repr_def)
    then show ?thesis
      using 1 True i 0 by (subst load_loop.simps) simp
  next
    case False
    then show ?thesis using i 0 by (subst load_loop.simps) simp
  qed
next
  case (Suc k)
  then have i: "i < length ds" by simp
  obtain tid name cols where d: "ds ! i = (tid, name, cols)" by (cases "ds ! i")
  have ok: "def_ok (ds ! i)" using Suc.prems(2) i by (simp add: catalog_repr_def list_all_length)
  then have ok': "utf8_valid name" "list_all column_ok cols" "\<bar>tid\<bar> < 2 ^ 53" "name \<noteq> []"
    by (auto simp: def_ok_def d)
  have blk: "blocks w (0, catalogY, int i) = Some (catalog_block tid name cols)"
    using Suc.prems(2) i by (simp add: catalog_repr_def d def_block_def)
  obtain w1 where 1: "ReadBlock h 0 catalogY (int i) w = (Inr (Some (catalog_block tid name cols)), w1)" "world_ok w1" "blocks w1 = blocks w"
    using read_run [OF Suc.prems(1), of 0 catalogY "int i"] blk by metis
  have lt: "int i < maxCatalogZ" using i Suc.prems(4) by linarith
  have step: "load_loop h z m lastZ s w =
      load_loop h (int (Suc i)) (if tid > m then tid else m) (int (Suc i)) (set_table name (new_meta tid name cols) s) w1"
    using lt 1 Suc.prems(5,6) deserialize_catalog_block [OF ok'(1-3)] parse_catalog_back [OF ok'(2-4)]
    by (subst load_loop.simps) (simp add: add.commute)
  have "\<exists>w'. load_loop h (int (Suc i)) (if tid > m then tid else m) (int (Suc i)) (set_table name (new_meta tid name cols) s) w1 =
      (Inr (max_id (if tid > m then tid else m) (drop (Suc i) ds), int (length ds)),
       load_defs (drop (Suc i) ds) (set_table name (new_meta tid name cols) s), w') \<and> world_ok w' \<and> blocks w' = blocks w1"
    using Suc.hyps(2) i Suc.prems(2,4) 1 by (intro Suc.hyps(1)) auto
  then show ?case
    unfolding step drop_nth_Cons [OF i] load_defs_simps max_id_simps d fst_conv snd_conv def_meta_def prod.case
    using 1(3) by simp
qed

lemma LoadCatalog_run:
  assumes "world_ok w" "catalog_repr (blocks w) ds" "int (length ds) \<le> maxCatalogZ"
  obtains w' where
    "LoadCatalog h (NewStorage wl) w =
       (Inr (), (load_defs ds (NewStorage wl))\<lparr>nextCatalogZ := int (length ds), nextTableID := wrap64 (max_id 0 ds + 1)\<rparr>, w')"
    "world_ok w'" "blocks w' = blocks w"
proof -
  have frame: "nextTableID (load_defs ds s) = nextTableID s" for s
    by (induction ds arbitrary: s) (simp_all add: set_table_def)
  have max: "max_id m ds \<ge> m \<and> (ds \<noteq> [] \<longrightarrow> max_id m ds \<ge> fst (hd ds))" for m
    by (induction ds arbitrary: m) (auto, (smt (verit))+)
  have pos: "ds = [] \<and> max_id 0 ds = 0 \<or> 1 \<le> max_id 0 ds"
  proof (cases ds)
    case (Cons d ds')
    then have "0 < fst d" using assms(2) by (auto simp: catalog_repr_def def_ok_def split: prod.splits)
    then show ?thesis using max [of 0] Cons by simp
  qed simp
  obtain w' where "load_loop h 0 0 0 (NewStorage wl) w = (Inr (max_id 0 ds, int (length ds)), load_defs ds (NewStorage wl), w')"
    "world_ok w'" "blocks w' = blocks w"
    using load_loop_run [OF assms(1,2), of 0 0 0 0 "NewStorage wl"] assms(3) by auto
  then show thesis
    using pos frame [of "NewStorage wl"] by (intro that [of w']) (auto simp: LoadCatalog_def Let_def NewStorage_def in_i64_def)
qed

end

subsection \<open>Properties\<close>

text \<open>
  Property C14: the catalog block of a table reads back as the table. For a non-empty name and columns in
  valid UTF-8 and an identifier a \<open>float64\<close> holds exactly, serializing the catalog row, reading it as
  JSON and parsing it gives the identifier, the name and every column with its ordinal and type.
\<close>

theorem catalog_row_roundtrip:
  assumes "name \<noteq> []" "utf8_valid name" "list_all column_ok cols" "\<bar>tid\<bar> < 2 ^ 53"
  shows "\<exists>cj data row. Marshal_columns cols = Inr cj \<and> serializeRow (catalog_row tid name cj) = Inr data \<and>
    deserializeRow data = Inr row \<and>
    parseCatalogRow row = Inr \<lparr>entTableID = tid, entName = name, entYLevel = tableY, entColumns = cols\<rparr>"
  using assms serialize_catalog_row [of tid name cols] deserialize_catalog_block [OF assms(2-4)] parse_catalog_back [OF assms(3,4,1)]
  by (simp add: Marshal_columns_eq catalog_block_def tableY_def)

theorem catalog_row_roundtrip_witness:
  "\<exists>cj data row. Marshal_columns [\<lparr>colName = ''a<b'', colOrdinal = 0, colType = ''INT''\<rparr>] = Inr cj \<and>
    serializeRow (catalog_row 3 ''mobs'' cj) = Inr data \<and> deserializeRow data = Inr row \<and>
    parseCatalogRow row = Inr \<lparr>entTableID = 3, entName = ''mobs'', entYLevel = tableY,
      entColumns = [\<lparr>colName = ''a<b'', colOrdinal = 0, colType = ''INT''\<rparr>]\<rparr>"
  using catalog_row_roundtrip [of "''mobs''" "[\<lparr>colName = ''a<b'', colOrdinal = 0, colType = ''INT''\<rparr>]" 3]
  by (simp add: column_ok_def in_i64_def)

end
