(* ===== verification/Database.thy ===== *)
theory Database
  imports Rows Catalog
begin

text \<open>
  The storage layer as a whole: the invariant of its state and its world, what every operation
  keeps of it, and the simulation between the operations and an abstract database, one list of row
  versions per table. The states a run without failing calls reaches are an inductive relation; its
  invariant gives what every later scan returns.
\<close>

subsection \<open>The invariant\<close>

definition statics :: "Storage \<Rightarrow> table_def list" where
  "statics s = map (\<lambda>t. (ID t, tableName t, Columns t)) (metas s)"

text \<open>
  Tables are numbered from 1 in the order of the heap, the map of names points at each of them, the
  catalog blocks hold exactly them, and both counters are behind the last table.
\<close>

definition storage_ok :: "blocks \<Rightarrow> Storage \<Rightarrow> bool" where
  "storage_ok b s \<longleftrightarrow>
     (\<forall>p < length (metas s). meta_ok (metas s ! p) \<and> ID (metas s ! p) = int p + 1) \<and>
     (\<forall>name p. map_of (tables s) name = Some p \<longleftrightarrow> p < length (metas s) \<and> tableName (metas s ! p) = name) \<and>
     catalog_repr b (statics s) \<and>
     nextCatalogZ s = int (length (metas s)) \<and> nextTableID s = int (length (metas s)) + 1 \<and> lsn_ok (wal s)"

text \<open>The representation of an abstract database.\<close>

definition db_repr :: "blocks \<Rightarrow> Storage \<Rightarrow> version list list \<Rightarrow> bool" where
  "db_repr b s db \<longleftrightarrow> length db = length (metas s) \<and> (\<forall>p < length db. table_repr b (metas s ! p) (db ! p))"

lemma storage_okD:
  assumes "storage_ok b s" "p < length (metas s)"
  shows "meta_ok (metas s ! p)" "ID (metas s ! p) = int p + 1"
  using assms by (simp_all add: storage_ok_def)

lemma storage_ok_parts:
  assumes "storage_ok b s"
  shows "map_of (tables s) name = Some p \<longleftrightarrow> p < length (metas s) \<and> tableName (metas s ! p) = name"
    "catalog_repr b (statics s)" "nextCatalogZ s = int (length (metas s))" "nextTableID s = int (length (metas s)) + 1"
    "lsn_ok (wal s)"
  using assms unfolding storage_ok_def by blast+

lemma storage_okI:
  assumes "\<And>p. p < length (metas s) \<Longrightarrow> meta_ok (metas s ! p) \<and> ID (metas s ! p) = int p + 1"
    "\<And>name p. map_of (tables s) name = Some p \<longleftrightarrow> p < length (metas s) \<and> tableName (metas s ! p) = name"
    "catalog_repr b (statics s)" "nextCatalogZ s = int (length (metas s))" "nextTableID s = int (length (metas s)) + 1"
    "lsn_ok (wal s)"
  shows "storage_ok b s"
  using assms unfolding storage_ok_def by blast

text \<open>Two tables never share a plane.\<close>

lemma planes_disjoint:
  assumes "meta_ok t" "meta_ok t'" "ID t \<noteq> ID t'" "0 \<le> i" "i < tableZSpacing" "0 \<le> j" "j < tableZSpacing"
  shows "ZStart t + i \<noteq> ZStart t' + j"
proof -
  have z: "ZStart t = (ID t - 1) * 10000" "ZStart t' = (ID t' - 1) * 10000"
    using assms(1,2) by (simp_all add: meta_ok_def tableZSpacing_def)
  show ?thesis
  proof (cases "ID t < ID t'")
    case True
    then show ?thesis using z assms(4-7) by (simp add: tableZSpacing_def)
  next
    case False
    with assms(3) have "ID t' < ID t" by simp
    then show ?thesis using z assms(4-7) by (simp add: tableZSpacing_def)
  qed
qed

text \<open>A table only depends on the blocks of its own planes, the catalog on those of its own level.\<close>

lemma table_repr_cong:
  assumes "table_repr b t vs" "meta_ok t"
    "\<And>x i. 0 \<le> i \<Longrightarrow> i < int (length vs) \<Longrightarrow> b' (x, tableY, ZStart t + i) = b (x, tableY, ZStart t + i)"
  shows "table_repr b' t vs"
proof -
  have "strip b' t (ZStart t + int i) = strip b t (ZStart t + int i)" if "i < length vs" for i
    using that assms(2,3) by (intro strip_cong) (simp add: meta_ok_def)
  then show ?thesis using assms(1) by (simp add: table_repr_def)
qed

lemma catalog_repr_cong:
  "catalog_repr b ds \<Longrightarrow> (\<And>z. b' (0, catalogY, z) = b (0, catalogY, z)) \<Longrightarrow> catalog_repr b' ds"
  by (simp add: catalog_repr_def)

lemma levels_differ [simp]: "catalogY \<noteq> tableY" "tableY \<noteq> catalogY" "catalogY \<noteq> walY" "walY \<noteq> catalogY" "walY = tableY"
  by (simp_all add: catalogY_def tableY_def walY_def)

subsection \<open>Inserting\<close>

lemma insert_blocks_frame:
  assumes "0 < lsn" "0 \<le> z'" "z' \<noteq> z"
  shows "insert_blocks t vs txid z lsn js b (x, y', z') = b (x, y', z')"
  using assms by (auto simp: insert_blocks_def put_book_apply log_entry_def put_row_frame)

lemma insert_blocks_catalog:
  assumes "YLevel t = tableY"
  shows "insert_blocks t vs txid z lsn js b (x, catalogY, z') = b (x, catalogY, z')"
  using assms by (simp add: insert_blocks_def put_book_apply put_row_frame)

lemma strip_insert_blocks:
  assumes "StripWidth t = stripWidth (Columns t)" "0 < lsn" "0 \<le> z"
  shows "strip (insert_blocks t vs txid z lsn js b) t z = version_strip (Columns t) (new_version txid vs)"
proof -
  have "strip (insert_blocks t vs txid z lsn js b) t z = strip (put_writes (row_writes (Columns t) vs txid (YLevel t) z) b) t z"
    using assms(2,3) by (intro strip_cong) (auto simp: insert_blocks_def put_book_apply log_entry_def)
  then show ?thesis using strip_row_writes [OF assms(1)] by simp
qed

lemma version_ok_new: "in_i64 txid \<Longrightarrow> row_storable cols vs \<Longrightarrow> version_ok cols (new_version txid vs)"
  by (simp add: version_ok_def new_version_def)

lemma bump_rows_sel:
  assumes "q < length (metas s)"
  shows "length (metas (bump_rows p s)) = length (metas s)"
    "metas (bump_rows p s) ! q = (if q = p then (metas s ! p)\<lparr>RowCount := wrap64 (RowCount (metas s ! p) + 1)\<rparr> else metas s ! q)"
  using assms by (simp_all add: bump_rows_def nth_list_update)

definition bumped :: "TableMeta \<Rightarrow> TableMeta" where
  "bumped t = t\<lparr>RowCount := RowCount t + 1\<rparr>"

lemma strip_bumped [simp]: "strip b (bumped t) z = strip b t z"
  by (simp add: strip_def bumped_def)

lemma table_repr_insert:
  assumes "meta_ok t" "RowCount t < tableZSpacing" "table_repr b t vs" "in_i64 txid" "row_storable (Columns t) row" "0 < lsn"
  shows "table_repr (insert_blocks t row txid (ZStart t + RowCount t) lsn js b) (bumped t) (vs @ [new_version txid row])"
proof -
  let ?b = "insert_blocks t row txid (ZStart t + RowCount t) lsn js b"
  have t: "StripWidth t = stripWidth (Columns t)" "0 \<le> RowCount t" "RowCount t = int (length vs)"
    using assms(1,3) by (simp_all add: meta_ok_def table_repr_def)
  have z: "0 \<le> ZStart t + i" if "0 \<le> i" "i \<le> RowCount t" for i
    using meta_z_range(2) [OF assms(1) that(1)] that assms(2) by simp
  have old: "strip ?b t (ZStart t + int i) = strip b t (ZStart t + int i)" if "i < length vs" for i
    using that z [of "int i"] t assms(6) by (intro strip_cong insert_blocks_frame) auto
  have new: "strip ?b t (ZStart t + int (length vs)) = version_strip (Columns t) (new_version txid row)"
    using strip_insert_blocks [OF t(1) assms(6), of "ZStart t + RowCount t"] z [of "RowCount t"] t by simp
  show ?thesis
    unfolding table_repr_def
  proof (intro conjI allI impI)
    show "RowCount (bumped t) = int (length (vs @ [new_version txid row]))" using t by (simp add: bumped_def)
    fix i
    assume "i < length (vs @ [new_version txid row])"
    then consider "i < length vs" | "i = length vs" by fastforce
    then show "version_ok (Columns (bumped t)) ((vs @ [new_version txid row]) ! i)"
      and "strip ?b (bumped t) (ZStart (bumped t) + int i) = version_strip (Columns (bumped t)) ((vs @ [new_version txid row]) ! i)"
      using assms(3-5) old new version_ok_new by (cases; simp add: table_repr_def nth_append bumped_def [symmetric]; simp add: bumped_def)+
  qed
qed

text \<open>A change of the row counts and of the log that leaves the invariant.\<close>

lemma storage_ok_update:
  assumes "storage_ok b s" "length (metas s') = length (metas s)"
    "\<And>q. q < length (metas s) \<Longrightarrow> meta_ok (metas s' ! q) \<and> (\<exists>n. metas s' ! q = (metas s ! q)\<lparr>RowCount := n\<rparr>)"
    "tables s' = tables s" "nextCatalogZ s' = nextCatalogZ s" "nextTableID s' = nextTableID s" "lsn_ok (wal s')"
    "\<And>z. b' (0, catalogY, z) = b (0, catalogY, z)"
  shows "storage_ok b' s'"
proof -
  have same: "ID (metas s' ! q) = ID (metas s ! q)" "tableName (metas s' ! q) = tableName (metas s ! q)"
    "Columns (metas s' ! q) = Columns (metas s ! q)" if "q < length (metas s)" for q
    using assms(3) [OF that] by auto
  have "statics s' = statics s"
    by (rule nth_equalityI) (simp_all add: statics_def assms(2) same)
  moreover have "catalog_repr b' (statics s)"
    using catalog_repr_cong [OF storage_ok_parts(2) [OF assms(1)] assms(8)] by blast
  ultimately show ?thesis
    using storage_okD(2) [OF assms(1)] storage_ok_parts(1) [OF assms(1)] storage_ok_parts(3-5) [OF assms(1)] same assms(2-7)
    by (intro storage_okI) auto
qed

lemma insert_refines:
  assumes ok: "storage_ok b s" and db: "db_repr b s db" and p: "p < length (metas s)"
    and room: "RowCount (metas s ! p) < tableZSpacing" and tx: "in_i64 txid" and row: "row_storable (Columns (metas s ! p)) vs"
    and lsn: "nextLSN (wal s) + 1 < 2 ^ 62"
    and b': "b' = insert_blocks (metas s ! p) vs txid (ZStart (metas s ! p) + RowCount (metas s ! p)) (nextLSN (wal s)) js b"
    and s': "s' = (bump_rows p s)\<lparr>wal := \<lparr>nextLSN = nextLSN (wal s) + 1\<rparr>\<rparr>"
  shows "storage_ok b' s' \<and> db_repr b' s' (db[p := db ! p @ [new_version txid vs]])"
proof
  let ?t = "metas s ! p"
  note t = storage_okD [OF ok p]
  have lsn0: "0 < nextLSN (wal s)" using ok by (simp add: storage_ok_def lsn_ok_def)
  have rc: "0 \<le> RowCount ?t" using t(1) by (simp add: meta_ok_def)
  then have "wrap64 (RowCount ?t + 1) = RowCount ?t + 1" using room by (simp add: in_i64_def tableZSpacing_def)
  then have nth: "metas s' ! q = (if q = p then bumped ?t else metas s ! q)" if "q < length (metas s)" for q
    using bump_rows_sel(2) [OF that, of p] by (simp add: s' bumped_def)
  have len: "length (metas s') = length (metas s)" using bump_rows_sel(1) [OF p, of p] by (simp add: s')
  have "meta_ok (bumped ?t)" using t(1) room by (simp add: meta_ok_def bumped_def)
  then have upd: "meta_ok (metas s' ! q) \<and> (\<exists>n. metas s' ! q = (metas s ! q)\<lparr>RowCount := n\<rparr>)" if "q < length (metas s)" for q
    using nth [OF that] storage_okD(1) [OF ok that] by (auto simp: bumped_def intro: exI [of _ "RowCount (metas s ! q)"])
  have "YLevel ?t = tableY" using t(1) by (simp add: meta_ok_def)
  then have cat: "b' (0, catalogY, z) = b (0, catalogY, z)" for z using insert_blocks_catalog by (simp add: b')
  show "storage_ok b' s'"
    using lsn lsn0 cat by (intro storage_ok_update [OF ok len upd]) (simp_all add: s' bump_rows_def lsn_ok_def)
  have dbl: "length db = length (metas s)" using db by (simp add: db_repr_def)
  have "table_repr b' (metas s' ! q) (db[p := db ! p @ [new_version txid vs]] ! q)" if q: "q < length (metas s)" for q
  proof (cases "q = p")
    case True
    have "table_repr b ?t (db ! p)" using db p by (simp add: db_repr_def)
    from table_repr_insert [OF t(1) room this tx row lsn0] show ?thesis
      using True nth [OF p] p dbl by (simp add: b')
  next
    case False
    let ?u = "metas s ! q"
    note u = storage_okD [OF ok q]
    have rep: "table_repr b ?u (db ! q)" using db q by (simp add: db_repr_def)
    have "b' (x, tableY, ZStart ?u + i) = b (x, tableY, ZStart ?u + i)" if i: "0 \<le> i" "i < int (length (db ! q))" for x i
    proof -
      have "i < tableZSpacing" using i rep u(1) by (simp add: table_repr_def meta_ok_def)
      then have "ZStart ?u + i \<noteq> ZStart ?t + RowCount ?t" "0 \<le> ZStart ?u + i"
        using planes_disjoint [OF u(1) t(1), of i "RowCount ?t"] meta_z_range(2) [OF u(1) i(1)] u(2) t(2) False i rc room by auto
      then show ?thesis unfolding b' by (intro insert_blocks_frame lsn0)
    qed
    from table_repr_cong [OF rep u(1) this] show ?thesis using False nth [OF q] by simp
  qed
  then show "db_repr b' s' (db[p := db ! p @ [new_version txid vs]])"
    using dbl len by (simp add: db_repr_def)
qed

subsection \<open>Deleting\<close>

definition row_pos :: "TableMeta \<Rightarrow> nat \<Rightarrow> BlockPos" where
  "row_pos t i = mk_pos 0 (YLevel t) (ZStart t + int i)"

lemma delete_blocks_apply:
  assumes "0 < lsn" "0 \<le> z'"
  shows "delete_blocks pos txid lsn b (x, y', z') = xmax_banners (PosY pos) (PosZ pos) txid b (x, y', z')"
  using assms by (auto simp: delete_blocks_def put_book_apply log_entry_def)

lemma delete_blocks_frame:
  "0 < lsn \<Longrightarrow> 0 \<le> z' \<Longrightarrow> z' \<noteq> PosZ pos \<Longrightarrow> delete_blocks pos txid lsn b (x, y', z') = b (x, y', z')"
  by (simp add: delete_blocks_apply xmax_banners_apply)

lemma delete_blocks_catalog:
  "PosY pos = tableY \<Longrightarrow> delete_blocks pos txid lsn b (x, catalogY, z') = b (x, catalogY, z')"
  by (simp add: delete_blocks_def put_book_apply xmax_banners_apply)

lemma table_repr_delete:
  assumes "meta_ok t" "table_repr b t vs" "in_i64 txid" "i < length vs" "0 < lsn"
  shows "table_repr (delete_blocks (row_pos t i) txid lsn b) t (vs[i := delete_version txid (vs ! i)])"
proof -
  let ?b = "delete_blocks (row_pos t i) txid lsn b"
  have t: "StripWidth t = stripWidth (Columns t)" "RowCount t = int (length vs)" "RowCount t \<le> tableZSpacing"
    using assms(1,2) by (simp_all add: meta_ok_def table_repr_def)
  have z: "0 \<le> ZStart t + int j" if "j < length vs" for j
    using meta_z_range(2) [OF assms(1), of "int j"] that t by simp
  have vi: "version_ok (Columns t) (vs ! i)" "strip b t (ZStart t + int i) = version_strip (Columns t) (vs ! i)"
    using assms(2,4) by (simp_all add: table_repr_def)
  have "strip ?b t (ZStart t + int i) = strip (xmax_banners (YLevel t) (ZStart t + int i) txid b) t (ZStart t + int i)"
    using z [OF assms(4)] assms(5) by (intro strip_cong) (simp add: delete_blocks_apply row_pos_def)
  also have "\<dots> = version_strip (Columns t) (delete_version txid (vs ! i))"
    by (rule strip_xmax_banners [OF t(1) vi(2)])
  finally have new: "strip ?b t (ZStart t + int i) = version_strip (Columns t) (delete_version txid (vs ! i))" .
  have old: "strip ?b t (ZStart t + int j) = strip b t (ZStart t + int j)" if "j < length vs" "j \<noteq> i" for j
    using that z [OF that(1)] assms(5) by (intro strip_cong delete_blocks_frame) (simp_all add: row_pos_def)
  have "version_ok (Columns t) (delete_version txid (vs ! i))"
    using vi(1) assms(3) by (simp add: version_ok_def delete_version_def)
  then have "version_ok (Columns t) (vs[i := delete_version txid (vs ! i)] ! j) \<and>
      strip ?b t (ZStart t + int j) = version_strip (Columns t) (vs[i := delete_version txid (vs ! i)] ! j)" if "j < length vs" for j
    using that assms(2,4) new old by (cases "j = i") (simp_all add: table_repr_def)
  then show ?thesis
    using t(2) by (simp add: table_repr_def)
qed

lemma delete_refines:
  assumes ok: "storage_ok b s" and db: "db_repr b s db" and p: "p < length (metas s)" and i: "i < length (db ! p)"
    and tx: "in_i64 txid" and lsn: "nextLSN (wal s) + 1 < 2 ^ 62"
    and b': "b' = delete_blocks (row_pos (metas s ! p) i) txid (nextLSN (wal s)) b"
    and s': "s' = s\<lparr>wal := \<lparr>nextLSN = nextLSN (wal s) + 1\<rparr>\<rparr>"
  shows "storage_ok b' s' \<and> db_repr b' s' (db[p := (db ! p)[i := delete_version txid (db ! p ! i)]])"
proof
  let ?t = "metas s ! p"
  note t = storage_okD [OF ok p]
  have lsn0: "0 < nextLSN (wal s)" using storage_ok_parts(5) [OF ok] by (simp add: lsn_ok_def)
  have rep: "table_repr b ?t (db ! p)" using db p by (simp add: db_repr_def)
  have "YLevel ?t = tableY" using t(1) by (simp add: meta_ok_def)
  then have cat: "b' (0, catalogY, z) = b (0, catalogY, z)" for z
    using delete_blocks_catalog by (simp add: b' row_pos_def)
  have "meta_ok (metas s ! q) \<and> (\<exists>n. metas s ! q = (metas s ! q)\<lparr>RowCount := n\<rparr>)" if "q < length (metas s)" for q
    using storage_okD(1) [OF ok that] by (auto intro: exI [of _ "RowCount (metas s ! q)"])
  then show "storage_ok b' s'"
    using lsn lsn0 cat by (intro storage_ok_update [OF ok]) (simp_all add: s' lsn_ok_def)
  have dbl: "length db = length (metas s)" using db by (simp add: db_repr_def)
  have "table_repr b' (metas s ! q) (db[p := (db ! p)[i := delete_version txid (db ! p ! i)]] ! q)" if q: "q < length (metas s)" for q
  proof (cases "q = p")
    case True
    from table_repr_delete [OF t(1) rep tx i lsn0] show ?thesis using True p dbl by (simp add: b')
  next
    case False
    let ?u = "metas s ! q"
    note u = storage_okD [OF ok q]
    have repq: "table_repr b ?u (db ! q)" using db q by (simp add: db_repr_def)
    have "b' (x, tableY, ZStart ?u + j) = b (x, tableY, ZStart ?u + j)" if j: "0 \<le> j" "j < int (length (db ! q))" for x j
    proof -
      have "j < tableZSpacing" "int i < tableZSpacing"
        using j i repq rep u(1) t(1) by (simp_all add: table_repr_def meta_ok_def)
      then have "ZStart ?u + j \<noteq> ZStart ?t + int i" "0 \<le> ZStart ?u + j"
        using planes_disjoint [OF u(1) t(1), of j "int i"] meta_z_range(2) [OF u(1) j(1)] u(2) t(2) False j by auto
      then show ?thesis unfolding b' by (intro delete_blocks_frame lsn0) (simp_all add: row_pos_def)
    qed
    from table_repr_cong [OF repq u(1) this] show ?thesis using False by simp
  qed
  then show "db_repr b' s' (db[p := (db ! p)[i := delete_version txid (db ! p ! i)]])"
    using dbl by (simp add: db_repr_def s')
qed

subsection \<open>Creating\<close>

lemma new_meta_ok:
  assumes "1 \<le> tid" "tid < 2 ^ 48"
  shows "meta_ok (new_meta tid name cols)"
proof -
  have "wrap64 (tid - 1) = tid - 1" "wrap64 ((tid - 1) * tableZSpacing) = (tid - 1) * tableZSpacing"
    using assms by (auto simp: in_i64_def tableZSpacing_def)
  then show ?thesis using assms by (simp add: meta_ok_def new_meta_def tableZSpacing_def)
qed

definition created :: "string \<Rightarrow> ColumnDef list \<Rightarrow> Storage \<Rightarrow> Storage" where
  "created name cols s =
     (set_table name (new_meta (nextTableID s) name cols) (s\<lparr>nextCatalogZ := nextCatalogZ s + 1\<rparr>))\<lparr>nextTableID := nextTableID s + 1\<rparr>"

context hal_reliable
begin

lemma CreateTable_run:
  assumes ok: "world_ok w" and inv: "storage_ok (blocks w) s" and new: "map_of (tables s) name = None"
    and room: "nextTableID s < 2 ^ 48"
  obtains w' where "CreateTable h name cols s w = (Inr (), created name cols s, w')" "world_ok w'"
    "blocks w' = (blocks w)((0, catalogY, nextCatalogZ s) \<mapsto> catalog_block (nextTableID s) name cols)"
proof -
  note parts = storage_ok_parts [OF inv]
  have wr: "wrap64 (nextCatalogZ s + 1) = nextCatalogZ s + 1" "wrap64 (nextTableID s + 1) = nextTableID s + 1"
    using parts(3,4) room by (auto simp: in_i64_def)
  obtain w' where w': "WriteBlock h 0 catalogY (nextCatalogZ s) BlockTypeBarrel (catalog_block (nextTableID s) name cols) w = (Inr (), w')"
    "world_ok w'" "blocks w' = put_block (0, catalogY, nextCatalogZ s) (catalog_block (nextTableID s) name cols) (blocks w)"
    using write_run [OF ok] by blast
  then show thesis
    using that [of w'] new wr
    by (simp add: CreateTable_def Let_def Marshal_columns_eq serialize_catalog_row catalog_block_def [symmetric]
        created_def set_table_def put_block_def)
qed

end

lemma create_refines:
  assumes ok: "storage_ok b s" and db: "db_repr b s db" and new: "map_of (tables s) name = None"
    and d: "name \<noteq> []" "utf8_valid name" "list_all column_ok cols" and room: "nextTableID s < 2 ^ 48"
    and air: "b (0, catalogY, nextCatalogZ s + 1) = None"
    and b': "b' = b((0, catalogY, nextCatalogZ s) \<mapsto> catalog_block (nextTableID s) name cols)"
    and s': "s' = created name cols s"
  shows "storage_ok b' s' \<and> db_repr b' s' (db @ [[]])"
proof
  let ?n = "length (metas s)" and ?m = "new_meta (nextTableID s) name cols"
  note parts = storage_ok_parts [OF ok]
  have m: "meta_ok ?m" using parts(4) room by (intro new_meta_ok) auto
  have metas': "metas s' = metas s @ [?m]" by (simp add: s' created_def set_table_def)
  have tab: "map_of (tables s') nm = (if nm = name then Some ?n else map_of (tables s) nm)" for nm
    by (simp add: s' created_def set_table_def map_of_update)
  have st: "statics s' = statics s @ [(nextTableID s, name, cols)]"
    by (simp add: statics_def metas' new_meta_def)
  have sl: "length (statics s) = ?n" by (simp add: statics_def)
  have unused: "tableName (metas s ! p) \<noteq> name" if "p < ?n" for p
    using parts(1) [of "tableName (metas s ! p)" p] that new by auto
  have "catalog_repr b' (statics s')"
    using parts(2-4) d room air sl
    by (auto simp: catalog_repr_def st b' def_ok_def def_block_def nth_append less_Suc_eq add.commute split: prod.splits)
  moreover have "map_of (tables s') nm = Some p \<longleftrightarrow> p < length (metas s') \<and> tableName (metas s' ! p) = nm" for nm p
    using parts(1) [of nm p] unused by (auto simp: tab metas' nth_append new_meta_def)
  moreover have "meta_ok (metas s' ! p) \<and> ID (metas s' ! p) = int p + 1" if "p < length (metas s')" for p
    using that m storage_okD [OF ok, of p] parts(4)
    by (cases "p < ?n") (simp_all add: metas' nth_append less_Suc_eq new_meta_def)
  moreover have "nextCatalogZ s' = int (length (metas s'))" "nextTableID s' = int (length (metas s')) + 1" "lsn_ok (wal s')"
    using parts(3-5) by (simp_all add: metas') (simp_all add: s' created_def set_table_def)
  ultimately show "storage_ok b' s'"
    by (intro storage_okI)
  have "table_repr b' (metas s ! p) (db ! p)" if p: "p < ?n" for p
  proof -
    have "table_repr b (metas s ! p) (db ! p)" using db p by (simp add: db_repr_def)
    from table_repr_cong [OF this storage_okD(1) [OF ok p], of b'] show ?thesis by (simp add: b')
  qed
  moreover have "table_repr b' ?m []" by (simp add: table_repr_def new_meta_def)
  ultimately show "db_repr b' s' (db @ [[]])"
    using db by (auto simp: db_repr_def metas' nth_append less_Suc_eq)
qed

subsection \<open>Runs\<close>

text \<open>
  The states reached from an empty world by calls that return without error, with the abstract
  database each of them makes. The guards are the limits of the layout (rows per table, LSNs, table
  identifiers) and what a column can hold; \<open>room_for\<close> says that the block behind the catalog is still air.
\<close>

inductive reach :: "('w, 'e) hal \<Rightarrow> ('w \<Rightarrow> blocks) \<Rightarrow> ('w \<Rightarrow> bool) \<Rightarrow> version list list \<Rightarrow> Storage \<Rightarrow> 'w \<Rightarrow> bool"
  for h blocks ok where
  reach_init: "ok w \<Longrightarrow> (\<And>p. blocks w p = None) \<Longrightarrow> reach h blocks ok [] (NewStorage NewWAL) w"
| reach_create:
    "reach h blocks ok db s w \<Longrightarrow> CreateTable h name cols s w = (Inr (), s', w') \<Longrightarrow>
     name \<noteq> [] \<Longrightarrow> utf8_valid name \<Longrightarrow> list_all column_ok cols \<Longrightarrow> nextTableID s < 2 ^ 48 \<Longrightarrow>
     reach h blocks ok (db @ [[]]) s' w'"
| reach_insert:
    "reach h blocks ok db s w \<Longrightarrow> GetTable name s = (Inr p :: 'e storage_error + nat) \<Longrightarrow>
     InsertRow h p vs txid s w = (Inr pos, s', w') \<Longrightarrow>
     RowCount (metas s ! p) < tableZSpacing \<Longrightarrow> row_storable (Columns (metas s ! p)) vs \<Longrightarrow> in_i64 txid \<Longrightarrow>
     nextLSN (wal s) + 1 < 2 ^ 62 \<Longrightarrow>
     reach h blocks ok (db[p := db ! p @ [new_version txid vs]]) s' w'"
| reach_delete:
    "reach h blocks ok db s w \<Longrightarrow> GetTable name s = (Inr p :: 'e storage_error + nat) \<Longrightarrow> i < length (db ! p) \<Longrightarrow>
     MarkDeleted h (row_pos (metas s ! p) i) txid s w = (Inr (), s', w') \<Longrightarrow> in_i64 txid \<Longrightarrow> nextLSN (wal s) + 1 < 2 ^ 62 \<Longrightarrow>
     reach h blocks ok (db[p := (db ! p)[i := delete_version txid (db ! p ! i)]]) s' w'"
| reach_scan:
    "reach h blocks ok db s w \<Longrightarrow> SeqScan h halt p txid s w = (rs, w') \<Longrightarrow> reach h blocks ok db s w'"

inductive_cases reachE: "reach h blocks ok db s w"

text \<open>Nothing is ever written behind the catalog.\<close>

definition air_behind :: "blocks \<Rightarrow> Storage \<Rightarrow> bool" where
  "air_behind b s \<longleftrightarrow> (\<forall>z. nextCatalogZ s \<le> z \<longrightarrow> b (0, catalogY, z) = None)"

lemma GetTable_Inr: "GetTable name s = (Inr p :: 'e storage_error + nat) \<longleftrightarrow> map_of (tables s) name = Some p"
  by (auto simp: GetTable_def split: option.splits)

lemma CreateTable_new: "CreateTable h name cols s w = (Inr (), s', w') \<Longrightarrow> map_of (tables s) name = None"
  by (auto simp: CreateTable_def split: if_splits)

lemma InsertRow_marshals: "InsertRow h p vs txid s w = (Inr pos, s', w') \<Longrightarrow> \<exists>js. Marshal (VMap vs) = Inr js"
  by (auto simp: InsertRow_def Let_def split: prod.splits sum.splits)

lemma row_blocks_present:
  assumes "meta_ok t" "table_repr b t vs" "i < length vs"
  shows "in_i64 (PosX (row_pos t i))" "in_i64 (PosY (row_pos t i))" "0 \<le> PosZ (row_pos t i)" "in_i64 (PosZ (row_pos t i))"
    "b (2, PosY (row_pos t i), PosZ (row_pos t i)) \<noteq> None" "b (3, PosY (row_pos t i), PosZ (row_pos t i)) \<noteq> None"
proof -
  have "int i \<le> tableZSpacing" using assms by (simp add: table_repr_def meta_ok_def)
  with meta_z_range [OF assms(1), of "int i"]
  show "0 \<le> PosZ (row_pos t i)" "in_i64 (PosZ (row_pos t i))" by (simp_all add: row_pos_def in_i64_def)
  show "in_i64 (PosX (row_pos t i))" "in_i64 (PosY (row_pos t i))"
    using assms(1) by (simp_all add: row_pos_def in_i64_def meta_ok_def tableY_def)
  have w: "4 \<le> StripWidth t" using assms(1) stripWidth_ge [of "Columns t"] by (simp add: meta_ok_def)
  have "strip b t (ZStart t + int i) = version_strip (Columns t) (vs ! i)" using assms(2,3) by (simp add: table_repr_def)
  then have "strip b t (ZStart t + int i) ! 2 \<noteq> None" "strip b t (ZStart t + int i) ! 3 \<noteq> None"
    by (simp_all add: version_strip_def)
  then show "b (2, PosY (row_pos t i), PosZ (row_pos t i)) \<noteq> None" "b (3, PosY (row_pos t i), PosZ (row_pos t i)) \<noteq> None"
    using nth_strip [of 2 t b] nth_strip [of 3 t b] w by (simp_all add: row_pos_def)
qed

definition state_rel :: "blocks \<Rightarrow> version list list \<Rightarrow> Storage \<Rightarrow> bool" where
  "state_rel b db s \<longleftrightarrow> storage_ok b s \<and> db_repr b s db \<and> air_behind b s"

context hal_reliable
begin

lemma rel_create:
  assumes rel: "state_rel (blocks w) db s" "world_ok w" and run: "CreateTable h name cols s w = (Inr (), s', w')"
    and d: "name \<noteq> []" "utf8_valid name" "list_all column_ok cols" "nextTableID s < 2 ^ 48"
  shows "world_ok w' \<and> state_rel (blocks w') (db @ [[]]) s'"
proof -
  have r: "storage_ok (blocks w) s" "db_repr (blocks w) s db" "air_behind (blocks w) s"
    using rel(1) by (simp_all add: state_rel_def)
  note new = CreateTable_new [OF run]
  obtain w1 where w1: "CreateTable h name cols s w = (Inr (), created name cols s, w1)" "world_ok w1"
    "blocks w1 = (blocks w)((0, catalogY, nextCatalogZ s) \<mapsto> catalog_block (nextTableID s) name cols)"
    using CreateTable_run [OF rel(2) r(1) new d(4)] by blast
  have eq: "s' = created name cols s" "w' = w1" using w1(1) run by simp_all
  have "blocks w (0, catalogY, nextCatalogZ s + 1) = None" using r(3) by (simp add: air_behind_def)
  from create_refines [OF r(1,2) new d this w1(3) eq(1)]
  have "storage_ok (blocks w') s'" "db_repr (blocks w') s' (db @ [[]])" using eq(2) by simp_all
  moreover have "air_behind (blocks w') s'"
    using r(3) w1(3) by (simp add: air_behind_def eq created_def set_table_def)
  ultimately show ?thesis using w1(2) eq(2) by (simp add: state_rel_def)
qed

lemma rel_insert:
  assumes rel: "state_rel (blocks w) db s" "world_ok w" and name: "map_of (tables s) name = Some p"
    and run: "InsertRow h p vs txid s w = (Inr pos, s', w')"
    and g: "RowCount (metas s ! p) < tableZSpacing" "row_storable (Columns (metas s ! p)) vs" "in_i64 txid" "nextLSN (wal s) + 1 < 2 ^ 62"
  shows "world_ok w' \<and> state_rel (blocks w') (db[p := db ! p @ [new_version txid vs]]) s'"
proof -
  let ?t = "metas s ! p"
  have r: "storage_ok (blocks w) s" "db_repr (blocks w) s db" "air_behind (blocks w) s"
    using rel(1) by (simp_all add: state_rel_def)
  have p: "p < length (metas s)" using storage_ok_parts(1) [OF r(1)] name by blast
  note t = storage_okD(1) [OF r(1) p]
  obtain js where js: "Marshal (VMap vs) = Inr js" using InsertRow_marshals [OF run] by blast
  obtain w1 where w1: "InsertRow h p vs txid s w =
       (Inr (mk_pos 0 tableY (ZStart ?t + RowCount ?t)), (bump_rows p s)\<lparr>wal := \<lparr>nextLSN = nextLSN (wal s) + 1\<rparr>\<rparr>, w1)" "world_ok w1"
    "blocks w1 = insert_blocks ?t vs txid (ZStart ?t + RowCount ?t) (nextLSN (wal s)) js (blocks w)"
    by (rule InsertRow_run [OF rel(2) t storage_ok_parts(5) [OF r(1)] g(3) js])
  have eq: "s' = (bump_rows p s)\<lparr>wal := \<lparr>nextLSN = nextLSN (wal s) + 1\<rparr>\<rparr>" "w' = w1" using w1(1) run by simp_all
  from insert_refines [OF r(1,2) p g(1,3,2,4) w1(3) eq(1)]
  have "storage_ok (blocks w') s'" "db_repr (blocks w') s' (db[p := db ! p @ [new_version txid vs]])" using eq(2) by simp_all
  moreover have "air_behind (blocks w') s'"
    using r(3) t insert_blocks_catalog [of ?t] by (simp add: air_behind_def eq w1(3) bump_rows_def meta_ok_def)
  ultimately show ?thesis using w1(2) eq(2) by (simp add: state_rel_def)
qed

lemma rel_delete:
  assumes rel: "state_rel (blocks w) db s" "world_ok w" and name: "map_of (tables s) name = Some p" and i: "i < length (db ! p)"
    and run: "MarkDeleted h (row_pos (metas s ! p) i) txid s w = (Inr (), s', w')"
    and g: "in_i64 txid" "nextLSN (wal s) + 1 < 2 ^ 62"
  shows "world_ok w' \<and> state_rel (blocks w') (db[p := (db ! p)[i := delete_version txid (db ! p ! i)]]) s'"
proof -
  let ?t = "metas s ! p"
  have r: "storage_ok (blocks w) s" "db_repr (blocks w) s db" "air_behind (blocks w) s"
    using rel(1) by (simp_all add: state_rel_def)
  have p: "p < length (metas s)" using storage_ok_parts(1) [OF r(1)] name by blast
  note t = storage_okD(1) [OF r(1) p]
  have rep: "table_repr (blocks w) ?t (db ! p)" using r(2) p by (simp add: db_repr_def)
  note at = row_blocks_present [OF t rep i]
  obtain w1 where w1: "MarkDeleted h (row_pos ?t i) txid s w = (Inr (), s\<lparr>wal := \<lparr>nextLSN = nextLSN (wal s) + 1\<rparr>\<rparr>, w1)" "world_ok w1"
    "blocks w1 = delete_blocks (row_pos ?t i) txid (nextLSN (wal s)) (blocks w)"
    by (rule MarkDeleted_run [OF rel(2) storage_ok_parts(5) [OF r(1)] g(1) at])
  have eq: "s' = s\<lparr>wal := \<lparr>nextLSN = nextLSN (wal s) + 1\<rparr>\<rparr>" "w' = w1" using w1(1) run by simp_all
  from delete_refines [OF r(1,2) p i g w1(3) eq(1)]
  have "storage_ok (blocks w') s'" "db_repr (blocks w') s' (db[p := (db ! p)[i := delete_version txid (db ! p ! i)]])"
    using eq(2) by simp_all
  moreover have "air_behind (blocks w') s'"
    using r(3) t delete_blocks_catalog [of "row_pos ?t i"] by (simp add: air_behind_def eq w1(3) row_pos_def meta_ok_def)
  ultimately show ?thesis using w1(2) eq(2) by (simp add: state_rel_def)
qed

lemma rel_init: "(\<And>p. blocks w p = None) \<Longrightarrow> state_rel (blocks w) [] (NewStorage NewWAL)"
  by (simp add: state_rel_def storage_ok_def db_repr_def air_behind_def NewStorage_def NewWAL_def statics_def catalog_repr_def lsn_ok_def)

lemma reach_rel:
  assumes "reach h blocks world_ok db s w"
  shows "world_ok w \<and> state_rel (blocks w) db s"
  using assms
proof induction
  case (reach_init w)
  then show ?case using rel_init by blast
next
  case (reach_create db s w name cols s' w')
  then show ?case using rel_create by blast
next
  case (reach_insert db s w name p vs txid pos s' w')
  then show ?case using rel_insert GetTable_Inr by blast
next
  case (reach_delete db s w name p i txid s' w')
  then show ?case using rel_delete GetTable_Inr by blast
next
  case (reach_scan db s w halt p txid rs w')
  then show ?case using SeqScan_run [of w halt p txid s] by auto
qed

text \<open>A scan of a represented table.\<close>

lemma scan_represented:
  assumes "state_rel (blocks w) db s" "world_ok w" "p < length (metas s)"
  obtains w' where "SeqScan h (\<lambda>_. False) p txid s w = (map ScanRow (table_rows (metas s ! p) txid (db ! p)), w')"
    "world_ok w'" "blocks w' = blocks w"
proof -
  have "meta_ok (metas s ! p)" "table_repr (blocks w) (metas s ! p) (db ! p)"
    using assms storage_okD(1) by (auto simp: state_rel_def db_repr_def)
  from scan_table [OF this] SeqScan_run [OF assms(2), of "\<lambda>_. False" p txid s] that show thesis
    by (auto simp: takeWhile_eq_all_conv [THEN iffD2])
qed

end

subsection \<open>A restart\<close>

lemma load_defs_sel:
  "metas (load_defs ds s) = metas s @ map def_meta ds" "wal (load_defs ds s) = wal s"
  by (induction ds arbitrary: s) (simp_all add: set_table_def)

lemma load_defs_tables:
  assumes "distinct (map (\<lambda>d. fst (snd d)) ds)"
  shows "map_of (tables (load_defs ds s)) name =
    (case map_of (zip (map (\<lambda>d. fst (snd d)) ds) [length (metas s)..<length (metas s) + length ds]) name of
       None \<Rightarrow> map_of (tables s) name | Some p \<Rightarrow> Some p)"
  using assms
proof (induction ds arbitrary: s)
  case (Cons d ds)
  have up: "[length (metas s)..<length (metas s) + length (d # ds)] = length (metas s) # [Suc (length (metas s))..<Suc (length (metas s)) + length ds]"
    by (subst upt_rec) (simp del: upt_Suc)
  have "fst (snd d) \<notin> set (map (\<lambda>d. fst (snd d)) ds)" using Cons.prems by auto
  then have none: "map_of (zip (map (\<lambda>d. fst (snd d)) ds) [Suc (length (metas s))..<Suc (length (metas s)) + length ds]) (fst (snd d)) = None"
    by (subst map_of_zip_is_None) (simp_all del: upt_Suc)
  show ?case
    using Cons none unfolding up
    by (auto simp: set_table_def map_of_update split: option.splits simp del: upt_Suc map_of_zip_is_None)
qed simp

lemma statics_distinct:
  assumes "storage_ok b s"
  shows "distinct (map (\<lambda>d. fst (snd d)) (statics s))"
proof -
  have "i = j" if "i < length (metas s)" "j < length (metas s)" "tableName (metas s ! i) = tableName (metas s ! j)" for i j
    using storage_ok_parts(1) [OF assms, of "tableName (metas s ! i)" i] storage_ok_parts(1) [OF assms, of "tableName (metas s ! i)" j] that
    by auto
  then show ?thesis by (auto simp: statics_def distinct_conv_nth)
qed

lemma max_id_statics:
  assumes "storage_ok b s"
  shows "max_id 0 (statics s) = int (length (metas s))"
proof -
  have "max_id 0 (take k (statics s)) = int k" if "k \<le> length (metas s)" for k
    using that
  proof (induction k)
    case (Suc k)
    then have "statics s ! k = (int k + 1, tableName (metas s ! k), Columns (metas s ! k))"
      using storage_okD(2) [OF assms, of k] by (simp add: statics_def)
    moreover have "k < length (statics s)" using Suc.prems by (simp add: statics_def)
    ultimately show ?case using Suc by (simp add: take_Suc_conv_app_nth)
  qed simp
  from this [of "length (metas s)"] show ?thesis by (simp add: statics_def)
qed

text \<open>What a table becomes when it is read from the catalog: the same table with no rows.\<close>

definition forget_rows :: "TableMeta \<Rightarrow> TableMeta" where
  "forget_rows t = t\<lparr>RowCount := 0\<rparr>"

lemma def_meta_forget: "meta_ok t \<Longrightarrow> def_meta (ID t, tableName t, Columns t) = forget_rows t"
proof -
  assume t: "meta_ok t"
  have "wrap64 (ID t - 1) = ID t - 1" "wrap64 ((ID t - 1) * tableZSpacing) = (ID t - 1) * tableZSpacing"
    using t by (auto simp: meta_ok_def in_i64_def tableZSpacing_def)
  with t show ?thesis by (cases t) (simp add: def_meta_def new_meta_def forget_rows_def meta_ok_def)
qed

lemma map_of_zip_upt:
  "length ns = n \<Longrightarrow> distinct ns \<Longrightarrow> map_of (zip ns [0..<n]) name = Some p \<longleftrightarrow> p < n \<and> ns ! p = name"
  by (subst map_of_eq_Some_iff) (auto simp: set_zip)

context hal_reliable
begin

lemma LoadCatalog_restart:
  assumes ok: "world_ok w" and inv: "storage_ok (blocks w) s" and few: "int (length (metas s)) \<le> maxCatalogZ"
  obtains s' w' where "LoadCatalog h (NewStorage wl) w = (Inr (), s', w')" "world_ok w'" "blocks w' = blocks w"
    "metas s' = map forget_rows (metas s)" "\<And>name. map_of (tables s') name = map_of (tables s) name"
    "nextCatalogZ s' = nextCatalogZ s" "nextTableID s' = nextTableID s" "wal s' = wl"
proof -
  let ?ds = "statics s"
  note parts = storage_ok_parts [OF inv]
  have len: "length ?ds = length (metas s)" by (simp add: statics_def)
  then have few': "int (length ?ds) \<le> maxCatalogZ" using few by simp
  obtain w' where w': "LoadCatalog h (NewStorage wl) w =
       (Inr (), (load_defs ?ds (NewStorage wl))\<lparr>nextCatalogZ := int (length ?ds), nextTableID := wrap64 (max_id 0 ?ds + 1)\<rparr>, w')"
    "world_ok w'" "blocks w' = blocks w"
    by (rule LoadCatalog_run [OF ok parts(2) few'])
  have "def_meta (?ds ! i) = forget_rows (metas s ! i)" if "i < length (metas s)" for i
    using that def_meta_forget [OF storage_okD(1) [OF inv that]] by (simp add: statics_def)
  then have metas': "map def_meta ?ds = map forget_rows (metas s)"
    by (intro nth_equalityI) (simp_all add: len)
  have "wrap64 (max_id 0 ?ds + 1) = nextTableID s"
    using max_id_statics [OF inv] parts(4) few by (simp add: in_i64_def maxCatalogZ_def)
  moreover have "map_of (tables (load_defs ?ds (NewStorage wl))) name = map_of (tables s) name" for name
  proof -
    let ?ns = "map (\<lambda>d. fst (snd d)) ?ds"
    have "map_of (tables (load_defs ?ds (NewStorage wl))) name = map_of (zip ?ns [0..<length (metas s)]) name"
      using load_defs_tables [OF statics_distinct [OF inv], of "NewStorage wl" name] by (simp add: NewStorage_def len split: option.splits del: map_of_zip_is_None)
    moreover have "map_of (zip ?ns [0..<length (metas s)]) name = Some p \<longleftrightarrow> map_of (tables s) name = Some p" for p
      using map_of_zip_upt [of ?ns "length (metas s)" name p] statics_distinct [OF inv] parts(1) [of name p]
      by (auto simp: len) (auto simp: statics_def)
    ultimately show ?thesis by (metis option.exhaust)
  qed
  ultimately show thesis
    using w' parts(3) by (intro that [of "(load_defs ?ds (NewStorage wl))\<lparr>nextCatalogZ := int (length ?ds), nextTableID := wrap64 (max_id 0 ?ds + 1)\<rparr>" w'])
      (simp_all add: load_defs_sel metas' len, simp_all add: NewStorage_def)
qed

end

subsection \<open>Each operation succeeds and simulates\<close>

context hal_reliable
begin

lemma create_simulates:
  assumes rel: "state_rel (blocks w) db s" "world_ok w" and new: "map_of (tables s) name = None"
    and d: "name \<noteq> []" "utf8_valid name" "list_all column_ok cols" "nextTableID s < 2 ^ 48"
  obtains s' w' where "CreateTable h name cols s w = (Inr (), s', w')" "world_ok w'" "state_rel (blocks w') (db @ [[]]) s'"
    "GetTable name s' = (Inr (length db) :: 'b storage_error + nat)"
proof -
  have r: "storage_ok (blocks w) s" "db_repr (blocks w) s db" using rel(1) by (simp_all add: state_rel_def)
  obtain w' where run: "CreateTable h name cols s w = (Inr (), created name cols s, w')"
    by (rule CreateTable_run [OF rel(2) r(1) new d(4)])
  from rel_create [OF rel run d] have "world_ok w'" "state_rel (blocks w') (db @ [[]]) (created name cols s)" by simp_all
  moreover have "GetTable name (created name cols s) = (Inr (length db) :: 'b storage_error + nat)"
    using r(2) by (simp add: GetTable_def created_def set_table_def map_of_update db_repr_def)
  ultimately show thesis using that run by blast
qed

lemma insert_simulates:
  assumes rel: "state_rel (blocks w) db s" "world_ok w" and name: "map_of (tables s) name = Some p"
    and js: "Marshal (VMap vs) = Inr js"
    and g: "RowCount (metas s ! p) < tableZSpacing" "row_storable (Columns (metas s ! p)) vs" "in_i64 txid" "nextLSN (wal s) + 1 < 2 ^ 62"
  obtains s' w' where "InsertRow h p vs txid s w = (Inr (row_pos (metas s ! p) (length (db ! p))), s', w')" "world_ok w'"
    "state_rel (blocks w') (db[p := db ! p @ [new_version txid vs]]) s'" "nextLSN (wal s') = nextLSN (wal s) + 1"
proof -
  have r: "storage_ok (blocks w) s" "db_repr (blocks w) s db" using rel(1) by (simp_all add: state_rel_def)
  have p: "p < length (metas s)" using storage_ok_parts(1) [OF r(1)] name by blast
  note t = storage_okD(1) [OF r(1) p]
  have "RowCount (metas s ! p) = int (length (db ! p))" using r(2) p by (simp add: db_repr_def table_repr_def)
  then have pos: "mk_pos 0 tableY (ZStart (metas s ! p) + RowCount (metas s ! p)) = row_pos (metas s ! p) (length (db ! p))"
    using t by (simp add: row_pos_def meta_ok_def)
  obtain s' w' where run: "InsertRow h p vs txid s w = (Inr (row_pos (metas s ! p) (length (db ! p))), s', w')"
      "nextLSN (wal s') = nextLSN (wal s) + 1"
    by (rule InsertRow_run [OF rel(2) t storage_ok_parts(5) [OF r(1)] g(3) js]) (simp add: pos)
  from rel_insert [OF rel name run(1) g] that run show thesis by blast
qed

lemma delete_simulates:
  assumes rel: "state_rel (blocks w) db s" "world_ok w" and name: "map_of (tables s) name = Some p" and i: "i < length (db ! p)"
    and g: "in_i64 txid" "nextLSN (wal s) + 1 < 2 ^ 62"
  obtains s' w' where "MarkDeleted h (row_pos (metas s ! p) i) txid s w = (Inr (), s', w')" "world_ok w'"
    "state_rel (blocks w') (db[p := (db ! p)[i := delete_version txid (db ! p ! i)]]) s'" "nextLSN (wal s') = nextLSN (wal s) + 1"
proof -
  have r: "storage_ok (blocks w) s" "db_repr (blocks w) s db" using rel(1) by (simp_all add: state_rel_def)
  have p: "p < length (metas s)" using storage_ok_parts(1) [OF r(1)] name by blast
  have rep: "table_repr (blocks w) (metas s ! p) (db ! p)" using r(2) p by (simp add: db_repr_def)
  obtain s' w' where run: "MarkDeleted h (row_pos (metas s ! p) i) txid s w = (Inr (), s', w')" "nextLSN (wal s') = nextLSN (wal s) + 1"
    by (rule MarkDeleted_run [OF rel(2) storage_ok_parts(5) [OF r(1)] g(1) row_blocks_present [OF storage_okD(1) [OF r(1) p] rep i]]) simp
  from rel_delete [OF rel name i run(1) g] that run show thesis by blast
qed

end

text \<open>A state to evaluate on: one table of three columns in the in-memory store, with one row.\<close>

lemma mock_start: "state_rel (mock_blocks NewStorage_mock) [] (NewStorage NewWAL)"
  by (rule mock.rel_init) (simp add: mock_blocks_new)

lemma sample_columns_ok: "list_all column_ok sample_columns"
  by (simp add: sample_columns_def column_ok_def in_i64_def)

lemma sample_table:
  obtains s w where "reach (mock_hal :: (mock, unit) hal) mock_blocks mock_ok [[]] s w" "mock_ok w"
    "state_rel (mock_blocks w) [[]] s" "GetTable ''t'' s = (Inr 0 :: unit storage_error + nat)"
    "map_of (tables s) ''t'' = Some 0" "Columns (metas s ! 0) = sample_columns" "nextLSN (wal s) = 1" "length (metas s) = 1"
proof -
  have id: "nextTableID (NewStorage NewWAL) < 2 ^ 48" by (simp add: NewStorage_def)
  have new: "map_of (tables (NewStorage NewWAL)) ''t'' = None" by (simp add: NewStorage_def)
  have ok: "storage_ok (mock_blocks NewStorage_mock) (NewStorage NewWAL)" using mock_start by (simp add: state_rel_def)
  obtain w where w: "CreateTable (mock_hal :: (mock, unit) hal) ''t'' sample_columns (NewStorage NewWAL) NewStorage_mock =
      (Inr (), created ''t'' sample_columns (NewStorage NewWAL), w)"
    by (rule mock.CreateTable_run [OF mock_ok_new ok new id])
  let ?s = "created ''t'' sample_columns (NewStorage NewWAL)"
  have u: "utf8_valid ''t''" by simp
  have "mock_ok w \<and> state_rel (mock_blocks w) ([] @ [[]]) ?s"
    by (rule mock.rel_create [OF mock_start mock_ok_new w _ u sample_columns_ok id]) simp
  moreover have "reach (mock_hal :: (mock, unit) hal) mock_blocks mock_ok ([] @ [[]]) ?s w"
    by (rule reach_create [OF reach_init w _ u sample_columns_ok id]) (simp_all add: mock_blocks_new)
  ultimately show thesis
    by (intro that [of ?s w]) (simp_all add: GetTable_def created_def set_table_def NewStorage_def NewWAL_def new_meta_def)
qed

lemma sample_marshal: "Marshal (VMap sample_values) \<noteq> Inl e"
  by (simp add: Marshal_def sample_values_def collect_Inr map_sum_id_Inr split: sum.splits)

lemma sample_row:
  obtains s w where "reach (mock_hal :: (mock, unit) hal) mock_blocks mock_ok [[new_version 1 sample_values]] s w" "mock_ok w"
    "state_rel (mock_blocks w) [[new_version 1 sample_values]] s" "GetTable ''t'' s = (Inr 0 :: unit storage_error + nat)"
    "map_of (tables s) ''t'' = Some 0" "nextLSN (wal s) = 2" "length (metas s) = 1" "Columns (metas s ! 0) = sample_columns"
proof -
  obtain s w where t: "reach (mock_hal :: (mock, unit) hal) mock_blocks mock_ok [[]] s w" "mock_ok w"
    "state_rel (mock_blocks w) [[]] s" "GetTable ''t'' s = (Inr 0 :: unit storage_error + nat)"
    "map_of (tables s) ''t'' = Some 0" "Columns (metas s ! 0) = sample_columns" "nextLSN (wal s) = 1" "length (metas s) = 1"
    by (rule sample_table)
  obtain js where js: "Marshal (VMap sample_values) = Inr js"
    using sample_marshal by (cases "Marshal (VMap sample_values)") auto
  have rc: "RowCount (metas s ! 0) < tableZSpacing"
    using t(3,8) by (simp add: state_rel_def db_repr_def table_repr_def tableZSpacing_def)
  have i: "in_i64 1" by (simp add: in_i64_def)
  have lsn: "nextLSN (wal s) + 1 < 2 ^ 62" "lsn_ok (wal s)" using t(7) by (simp_all add: lsn_ok_def)
  have row: "row_storable (Columns (metas s ! 0)) sample_values" using sample_storable t(6) by simp
  have m: "meta_ok (metas s ! 0)" using t(3,8) by (auto simp: state_rel_def dest: storage_okD)
  obtain w' where run: "InsertRow (mock_hal :: (mock, unit) hal) 0 sample_values 1 s w =
      (Inr (mk_pos 0 tableY (ZStart (metas s ! 0) + RowCount (metas s ! 0))), (bump_rows 0 s)\<lparr>wal := \<lparr>nextLSN = nextLSN (wal s) + 1\<rparr>\<rparr>, w')"
    by (rule mock.InsertRow_run [OF t(2) m lsn(2) i js])
  let ?s = "(bump_rows 0 s)\<lparr>wal := \<lparr>nextLSN = nextLSN (wal s) + 1\<rparr>\<rparr>"
  have "mock_ok w' \<and> state_rel (mock_blocks w') ([[]][0 := [[]] ! 0 @ [new_version 1 sample_values]]) ?s"
    by (rule mock.rel_insert [OF t(3,2,5) run rc row i lsn(1)])
  moreover have "reach (mock_hal :: (mock, unit) hal) mock_blocks mock_ok ([[]][0 := [[]] ! 0 @ [new_version 1 sample_values]]) ?s w'"
    by (rule reach_insert [OF t(1,4) run rc row i lsn(1)])
  ultimately show thesis
    using t(4,5,6,7,8) by (intro that [of ?s w']) (simp_all add: GetTable_def bump_rows_def)
qed

subsection \<open>Properties\<close>

text \<open>
  Property C1: a scan returns the database. After any run of the storage layer on an empty world, made of table
  creations, inserts, deletes and scans that returned without error, a scan of a table returns exactly
  the rows of the abstract database that are visible to the transaction, in the order they were inserted, each
  with its position, and leaves every block as it is.
\<close>

theorem scan_returns_database:
  assumes "hal_reliable h blocks ok" "reach h blocks ok db s w" "GetTable name s = (Inr p :: 'e storage_error + nat)"
  shows "\<exists>w'. SeqScan h (\<lambda>_. False) p txid s w =
      (map ScanRow (map (\<lambda>(i, v). located (metas s ! p) (ZStart (metas s ! p) + int i) (version_row (Columns (metas s ! p)) v))
         (filter (\<lambda>(i, v). visible txid v) (enumerate 0 (db ! p)))), w') \<and> blocks w' = blocks w"
proof -
  have rel: "ok w" "state_rel (blocks w) db s" using hal_reliable.reach_rel [OF assms(1,2)] by auto
  then have p: "p < length (metas s)" using assms(3) storage_ok_parts(1) by (auto simp: GetTable_Inr state_rel_def)
  from hal_reliable.scan_represented [OF assms(1) rel(2,1) p, of txid] show ?thesis by (auto simp: table_rows_def)
qed

theorem scan_returns_database_witness:
  "\<exists>s w w' row. reach (mock_hal :: (mock, unit) hal) mock_blocks mock_ok [[new_version 1 sample_values]] s w \<and>
    SeqScan (mock_hal :: (mock, unit) hal) (\<lambda>_. False) 0 1 s w = ([ScanRow row], w')"
proof -
  obtain s w where r: "reach (mock_hal :: (mock, unit) hal) mock_blocks mock_ok [[new_version 1 sample_values]] s w"
    "GetTable ''t'' s = (Inr 0 :: unit storage_error + nat)"
    using sample_row by metis
  have "visible 1 (new_version 1 sample_values)" by (simp add: visible_def new_version_def)
  then show ?thesis
    using scan_returns_database [OF mock.hal_reliable_axioms r, of 1] r(1) by fastforce
qed

text \<open>
  Property C10: creating a table. In a state that represents a database, creating a table with a new, non-empty
  name succeeds, the new state represents the database with one more, empty table, the table is found under
  its name, and creating it again fails and changes nothing.
\<close>

theorem create_table_correct:
  fixes h :: "('w, 'e) hal" and cols' :: "ColumnDef list"
  assumes "hal_reliable h blocks ok" "ok w" "state_rel (blocks w) db s" "map_of (tables s) name = None"
    "name \<noteq> []" "utf8_valid name" "list_all column_ok cols" "nextTableID s < 2 ^ 48"
  shows "\<exists>s' w'. CreateTable h name cols s w = (Inr (), s', w') \<and> ok w' \<and> state_rel (blocks w') (db @ [[]]) s' \<and>
    GetTable name s' = (Inr (length db) :: 'e storage_error + nat) \<and>
    CreateTable h name cols' s' w' = (Inl (TableExists name), s', w')"
proof -
  obtain s' w' where r: "CreateTable h name cols s w = (Inr (), s', w')" "ok w'" "state_rel (blocks w') (db @ [[]]) s'"
    "GetTable name s' = (Inr (length db) :: 'e storage_error + nat)"
    by (rule hal_reliable.create_simulates [OF assms(1,3,2,4-8)])
  moreover have "CreateTable h name cols' s' w' = (Inl (TableExists name), s', w')"
    using r(4) by (simp add: CreateTable_def GetTable_Inr)
  ultimately show ?thesis by blast
qed

theorem create_table_correct_witness:
  "\<exists>s' w'. CreateTable (mock_hal :: (mock, unit) hal) ''t'' sample_columns (NewStorage NewWAL) NewStorage_mock = (Inr (), s', w') \<and>
    GetTable ''t'' s' = (Inr 0 :: unit storage_error + nat)"
  using create_table_correct [where 'e = unit, of mock_hal mock_blocks mock_ok NewStorage_mock "[]" "NewStorage NewWAL" "''t''" sample_columns "[]",
      OF mock.hal_reliable_axioms mock_ok_new mock_start] sample_columns_ok
  by (auto simp: NewStorage_def)

text \<open>
  Property C8: inserting a row. In a state that represents a database, inserting a row the columns can hold into a
  table with room for it succeeds, returns the position of the row behind the last one, and the new state represents the
  database with one more version in that table and every other table unchanged.
\<close>

theorem insert_row_correct:
  assumes "hal_reliable h blocks ok" "ok w" "state_rel (blocks w) db s" "GetTable name s = (Inr p :: 'e storage_error + nat)"
    "Marshal (VMap vs) = Inr js" "RowCount (metas s ! p) < 10000" "row_storable (Columns (metas s ! p)) vs" "in_i64 txid"
    "nextLSN (wal s) + 1 < 2 ^ 62"
  shows "\<exists>s' w'. InsertRow h p vs txid s w = (Inr (row_pos (metas s ! p) (length (db ! p))), s', w') \<and> ok w' \<and>
    state_rel (blocks w') (db[p := db ! p @ [\<lparr>vmin = txid, vmax = None, vals = vs\<rparr>]]) s'"
proof -
  have name: "map_of (tables s) name = Some p" using assms(4) by (simp add: GetTable_Inr)
  have room: "RowCount (metas s ! p) < tableZSpacing" using assms(6) by (simp add: tableZSpacing_def)
  show ?thesis
    by (rule hal_reliable.insert_simulates [OF assms(1,3,2) name assms(5) room assms(7,8,9)]) (auto simp: new_version_def)
qed

theorem insert_row_correct_witness:
  "\<exists>s w s' w' pos. InsertRow (mock_hal :: (mock, unit) hal) 0 sample_values 1 s w = (Inr pos, s', w') \<and>
    state_rel (mock_blocks w') [[\<lparr>vmin = 1, vmax = None, vals = sample_values\<rparr>]] s'"
proof -
  obtain s w where t: "mock_ok w" "state_rel (mock_blocks w) [[]] s" "GetTable ''t'' s = (Inr 0 :: unit storage_error + nat)"
    "Columns (metas s ! 0) = sample_columns" "nextLSN (wal s) = 1" "length (metas s) = 1"
    by (rule sample_table) blast
  obtain js where js: "Marshal (VMap sample_values) = Inr js"
    using sample_marshal by (cases "Marshal (VMap sample_values)") auto
  have "RowCount (metas s ! 0) < 10000" "row_storable (Columns (metas s ! 0)) sample_values"
    using t sample_storable by (simp_all add: state_rel_def db_repr_def table_repr_def)
  from insert_row_correct [OF mock.hal_reliable_axioms t(1-3) js this, of 1] show ?thesis
    using t(5) by (force simp: in_i64_def)
qed

text \<open>
  Property C9: deleting a row. In a state that represents a database, deleting row \<open>i\<close> of a table succeeds, and
  the new state represents the database with the deleting transaction as the \<open>xmax\<close> of that version, and
  nothing else changed.
\<close>

theorem mark_deleted_correct:
  assumes "hal_reliable h blocks ok" "ok w" "state_rel (blocks w) db s" "GetTable name s = (Inr p :: 'e storage_error + nat)"
    "i < length (db ! p)" "in_i64 txid" "nextLSN (wal s) + 1 < 2 ^ 62"
  shows "\<exists>s' w'. MarkDeleted h (row_pos (metas s ! p) i) txid s w = (Inr (), s', w') \<and> ok w' \<and>
    state_rel (blocks w') (db[p := (db ! p)[i := (db ! p ! i)\<lparr>vmax := Some txid\<rparr>]]) s'"
proof -
  have name: "map_of (tables s) name = Some p" using assms(4) by (simp add: GetTable_Inr)
  show ?thesis
    by (rule hal_reliable.delete_simulates [OF assms(1,3,2) name assms(5-7)]) (auto simp: delete_version_def)
qed

theorem mark_deleted_correct_witness:
  "\<exists>s w s' w'. MarkDeleted (mock_hal :: (mock, unit) hal) (row_pos (metas s ! 0) 0) 3 s w = (Inr (), s', w') \<and>
    state_rel (mock_blocks w') [[\<lparr>vmin = 1, vmax = Some 3, vals = sample_values\<rparr>]] s'"
proof -
  obtain s w where t: "mock_ok w" "state_rel (mock_blocks w) [[new_version 1 sample_values]] s"
    "GetTable ''t'' s = (Inr 0 :: unit storage_error + nat)" "nextLSN (wal s) = 2"
    by (rule sample_row) blast
  show ?thesis
    using mark_deleted_correct [OF mock.hal_reliable_axioms t(1-3), of 0 3] t(4)
    by (force simp: in_i64_def new_version_def)
qed

end
