(* ===== verification/Restart.thy ===== *)
theory Restart
  imports Database
begin

text \<open>
  A new process on an existing world. The catalog brings back every table, its columns and the two counters, but not
  how many rows a table has: the restarted storage layer represents the database with every table empty. The
  bounds of a table's range of planes are here too: nothing stops the row count at the spacing of two tables.
\<close>

subsection \<open>The state after a restart\<close>

definition emptied :: "version list list \<Rightarrow> version list list" where
  "emptied db = map (\<lambda>_. []) db"

lemma forget_rows_sel [simp]:
  "ID (forget_rows t) = ID t" "tableName (forget_rows t) = tableName t" "Columns (forget_rows t) = Columns t"
  "ZStart (forget_rows t) = ZStart t" "RowCount (forget_rows t) = 0" "YLevel (forget_rows t) = YLevel t"
  by (simp_all add: forget_rows_def)

lemma meta_ok_forget: "meta_ok t \<Longrightarrow> meta_ok (forget_rows t)"
  by (simp add: meta_ok_def forget_rows_def)

lemma state_rel_restart:
  assumes rel: "state_rel b db s" and wl: "lsn_ok (wal s')"
    and s': "metas s' = map forget_rows (metas s)" "\<And>name. map_of (tables s') name = map_of (tables s) name"
      "nextCatalogZ s' = nextCatalogZ s" "nextTableID s' = nextTableID s"
  shows "state_rel b (emptied db) s'"
proof -
  have r: "storage_ok b s" "db_repr b s db" "air_behind b s" using rel by (simp_all add: state_rel_def)
  note parts = storage_ok_parts [OF r(1)]
  have "statics s' = statics s" by (simp add: statics_def s'(1))
  then have "storage_ok b s'"
    using parts wl s' meta_ok_forget storage_okD [OF r(1)] by (intro storage_okI) (auto simp: s')
  moreover have "db_repr b s' (emptied db)"
    using r(2) by (simp add: db_repr_def emptied_def s'(1) table_repr_def)
  ultimately show ?thesis using r(3) s'(3) by (simp add: state_rel_def air_behind_def)
qed

lemma emptied_nth [simp]: "p < length db \<Longrightarrow> emptied db ! p = []" "length (emptied db) = length db"
  by (simp_all add: emptied_def)

lemma row_pos_forget [simp]: "row_pos (forget_rows t) i = row_pos t i"
  by (simp add: row_pos_def)

context hal_reliable
begin

lemma restart_run:
  assumes ok: "world_ok w" and rel: "state_rel (blocks w) db s" and few: "int (length (metas s)) \<le> maxCatalogZ" and wl: "lsn_ok wl"
  obtains s' w' where "LoadCatalog h (NewStorage wl) w = (Inr (), s', w')" "world_ok w'" "blocks w' = blocks w"
    "metas s' = map forget_rows (metas s)" "\<And>name. map_of (tables s') name = map_of (tables s) name"
    "nextCatalogZ s' = nextCatalogZ s" "nextTableID s' = nextTableID s" "wal s' = wl" "state_rel (blocks w') (emptied db) s'"
proof -
  have inv: "storage_ok (blocks w) s" using rel by (simp add: state_rel_def)
  obtain s' w' where r: "LoadCatalog h (NewStorage wl) w = (Inr (), s', w')" "world_ok w'" "blocks w' = blocks w"
    "metas s' = map forget_rows (metas s)" "\<And>name. map_of (tables s') name = map_of (tables s) name"
    "nextCatalogZ s' = nextCatalogZ s" "nextTableID s' = nextTableID s" "wal s' = wl"
    by (rule LoadCatalog_restart [OF ok inv few, of wl]) blast
  with state_rel_restart [OF rel, of s'] wl that show thesis by simp
qed

end

lemma next_plane:
  assumes "storage_ok b s" "Suc p < length (metas s)" "RowCount (metas s ! p) = 10000"
  shows "ZStart (metas s ! p) + RowCount (metas s ! p) = ZStart (metas s ! Suc p)" "0 \<le> ZStart (metas s ! Suc p)"
  using assms storage_okD [OF assms(1), of p] storage_okD [OF assms(1,2)] by (simp_all add: meta_ok_def tableZSpacing_def)

subsection \<open>Properties\<close>

text \<open>
  Property C13: the catalog survives a restart. A new storage layer that loads the catalog from the world of one that
  represented a database of at most 1024 tables finds every table under its name with its number, columns, strip and
  planes, and continues both counters; no block changes. The row counts are all 0.
\<close>

theorem catalog_survives_restart:
  assumes "hal_reliable h blocks ok" "ok w" "state_rel (blocks w) db s" "length (metas s) \<le> 1024" "lsn_ok wl"
  shows "\<exists>s' w'. LoadCatalog h (NewStorage wl) w = (Inr (), s', w') \<and> blocks w' = blocks w \<and>
    (\<forall>name. map_of (tables s') name = map_of (tables s) name) \<and>
    metas s' = map (\<lambda>t. t\<lparr>RowCount := 0\<rparr>) (metas s) \<and>
    nextCatalogZ s' = nextCatalogZ s \<and> nextTableID s' = nextTableID s \<and>
    state_rel (blocks w') (map (\<lambda>_. []) db) s'"
proof -
  have few: "int (length (metas s)) \<le> maxCatalogZ" using assms(4) by (simp add: maxCatalogZ_def)
  show ?thesis
    by (rule hal_reliable.restart_run [OF assms(1-3) few assms(5)]) (auto simp: emptied_def forget_rows_def [abs_def])
qed

theorem catalog_survives_restart_witness:
  "\<exists>s w s' w'. LoadCatalog (mock_hal :: (mock, unit) hal) (NewStorage NewWAL) w = (Inr (), s', w') \<and>
    map_of (tables s') ''t'' = Some 0 \<and> length (metas s') = 1"
proof -
  obtain s w where t: "mock_ok w" "state_rel (mock_blocks w) [[]] s" "map_of (tables s) ''t'' = Some 0" "length (metas s) = 1"
    by (rule sample_table) blast
  have "length (metas s) \<le> 1024" "lsn_ok NewWAL" using t(4) by (simp_all add: NewWAL_def lsn_ok_def)
  from catalog_survives_restart [OF mock.hal_reliable_axioms t(1,2) this] t(3,4) show ?thesis
    by (metis length_map)
qed

text \<open>
  Property C24: a restart forgets the rows. After a restart a scan of any table returns nothing, whatever
  rows its planes hold, and the first insert into it succeeds at the position of the table's first row, which it overwrites.
\<close>

theorem restart_forgets_rows:
  assumes "hal_reliable h blocks ok" "ok w" "state_rel (blocks w) db s" "length (metas s) \<le> 1024" "lsn_ok wl" "nextLSN wl + 1 < 2 ^ 62"
    "p < length (metas s)" "Marshal (VMap vs) = Inr js" "row_storable (Columns (metas s ! p)) vs" "in_i64 txid"
  shows "\<exists>s1 w1 w2 s3 w3. LoadCatalog h (NewStorage wl) w = (Inr (), s1, w1) \<and>
    SeqScan h halt p txid' s1 w1 = ([], w2) \<and> w2 = w1 \<and>
    InsertRow h p vs txid s1 w1 = (Inr (row_pos (metas s ! p) 0), s3, w3) \<and>
    strip (blocks w3) (metas s ! p) (ZStart (metas s ! p)) = version_strip (Columns (metas s ! p)) \<lparr>vmin = txid, vmax = None, vals = vs\<rparr>"
proof -
  have few: "int (length (metas s)) \<le> maxCatalogZ" using assms(4) by (simp add: maxCatalogZ_def)
  have len: "length db = length (metas s)" using assms(3) by (simp add: state_rel_def db_repr_def)
  obtain s1 w1 where r: "LoadCatalog h (NewStorage wl) w = (Inr (), s1, w1)" "ok w1" "metas s1 = map forget_rows (metas s)"
    "\<And>name. map_of (tables s1) name = map_of (tables s) name" "wal s1 = wl" "state_rel (blocks w1) (emptied db) s1"
    by (rule hal_reliable.restart_run [OF assms(1-3) few assms(5)]) blast
  have inv: "storage_ok (blocks w) s" using assms(3) by (simp add: state_rel_def)
  have name: "map_of (tables s1) (tableName (metas s ! p)) = Some p"
    using storage_ok_parts(1) [OF inv] assms(7) r(4) by simp
  have g: "RowCount (metas s1 ! p) < tableZSpacing" "row_storable (Columns (metas s1 ! p)) vs" "nextLSN (wal s1) + 1 < 2 ^ 62"
    using assms(6,7,9) r(3,5) by (simp_all add: tableZSpacing_def)
  obtain s3 w3 where i: "InsertRow h p vs txid s1 w1 = (Inr (row_pos (metas s1 ! p) (length (emptied db ! p))), s3, w3)"
      "state_rel (blocks w3) ((emptied db)[p := emptied db ! p @ [new_version txid vs]]) s3"
    by (rule hal_reliable.insert_simulates [OF assms(1) r(6,2) name assms(8) g(1,2) assms(10) g(3)])
  have "SeqScan h halt p txid' s1 w1 = ([], w1)" using r(3) assms(7) by (simp add: SeqScan_def)
  moreover have "table_repr (blocks w3) (metas s3 ! p) [new_version txid vs]"
    using i(2) assms(7) len by (auto simp: state_rel_def db_repr_def emptied_def)
  moreover have "Columns (metas s3 ! p) = Columns (metas s ! p) \<and> ZStart (metas s3 ! p) = ZStart (metas s ! p) \<and>
      YLevel (metas s3 ! p) = YLevel (metas s ! p) \<and> StripWidth (metas s3 ! p) = StripWidth (metas s ! p)"
    using i(1) r(3) assms(7) by (auto simp: InsertRow_def Let_def bump_rows_def forget_rows_def split: prod.splits sum.splits)
  ultimately show ?thesis
    using r(1,3) i(1) assms(7) len
    by (intro exI [of _ s1] exI [of _ w1] exI [of _ s3] exI [of _ w3]) (auto simp: table_repr_def strip_def new_version_def)
qed

theorem restart_forgets_rows_witness:
  "\<exists>s w s1 w1 w2. state_rel (mock_blocks w) [[new_version 1 sample_values]] s \<and>
    LoadCatalog (mock_hal :: (mock, unit) hal) (NewStorage NewWAL) w = (Inr (), s1, w1) \<and>
    SeqScan (mock_hal :: (mock, unit) hal) (\<lambda>_. False) 0 5 s1 w1 = ([], w2)"
proof -
  obtain s w where t: "mock_ok w" "state_rel (mock_blocks w) [[new_version 1 sample_values]] s" "length (metas s) = 1"
    by (rule sample_row) blast
  have v: "row_storable (Columns (metas s ! 0)) sample_values"
    using t(2,3) by (simp add: state_rel_def db_repr_def table_repr_def version_ok_def new_version_def)
  obtain js where js: "Marshal (VMap sample_values) = Inr js"
    using sample_marshal by (cases "Marshal (VMap sample_values)") auto
  have "length (metas s) \<le> 1024" "lsn_ok NewWAL" "nextLSN NewWAL + 1 < 2 ^ 62" "0 < length (metas s)" and one: "in_i64 1"
    using t(3) by (simp_all add: NewWAL_def lsn_ok_def in_i64_def)
  from restart_forgets_rows [OF mock.hal_reliable_axioms t(1,2) this(1-4) js v one, of "\<lambda>_. False" 5] t(2) show ?thesis
    by blast
qed

text \<open>
  Property C25: a table has room for 10000 rows only. Nothing guards the row count: the insert behind row 9999 of a table
  succeeds at the position of the first row of the table created after it, and overwrites that row.
\<close>

theorem table_overflow:
  assumes "hal_reliable h blocks ok" "ok w" "storage_ok (blocks w) s" "Suc p < length (metas s)" "RowCount (metas s ! p) = 10000"
    "Marshal (VMap vs) = Inr js" "in_i64 txid"
  shows "\<exists>s' w'. InsertRow h p vs txid s w = (Inr (row_pos (metas s ! Suc p) 0), s', w') \<and>
    strip (blocks w') (metas s ! p) (ZStart (metas s ! Suc p)) = version_strip (Columns (metas s ! p)) \<lparr>vmin = txid, vmax = None, vals = vs\<rparr>"
proof -
  have p: "p < length (metas s)" using assms(4) by simp
  note t = storage_okD(1) [OF assms(3) p] and wl = storage_ok_parts(5) [OF assms(3)]
  note plane = next_plane [OF assms(3-5)]
  obtain s' w' where "InsertRow h p vs txid s w = (Inr (mk_pos 0 tableY (ZStart (metas s ! p) + RowCount (metas s ! p))), s', w')"
    "blocks w' = insert_blocks (metas s ! p) vs txid (ZStart (metas s ! p) + RowCount (metas s ! p)) (nextLSN (wal s)) js (blocks w)"
    by (rule hal_reliable.InsertRow_run [OF assms(1,2) t wl assms(7,6)])
  then show ?thesis
    using plane strip_insert_blocks [of "metas s ! p" "nextLSN (wal s)"] t wl storage_okD(1) [OF assms(3,4)]
    by (auto simp: row_pos_def meta_ok_def lsn_ok_def new_version_def)
qed

lemma full_table:
  obtains s w where "mock_ok w" "storage_ok (mock_blocks w) s" "length (metas s) = 2" "RowCount (metas s ! 0) = 10000"
proof -
  obtain s w where t: "mock_ok w" "state_rel (mock_blocks w) [[]] s" "map_of (tables s) ''t'' = Some 0" "length (metas s) = 1"
    by (rule sample_table) blast
  have ok: "storage_ok (mock_blocks w) s" using t(2) by (simp add: state_rel_def)
  have "map_of (tables s) ''u'' \<noteq> Some q" for q
    using storage_ok_parts(1) [OF ok, of "''u''" q] storage_ok_parts(1) [OF ok, of "''t''" 0] t(3,4) by auto
  then have x: "map_of (tables s) ''u'' = None" "''u'' \<noteq> ([] :: string)" "utf8_valid ''u''" by auto
  obtain s1 w1 where 1: "mock_ok w1" "state_rel (mock_blocks w1) ([[]] @ [[]]) s1"
    by (rule mock.create_simulates [OF t(2,1) x sample_columns_ok])
      (use storage_ok_parts(4) [OF ok] t(4) in auto)
  let ?s = "s1\<lparr>metas := (metas s1)[0 := (metas s1 ! 0)\<lparr>RowCount := 10000\<rparr>]\<rparr>"
  have ok1: "storage_ok (mock_blocks w1) s1" "length (metas s1) = 2" using 1(2) by (simp_all add: state_rel_def db_repr_def)
  have self: "\<exists>n. t = t\<lparr>RowCount := n\<rparr>" for t :: TableMeta by (intro exI [of _ "RowCount t"]) simp
  from ok1 have "storage_ok (mock_blocks w1) ?s"
    using storage_okD(1) [OF ok1(1)] storage_ok_parts(5) [OF ok1(1)]
    by (intro storage_ok_update [OF ok1(1)])
      (auto simp: nth_list_update meta_ok_def tableZSpacing_def self)
  then show thesis using 1(1) ok1(2) that [of w1 ?s] by simp
qed

theorem table_overflow_witness:
  "\<exists>s w s' w'. RowCount (metas s ! 0) = 10000 \<and>
    InsertRow (mock_hal :: (mock, unit) hal) 0 sample_values 1 s w = (Inr (row_pos (metas s ! 1) 0), s', w')"
proof -
  obtain s w where f: "mock_ok w" "storage_ok (mock_blocks w) s" "length (metas s) = 2" "RowCount (metas s ! 0) = 10000"
    by (rule full_table)
  obtain js where js: "Marshal (VMap sample_values) = Inr js"
    using sample_marshal by (cases "Marshal (VMap sample_values)") auto
  have "Suc 0 < length (metas s)" "in_i64 1" using f(3) by (simp_all add: in_i64_def)
  from table_overflow [OF mock.hal_reliable_axioms f(1,2) this(1) f(4) js this(2)] f(4) show ?thesis by auto
qed

end
