(* ===== verification/Crash.thy ===== *)
theory Crash
  imports Database
begin

text \<open>
  Calls that fail. A call against a store that may break at any point leaves one of a few worlds; the
  lemmas list them for a delete and show what recovery, run against the same blocks once the store
  answers again, makes of each of them. For an insert, which recovery does not replay, they show which of the
  possible remains a later scan takes for a row.
\<close>

subsection \<open>The xmax of a strip\<close>

text \<open>What \<open>decodeStrip\<close> finds in the two \<open>xmax\<close> banners.\<close>

definition xmax_at :: "blocks \<Rightarrow> int \<Rightarrow> int \<Rightarrow> codec_error + goval" where
  "xmax_at b y z =
     (let s0 = slice_string (b (2, y, z)); s1 = slice_string (b (3, y, z))
      in if IsNull s0 s1 then Inr VNil else map_sum id VInt64 (DecodeInt64 s0 s1))"

lemma decode_null: "DecodeInt64 nullHex nullHex = Inr (- 1)"
  by code_simp

lemma xmax_at_decoded:
  assumes "DecodeInt64 (slice_string (b (2, y, z))) (slice_string (b (3, y, z))) = Inr txid" "0 \<le> txid"
  shows "xmax_at b y z = Inr (VInt64 txid)"
  using assms decode_null by (auto simp: xmax_at_def Let_def IsNull_def)

lemma xmax_at_banners:
  assumes "in_i64 txid" "0 \<le> txid"
  shows "xmax_at (xmax_banners y z txid b) y z = Inr (VInt64 txid)"
  using assms decode_encode_int64 [OF assms(1)] by (intro xmax_at_decoded) (simp_all add: xmax_banners_apply)

lemma xmax_at_put_book [simp]: "xmax_at (put_book e st b) y z = xmax_at b y z"
  by (simp add: xmax_at_def put_book_apply)

subsection \<open>A delete that may fail\<close>

definition delete_entry :: "BlockPos \<Rightarrow> int \<Rightarrow> int \<Rightarrow> Entry" where
  "delete_entry pos txid lsn =
     log_entry lsn txid ''UPDATE_XMAX'' (wrap64 (go_quot (PosZ pos) tableZSpacing + 1)) (PosX pos) (PosY pos) (PosZ pos) (fmt_d txid)"

text \<open>The worlds a delete can leave: nothing done; the entry pending with none, one or both banners written; all done.\<close>

definition delete_outcome :: "BlockPos \<Rightarrow> int \<Rightarrow> int \<Rightarrow> blocks \<Rightarrow> blocks \<Rightarrow> bool" where
  "delete_outcome pos txid lsn b b' \<longleftrightarrow>
     (let e = delete_entry pos txid lsn;
          banners = [banner_write 2 (PosY pos) (PosZ pos) (fst (EncodeInt64 txid)), banner_write 3 (PosY pos) (PosZ pos) (snd (EncodeInt64 txid))]
      in b' = b \<or> (\<exists>k \<le> 2. b' = put_writes (take k banners) (put_book e ''PENDING'' b)) \<or>
         b' = put_book e ''COMMITTED'' (put_writes banners (put_book e ''PENDING'' b)))"

definition pos_ok :: "BlockPos \<Rightarrow> bool" where
  "pos_ok pos \<longleftrightarrow> in_i64 (PosX pos) \<and> in_i64 (PosY pos) \<and> in_i64 (PosZ pos) \<and> 0 \<le> PosZ pos"

lemma delete_entry_sel [simp]:
  "LSN (delete_entry pos txid lsn) = lsn" "Status (delete_entry pos txid lsn) = ''PENDING''"
  "Op (delete_entry pos txid lsn) = ''UPDATE_XMAX''" "TargetY (delete_entry pos txid lsn) = PosY pos"
  "TargetZ (delete_entry pos txid lsn) = PosZ pos" "NewValue (delete_entry pos txid lsn) = fmt_d txid"
  by (simp_all add: delete_entry_def log_entry_def)

lemma delete_entry_ok: "pos_ok pos \<Longrightarrow> in_i64 txid \<Longrightarrow> in_i64 lsn \<Longrightarrow> entry_ok (delete_entry pos txid lsn)"
  by (simp add: entry_ok_def delete_entry_def log_entry_def pos_ok_def)

context hal_store
begin

lemma delete_tail_outcome:
  assumes ok: "world_ok w2" and wl: "lsn_ok wl" and tx: "in_i64 txid" and pos: "pos_ok pos"
    and ap: "Append h txid ''UPDATE_XMAX'' (wrap64 (go_quot (PosZ pos) tableZSpacing + 1)) (PosX pos) (PosY pos) (PosZ pos) (fmt_d txid) wl w2 = (ra, wl3, w3)"
  shows "world_ok w3" "blocks w3 = blocks w2 \<or> blocks w3 = put_book (delete_entry pos txid (nextLSN wl)) ''PENDING'' (blocks w2)"
    "ra = Inr lsn \<Longrightarrow> lsn = nextLSN wl \<and> blocks w3 = put_book (delete_entry pos txid (nextLSN wl)) ''PENDING'' (blocks w2)"
proof -
  have b: "put_block (wal_pos (nextLSN wl)) (pending_book (nextLSN wl) txid ''UPDATE_XMAX'' (wrap64 (go_quot (PosZ pos) tableZSpacing + 1))
      (PosX pos) (PosY pos) (PosZ pos) (fmt_d txid)) (blocks w2) = put_book (delete_entry pos txid (nextLSN wl)) ''PENDING'' (blocks w2)"
    using lsn_okD(1) [OF wl] by (simp add: put_book_def put_block_def pending_book_eq delete_entry_def log_entry_def)
  from Append_outcome [OF ok ap] b
  show "world_ok w3" "blocks w3 = blocks w2 \<or> blocks w3 = put_book (delete_entry pos txid (nextLSN wl)) ''PENDING'' (blocks w2)"
    "ra = Inr lsn \<Longrightarrow> lsn = nextLSN wl \<and> blocks w3 = put_book (delete_entry pos txid (nextLSN wl)) ''PENDING'' (blocks w2)"
    by auto
qed

lemma Commit_success:
  assumes ok: "world_ok w" and run: "Commit h lsn wl w = (Inr u, wl', w')"
  shows "\<exists>d e. blocks w (wal_pos lsn) = Some d \<and> deserializeEntry (string_of_bytes d) = Inr e \<and>
    blocks w' = put_block (wal_pos lsn) (bytes_of_string (book_of e ''COMMITTED'')) (blocks w)"
proof -
  obtain r1 w1 where 1: "ReadBlock h 0 walY (wrap64 (- lsn)) w = (r1, w1)" by fastforce
  note rd = read_law [OF ok 1]
  from run 1 obtain d where d: "r1 = Inr d" "slice_len d \<noteq> 0" by (cases r1) (auto simp: Commit_def Let_def split: if_splits)
  then obtain bs where bs: "d = Some bs" by (cases d) auto
  from run 1 d bs obtain e where e: "deserializeEntry (string_of_bytes bs) = Inr e" "Status e = ''PENDING''"
    by (auto simp: Commit_def Let_def split: sum.splits if_splits)
  obtain r2 w2 where 2: "WriteBlock h 0 walY (wrap64 (- lsn)) BlockTypeLectern (bytes_of_string (book_of e ''COMMITTED'')) w1 = (r2, w2)"
    by fastforce
  have "r2 = Inr ()" "w' = w2" using run 1 d bs e 2 by (auto simp: Commit_def Let_def split: sum.splits)
  moreover have "world_ok w1" "blocks w1 = blocks w" "blocks w (wal_pos lsn) = Some bs"
    using rd d bs by (auto simp: wal_pos_def)
  ultimately have "blocks w' = put_block (wal_pos lsn) (bytes_of_string (book_of e ''COMMITTED'')) (blocks w)"
    using write_ok(2) [of w1] 2 by (simp add: wal_pos_def)
  with e(1) \<open>blocks w (wal_pos lsn) = Some bs\<close> show ?thesis by blast
qed

lemma MarkDeleted_outcome:
  assumes ok: "world_ok w" and wl: "lsn_ok (wal s)" and tx: "in_i64 txid" and pos: "pos_ok pos"
    and run: "MarkDeleted h pos txid s w = (r, s', w')"
  shows "world_ok w' \<and> delete_outcome pos txid (nextLSN (wal s)) (blocks w) (blocks w') \<and>
    (r = Inr () \<longrightarrow> blocks w' = delete_blocks pos txid (nextLSN (wal s)) (blocks w))"
proof -
  let ?y = "PosY pos" and ?z = "PosZ pos" and ?lsn = "nextLSN (wal s)"
  let ?tid = "wrap64 (go_quot ?z tableZSpacing + 1)"
  let ?e = "delete_entry pos txid ?lsn"
  obtain s1 s2 where enc: "EncodeInt64 txid = (s1, s2)" by fastforce
  let ?ws = "[banner_write 2 ?y ?z s1, banner_write 3 ?y ?z s2]"
  have same: "delete_outcome pos txid ?lsn (blocks w) (blocks w)" by (simp add: delete_outcome_def Let_def)
  obtain r1 w1 where 1: "ReadBlock h 2 ?y ?z w = (r1, w1)" by fastforce
  note rd1 = read_law [OF ok 1]
  then have ok1: "world_ok w1" "blocks w1 = blocks w" by auto
  obtain r2 w2 where 2: "ReadBlock h 3 ?y ?z w1 = (r2, w2)" by fastforce
  note rd2 = read_law [OF ok1(1) 2]
  then have ok2: "world_ok w2" "blocks w2 = blocks w" using ok1 by auto
  obtain ra wl3 w3 where 3: "Append h txid ''UPDATE_XMAX'' ?tid (PosX pos) ?y ?z (fmt_d txid) (wal s) w2 = (ra, wl3, w3)"
    by (metis prod_cases3)
  note ap = delete_tail_outcome [OF ok2(1) wl tx pos 3]
  obtain rb w4 where 4: "BatchWrite h ?ws w3 = (rb, w4)" by fastforce
  note bw = batch_write_law [OF ap(1) 4]
  obtain rc wl5 w5 where 5: "Commit h ?lsn wl3 w4 = (rc, wl5, w5)" by (metis prod_cases3)
  have ok4: "world_ok w4" using bw by simp
  note co = Commit_outcome [OF ok4 5]
  consider (none) "w' = w1 \<or> w' = w2" "r \<noteq> Inr ()"
    | (append) "isl ra" "w' = w3" "r \<noteq> Inr ()"
    | (batch) "ra = Inr ?lsn" "isl rb" "w' = w4" "r \<noteq> Inr ()"
    | (commit) "ra = Inr ?lsn" "rb = Inr ()" "w' = w5" "r = Inr () \<longrightarrow> rc = Inr ()"
  proof (cases "\<exists>d0 d1. r1 = Inr (Some d0) \<and> r2 = Inr (Some d1) \<and> string_of_bytes d0 \<noteq> []")
    case False
    then have "(w' = w1 \<or> w' = w2) \<and> r \<noteq> Inr ()"
      using run 1 2 by (auto simp: MarkDeleted_def slice_string_def slice_bytes_def split: sum.splits if_splits option.splits)
    then show ?thesis using none by blast
  next
    case True
    then obtain d0 d1 where d: "r1 = Inr (Some d0)" "r2 = Inr (Some d1)" "string_of_bytes d0 \<noteq> []" by blast
    show ?thesis
    proof (cases ra)
      case (Inl err)
      then show ?thesis using run 1 2 3 d append by (auto simp: MarkDeleted_def Let_def)
    next
      case (Inr lsn)
      with ap(3) have "ra = Inr ?lsn" by simp
      then show ?thesis using run 1 2 3 4 5 d enc batch commit
        by (cases rb; cases rc) (auto simp: MarkDeleted_def Let_def)
    qed
  qed
  then show ?thesis
  proof cases
    case none
    then show ?thesis using ok1 ok2 same by auto
  next
    case append
    have "\<exists>k \<le> 2. put_book ?e ''PENDING'' (blocks w) = put_writes (take k ?ws) (put_book ?e ''PENDING'' (blocks w))"
      by (intro exI [of _ 0]) simp
    then have "delete_outcome pos txid ?lsn (blocks w) (put_book ?e ''PENDING'' (blocks w))"
      unfolding delete_outcome_def Let_def enc fst_conv snd_conv by blast
    then show ?thesis using append ap(1,2) ok2 same by auto
  next
    case batch
    then have "\<exists>k \<le> 2. blocks w4 = put_writes (take k ?ws) (put_book ?e ''PENDING'' (blocks w))"
      using bw ap(3) ok2 by (auto simp: isl_def numeral_2_eq_2)
    then have "delete_outcome pos txid ?lsn (blocks w) (blocks w4)" unfolding delete_outcome_def Let_def enc fst_conv snd_conv by blast
    then show ?thesis using batch ok4 by simp
  next
    case commit
    have b4: "blocks w4 = put_writes ?ws (put_book ?e ''PENDING'' (blocks w))"
      using batch_write_ok(2) [OF ap(1), of ?ws "()" w4] 4 ap(3) [of ?lsn] ok2(2) commit(1,2) by simp
    have lp: "wal_pos ?lsn = (0, walY, - ?lsn)" by (rule lsn_okD(1) [OF wl])
    have bk: "blocks w4 (wal_pos ?lsn) = Some (bytes_of_string (book_of ?e ''PENDING''))"
      by (simp add: b4 lp put_book_apply put_block_apply banner_write_def)
    have rd: "deserializeEntry (book_of ?e ''PENDING'') = Inr (?e\<lparr>Status := ''PENDING''\<rparr>)"
      by (rule deserialize_book [OF delete_entry_ok [OF pos tx lsn_okD(3) [OF wl]]]) simp
    have fin: "put_block (wal_pos ?lsn) (bytes_of_string (book_of (?e\<lparr>Status := ''PENDING''\<rparr>) ''COMMITTED'')) (blocks w4) =
        put_book ?e ''COMMITTED'' (put_writes ?ws (put_book ?e ''PENDING'' (blocks w)))"
      by (simp add: lp put_book_def put_block_def b4 book_of_def)
    have del: "put_book ?e ''COMMITTED'' (put_writes ?ws (put_book ?e ''PENDING'' (blocks w))) = delete_blocks pos txid ?lsn (blocks w)"
      using put_book_twice [of ?ws ?e] by (simp add: delete_blocks_def delete_entry_def xmax_banners_def enc banner_write_def)
    have "\<exists>k \<le> 2. blocks w4 = put_writes (take k ?ws) (put_book ?e ''PENDING'' (blocks w))"
      using b4 by (intro exI [of _ 2]) simp
    moreover have "blocks w5 = blocks w4 \<or> blocks w5 = put_book ?e ''COMMITTED'' (put_writes ?ws (put_book ?e ''PENDING'' (blocks w)))"
      using co bk rd fin by auto
    ultimately have "delete_outcome pos txid ?lsn (blocks w) (blocks w5)"
      unfolding delete_outcome_def Let_def enc fst_conv snd_conv by auto
    moreover have "blocks w5 = delete_blocks pos txid ?lsn (blocks w)" if "rc = Inr ()"
      using Commit_success [OF ok4, of ?lsn wl3 "()" wl5 w5] that 5 bk rd fin del by auto
    ultimately show ?thesis using commit co by auto
  qed
qed

end

subsection \<open>Recovery after a delete\<close>

text \<open>A log of \<open>n\<close> settled entries, with the two lecterns behind them empty.\<close>

definition log_settled :: "blocks \<Rightarrow> nat \<Rightarrow> bool" where
  "log_settled b n \<longleftrightarrow> log_length b n \<and> b (0, walY, - int (Suc (Suc n))) = None \<and> (\<forall>i \<in> {1..n}. settled b (- int i))"

lemma settled_cong: "b' (0, walY, z) = b (0, walY, z) \<Longrightarrow> settled b' z = settled b z"
  by (simp add: settled_def)

lemma recover_settled_id:
  assumes "log_settled b n" "\<And>i. 1 \<le> i \<Longrightarrow> i \<le> n \<Longrightarrow> b' (0, walY, - int i) = b (0, walY, - int i)"
  shows "recover_blocks n b' = b'"
proof (rule settled_recover_blocks_id)
  fix i
  assume "1 \<le> i" "i \<le> n"
  then show "settled b' (- int i)"
    using assms settled_cong [of b' "- int i" b] by (simp add: log_settled_def)
qed

text \<open>Recovering the entry of a delete that was left pending, whatever is in the banners.\<close>

lemma recover_pending_delete:
  assumes e: "entry_ok (delete_entry pos txid lsn)" and b: "b (0, walY, - lsn) = Some (bytes_of_string (book_of (delete_entry pos txid lsn) ''PENDING''))"
    and tx: "in_i64 txid" "0 \<le> txid"
  shows "xmax_at (recover_block (- lsn) b) (PosY pos) (PosZ pos) = Inr (VInt64 txid)"
    "q \<noteq> (0, walY, - lsn) \<Longrightarrow> q \<noteq> (2, PosY pos, PosZ pos) \<Longrightarrow> q \<noteq> (3, PosY pos, PosZ pos) \<Longrightarrow> recover_block (- lsn) b q = b q"
proof -
  let ?e = "delete_entry pos txid lsn" and ?y = "PosY pos" and ?z = "PosZ pos"
  let ?e' = "?e\<lparr>Status := ''PENDING''\<rparr>"
  have rd: "deserializeEntry (book_of ?e ''PENDING'') = Inr ?e'"
    by (rule deserialize_book [OF e]) simp
  let ?held = "DecodeInt64 (slice_string (b (2, ?y, ?z))) (slice_string (b (3, ?y, ?z))) = Inr txid"
  let ?b1 = "if ?held then b else xmax_banners ?y ?z txid b"
  have "replay_blocks ?e' b = Some ?b1" using tx(1) by (simp add: replay_blocks_def)
  then have rb: "recover_block (- lsn) b = put_block (0, walY, - lsn) (bytes_of_string (book_of ?e' ''COMMITTED'')) ?b1"
    unfolding recover_block_def b option.case string_of_bytes_of_string rd sum.case by simp
  have "xmax_at ?b1 ?y ?z = Inr (VInt64 txid)"
    using xmax_at_decoded [of b ?y ?z txid] xmax_at_banners [OF tx] tx(2) by simp
  moreover have "xmax_at (put_block (0, walY, - lsn) d b1) ?y ?z = xmax_at b1 ?y ?z" for d b1
    by (simp add: xmax_at_def put_block_apply)
  ultimately show "xmax_at (recover_block (- lsn) b) ?y ?z = Inr (VInt64 txid)" unfolding rb by simp
  show "q \<noteq> (0, walY, - lsn) \<Longrightarrow> q \<noteq> (2, ?y, ?z) \<Longrightarrow> q \<noteq> (3, ?y, ?z) \<Longrightarrow> recover_block (- lsn) b q = b q"
    unfolding rb by (cases q) (auto simp: put_block_apply xmax_banners_apply)
qed

definition elsewhere :: "BlockPos \<Rightarrow> int \<times> int \<times> int \<Rightarrow> bool" where
  "elsewhere pos q \<longleftrightarrow> q \<noteq> (2, PosY pos, PosZ pos) \<and> q \<noteq> (3, PosY pos, PosZ pos) \<and> (\<forall>z < 0. q \<noteq> (0, walY, z))"

text \<open>What recovery leaves of each world a delete can leave.\<close>

lemma recover_delete_outcome:
  assumes log: "log_settled b n" and out: "delete_outcome pos txid (int (Suc n)) b b'" and n: "int n < 2 ^ 61"
    and tx: "in_i64 txid" "0 \<le> txid" and pos: "pos_ok pos"
  shows "\<exists>m \<le> Suc n. log_length b' m \<and> (\<forall>q. elsewhere pos q \<longrightarrow> recover_blocks m b' q = b q) \<and>
    (b' = b \<and> recover_blocks m b' = b \<or> xmax_at (recover_blocks m b') (PosY pos) (PosZ pos) = Inr (VInt64 txid))"
proof -
  let ?lsn = "int (Suc n)" and ?y = "PosY pos" and ?z = "PosZ pos"
  let ?e = "delete_entry pos txid ?lsn"
  let ?ws = "[banner_write 2 ?y ?z (fst (EncodeInt64 txid)), banner_write 3 ?y ?z (snd (EncodeInt64 txid))]"
  have e: "entry_ok ?e" using pos tx(1) n by (intro delete_entry_ok) (simp_all add: in_i64_def)
  show ?thesis
  proof (cases "b' = b")
    case True
    then show ?thesis
      using log recover_settled_id [OF log, of b] by (intro exI [of _ n]) (simp add: log_settled_def)
  next
    case False
    have lect: "b' (0, walY, - int i) = b (0, walY, - int i)" if "i \<noteq> Suc n" for i
      using out that by (auto simp: delete_outcome_def Let_def put_book_apply take_Cons' banner_write_def put_block_apply split: if_splits)
    have at: "b' (0, walY, - ?lsn) = Some (bytes_of_string (book_of ?e ''PENDING'')) \<or>
        b' = put_book ?e ''COMMITTED'' (put_writes ?ws (put_book ?e ''PENDING'' b))"
      using out False
      by (auto simp: delete_outcome_def Let_def put_book_apply take_Cons' banner_write_def put_block_apply split: if_splits)
    have far: "b' q = b q" if "elsewhere pos q" for q
      using out that
      by (auto simp: elsewhere_def delete_outcome_def Let_def put_book_apply take_Cons' banner_write_def put_block_apply split: if_splits)
    have "b' (0, walY, - ?lsn) \<noteq> None" using at by (auto simp: put_book_apply)
    moreover have "b' (0, walY, - int (Suc (Suc n))) = None" using lect [of "Suc (Suc n)"] log by (simp add: log_settled_def)
    ultimately have len: "log_length b' (Suc n)"
      using log lect by (auto simp: log_settled_def log_length_def le_Suc_eq)
    have id: "recover_blocks n b' = b'" using lect by (intro recover_settled_id [OF log]) auto
    have rec: "recover_blocks (Suc n) b' = recover_block (- ?lsn) b'" by (simp add: recover_blocks_Suc id)
    have "(\<forall>q. elsewhere pos q \<longrightarrow> recover_blocks (Suc n) b' q = b q) \<and>
      xmax_at (recover_blocks (Suc n) b') ?y ?z = Inr (VInt64 txid)"
    proof (cases "b' (0, walY, - ?lsn) = Some (bytes_of_string (book_of ?e ''PENDING''))")
      case True
      from recover_pending_delete [where b = b', OF e True tx] far show ?thesis unfolding rec by (auto simp: elsewhere_def)
    next
      case committed: False
      then have b': "b' = put_book ?e ''COMMITTED'' (put_writes ?ws (put_book ?e ''PENDING'' b))" using at by blast
      have "deserializeEntry (book_of ?e ''COMMITTED'') = Inr (?e\<lparr>Status := ''COMMITTED''\<rparr>)"
        by (rule deserialize_book [OF e]) simp
      then have "settled b' (- ?lsn)" by (simp add: settled_def b' put_book_apply)
      then have "recover_blocks (Suc n) b' = b'" unfolding rec by (rule settled_id)
      moreover have "put_writes ?ws (put_book ?e ''PENDING'' b) = xmax_banners ?y ?z txid (put_book ?e ''PENDING'' b)"
        by (simp add: xmax_banners_def banner_write_def)
      ultimately show ?thesis using xmax_at_banners [OF tx] far by (simp add: b')
    qed
    with len show ?thesis by blast
  qed
qed

subsection \<open>An insert that is cut off\<close>

lemma map_of_decode_columns:
  "hd key \<noteq> CHR ''c'' \<Longrightarrow> map_of (decode_columns sd nb cols bi si row) key = map_of row key"
proof (induction cols arbitrary: bi si row)
  case (Cons col cols)
  have "col_key (colOrdinal col) \<noteq> key" by (rule col_key_ne [OF Cons.prems])
  then show ?case
    using Cons by (auto simp: Let_def set_decoded_def map_of_update split: sum.splits)
qed simp

lemma seq_writes_take: "seq_writes y z off ws \<Longrightarrow> seq_writes y z off (take k ws)"
  using seq_writes_append [of y z off "take k ws" "drop k ws"] by simp

text \<open>The first four blocks of a strip after the first \<open>k\<close> writes of an insert into air.\<close>

lemma torn_strip:
  assumes "StripWidth t = stripWidth (Columns t)" "\<And>x. b (x, YLevel t, z) = None" "k \<le> length (row_writes (Columns t) vs txid (YLevel t) z)"
  shows "length (strip (put_writes (take k (row_writes (Columns t) vs txid (YLevel t) z)) b) t z) = nat (stripWidth (Columns t))"
    "i < nat (stripWidth (Columns t)) \<Longrightarrow>
     strip (put_writes (take k (row_writes (Columns t) vs txid (YLevel t) z)) b) t z ! i =
       (if i < k then Some (map Data (row_writes (Columns t) vs txid (YLevel t) z) ! i) else None)"
proof -
  let ?ws = "row_writes (Columns t) vs txid (YLevel t) z"
  show "length (strip (put_writes (take k ?ws) b) t z) = nat (stripWidth (Columns t))"
    by (simp add: length_strip assms(1))
  assume i: "i < nat (stripWidth (Columns t))"
  note seq = seq_writes_take [OF row_writes_data(2) [of "YLevel t" z "Columns t" vs txid], of k]
  show "strip (put_writes (take k ?ws) b) t z ! i = (if i < k then Some (map Data ?ws ! i) else None)"
    using put_writes_seq [OF seq, of b "int i" "YLevel t" z] i assms by (auto simp: nth_strip)
qed

lemma decode_short:
  "\<exists>e. DecodeInt64 [] s = Inl e"
  "\<exists>e. DecodeInt64 s [] = Inl e"
  by (auto simp: DecodeInt64_def codec_consts split: sum.splits)

lemma isEmptyStrip_nth: "isEmptyStrip ds \<longleftrightarrow> (\<forall>i < length ds. slice_len (ds ! i) = 0)"
proof (induction ds)
  case (Cons d ds)
  have "(d \<noteq> None \<and> slice_len d > 0) \<longleftrightarrow> slice_len d \<noteq> 0" by (cases d) auto
  with Cons show ?case by (auto simp: nth_Cons' All_less_Suc2)
qed simp

lemma torn_insert:
  assumes "StripWidth t = stripWidth (Columns t)" "\<And>x. b (x, YLevel t, z) = None" "in_i64 txid"
    "k \<le> length (row_writes (Columns t) vs txid (YLevel t) z)"
  shows "k < 4 \<Longrightarrow> isEmptyStrip (strip (put_writes (take k (row_writes (Columns t) vs txid (YLevel t) z)) b) t z) \<or>
      isl (decodeStrip (strip (put_writes (take k (row_writes (Columns t) vs txid (YLevel t) z)) b) t z) t)"
    "4 \<le> k \<Longrightarrow> \<not> isEmptyStrip (strip (put_writes (take k (row_writes (Columns t) vs txid (YLevel t) z)) b) t z) \<and>
      (\<exists>row. decodeStrip (strip (put_writes (take k (row_writes (Columns t) vs txid (YLevel t) z)) b) t z) t = Inr row \<and>
       (\<forall>tx. isVisible row tx \<longleftrightarrow> txid \<le> tx))"
proof -
  let ?ws = "row_writes (Columns t) vs txid (YLevel t) z"
  let ?s = "strip (put_writes (take k ?ws) b) t z"
  note torn = torn_strip [where b = b and z = z, OF assms(1,2,4)]
  have w: "4 \<le> nat (stripWidth (Columns t))" using stripWidth_ge [of "Columns t"] by simp
  obtain m0 m1 where m: "EncodeInt64 txid = (m0, m1)" by fastforce
  have dec: "DecodeInt64 m0 m1 = Inr txid" using assms(3) m by simp
  have n: "?s ! 0 = (if 0 < k then Some (bytes_of_string m0) else None)" "?s ! 1 = (if 1 < k then Some (bytes_of_string m1) else None)"
    "?s ! 2 = (if 2 < k then Some (bytes_of_string nullHex) else None)" "?s ! 3 = (if 3 < k then Some (bytes_of_string nullHex) else None)"
    using torn(2) [of 0] torn(2) [of 1] torn(2) [of 2] torn(2) [of 3] w by (simp_all add: row_writes_data(1) m)
  have len: "\<not> length ?s < 4" using torn(1) w by simp
  show "isEmptyStrip ?s \<or> isl (decodeStrip ?s t)" if "k < 4"
  proof (cases "k = 0")
    case True
    then have "\<forall>i < length ?s. slice_len (?s ! i) = 0" using torn by simp
    then show ?thesis by (simp add: isEmptyStrip_nth)
  next
    case False
    with that consider "k = 1" | "k = 2" | "k = 3" by linarith
    then have "isl (decodeStrip ?s t)"
      by cases (use len n dec decode_short(1) [of "[]"] decode_short(2) [of m0] decode_short(2) [of nullHex] encoded_ne(5) [symmetric] in
          \<open>auto simp: decodeStrip_def IsNull_def Let_def\<close>)
    then show ?thesis ..
  qed
  assume k: "4 \<le> k"
  let ?row = "decode_columns (drop 4 ?s) (numBanners (Columns t)) (Columns t) 0 0 [(''xmin'', VInt64 txid), (''xmax'', VNil)]"
  have "decodeStrip ?s t = Inr ?row"
    using len n dec k by (simp add: decodeStrip_def IsNull_def Let_def)
  moreover have "map_of ?row ''xmin'' = Some (VInt64 txid)" "map_of ?row ''xmax'' = Some VNil"
    by (simp_all add: map_of_decode_columns)
  then have "isVisible ?row tx \<longleftrightarrow> txid \<le> tx" for tx
    by (auto simp: isVisible_def rowInt64_def row_get_def Let_def)
  moreover have "slice_len (?s ! 0) \<noteq> 0" using n(1) k encoded_ne(3) [of txid] m by simp
  then have "\<not> isEmptyStrip ?s" unfolding isEmptyStrip_nth using len by (metis not_less zero_less_numeral less_le_trans)
  ultimately show "\<not> isEmptyStrip ?s \<and> (\<exists>row. decodeStrip ?s t = Inr row \<and> (\<forall>tx. isVisible row tx \<longleftrightarrow> txid \<le> tx))"
    by blast
qed

context hal_store
begin

text \<open>Whatever fails, an insert touches only the plane of its row and the lectern of its entry.\<close>

lemma InsertRow_contained:
  assumes ok: "world_ok w" and run: "InsertRow h p vs txid s w = (r, s', w')"
    and q: "q \<noteq> wal_pos (nextLSN (wal s))" "\<And>x. q \<noteq> (x, YLevel (metas s ! p), wrap64 (ZStart (metas s ! p) + RowCount (metas s ! p)))"
  shows "world_ok w' \<and> blocks w' q = blocks w q"
proof -
  let ?t = "metas s ! p" and ?lsn = "nextLSN (wal s)"
  let ?z = "wrap64 (ZStart ?t + RowCount ?t)"
  let ?ws = "row_writes (Columns ?t) vs txid (YLevel ?t) ?z"
  obtain r0 w0 where 0: "ForceLoadChunk h 0 (go_quot ?z 16) w = (r0, w0)" by fastforce
  note f = force_ok [OF ok 0]
  obtain js where js: "Marshal (VMap vs) = Inr js \<or> isl (Marshal (VMap vs))" by (cases "Marshal (VMap vs)") auto
  obtain ra wl1 w1 where 1: "Append h txid ''INSERT'' (ID ?t) 0 (YLevel ?t) ?z js (wal s) w0 = (ra, wl1, w1)" by (metis prod_cases3)
  note a = Append_outcome [OF f(1) 1]
  obtain rb w2 where 2: "BatchWrite h ?ws w1 = (rb, w2)" by fastforce
  have ok1: "world_ok w1" using a by simp
  note b = batch_write_law [OF ok1 2]
  obtain rc wl3 w3 where 3: "Commit h ?lsn wl1 w2 = (rc, wl3, w3)" by (metis prod_cases3)
  have ok2: "world_ok w2" using b by simp
  note c = Commit_outcome [OF ok2 3]
  have off: "pos_key (Pos bw) \<noteq> q" if "bw \<in> set ?ws" for bw
    using row_writes_pos [OF that] q(2) by (auto simp: pos_key_def)
  have e1: "blocks w1 q = blocks w q" using a f(2) q(1) by (auto simp: put_block_apply)
  have "put_writes (take k ?ws) (blocks w1) q = blocks w1 q" for k
    using off by (intro put_writes_frame) (auto dest: in_set_takeD)
  moreover have "put_writes ?ws (blocks w1) q = blocks w1 q" using off by (intro put_writes_frame) auto
  ultimately have e2: "blocks w2 q = blocks w1 q" using b by (cases rb) auto
  have e3: "blocks w3 q = blocks w2 q" using c q(1) by (auto simp: put_block_apply)
  have lsn: "ra = Inr l \<Longrightarrow> l = ?lsn" for l using a by blast
  have "wal (bump_rows p s) = wal s" by (simp add: bump_rows_def)
  then have "w' = w0 \<or> w' = w1 \<or> w' = w2 \<or> w' = w3"
    using run 0 1 2 3 js lsn by (cases r0; cases "Marshal (VMap vs)"; cases ra; cases rb) (auto simp: InsertRow_def Let_def split: sum.splits prod.splits)
  then show ?thesis using f e1 e2 e3 ok1 ok2 c by auto
qed

end

lemma InsertRow_metas:
  assumes "InsertRow h p vs txid s w = (r, s', w')"
  shows "metas s' = metas (bump_rows p s)"
  using assms by (auto simp: InsertRow_def Let_def bump_rows_def split: prod.splits sum.splits)

text \<open>A delete that may fail at any call, and what recovery makes of its blocks.\<close>

lemma delete_recovered:
  assumes "hal_store h blocks ok" "ok w" "MarkDeleted h pos txid s w = (r, s', w')"
    "log_settled (blocks w) n" "nextLSN (wal s) = int (Suc n)" "int n < 2 ^ 61" "in_i64 txid" "0 \<le> txid" "pos_ok pos"
  obtains m where "m \<le> Suc n" "log_length (blocks w') m" "delete_outcome pos txid (int (Suc n)) (blocks w) (blocks w')"
    "recover_blocks m (blocks w') = blocks w \<or> xmax_at (recover_blocks m (blocks w')) (PosY pos) (PosZ pos) = Inr (VInt64 txid)"
    "r = Inr () \<Longrightarrow> xmax_at (recover_blocks m (blocks w')) (PosY pos) (PosZ pos) = Inr (VInt64 txid)"
    "\<forall>q. elsewhere pos q \<longrightarrow> recover_blocks m (blocks w') q = blocks w q"
proof -
  have wl: "lsn_ok (wal s)" using assms(5,6) by (simp add: lsn_ok_def)
  note out = hal_store.MarkDeleted_outcome [OF assms(1,2) wl assms(7,9,3)]
  then have d: "delete_outcome pos txid (int (Suc n)) (blocks w) (blocks w')" using assms(5) by simp
  from recover_delete_outcome [OF assms(4) this assms(6-9)]
  obtain m where m: "m \<le> Suc n" "log_length (blocks w') m" "\<forall>q. elsewhere pos q \<longrightarrow> recover_blocks m (blocks w') q = blocks w q"
    "blocks w' = blocks w \<and> recover_blocks m (blocks w') = blocks w \<or>
     xmax_at (recover_blocks m (blocks w')) (PosY pos) (PosZ pos) = Inr (VInt64 txid)" by blast
  have "xmax_at (blocks w') (PosY pos) (PosZ pos) = Inr (VInt64 txid)" if "r = Inr ()"
    using that out xmax_at_banners [OF assms(7,8)] by (simp add: delete_blocks_def)
  with that [OF m(1,2) d] m(3,4) show thesis by auto
qed

subsection \<open>Properties\<close>

text \<open>
  Property C7: a delete is atomic across a crash. The delete runs against a store whose calls may fail at any point, with a log
  whose earlier entries are settled; afterwards recovery runs against the same blocks, on a store that answers. Recovery
  succeeds, and the world is either the one before the delete, or the row carries the deleting transaction as its \<open>xmax\<close>.
  A delete that returned without error is never lost, and blocks other than the two banners and the log
  are as before.
\<close>

theorem delete_crash_atomic:
  assumes "hal_store h blocks ok" "ok w" "MarkDeleted h pos txid s w = (r, s', w')"
    "hal_reliable h' blocks' ok'" "ok' v" "blocks' v = blocks w'"
    "log_settled (blocks w) n" "nextLSN (wal s) = int (Suc n)" "int n < 2 ^ 61" "Suc n < fuel"
    "in_i64 txid" "0 \<le> txid" "pos_ok pos"
  shows "\<exists>wl' v'. Recover fuel h' NewWAL v = Some (Inr (), wl', v') \<and>
    (blocks' v' = blocks w \<or> xmax_at (blocks' v') (PosY pos) (PosZ pos) = Inr (VInt64 txid)) \<and>
    (r = Inr () \<longrightarrow> xmax_at (blocks' v') (PosY pos) (PosZ pos) = Inr (VInt64 txid)) \<and>
    (\<forall>q. elsewhere pos q \<longrightarrow> blocks' v' q = blocks w q)"
proof -
  obtain m where m: "m \<le> Suc n" "log_length (blocks w') m"
    "recover_blocks m (blocks w') = blocks w \<or> xmax_at (recover_blocks m (blocks w')) (PosY pos) (PosZ pos) = Inr (VInt64 txid)"
    "r = Inr () \<Longrightarrow> xmax_at (recover_blocks m (blocks w')) (PosY pos) (PosZ pos) = Inr (VInt64 txid)"
    "\<forall>q. elsewhere pos q \<longrightarrow> recover_blocks m (blocks w') q = blocks w q"
    by (rule delete_recovered [OF assms(1-3,7-9,11-13)]) blast
  have len: "log_length (blocks' v) m" "int m < 2 ^ 62" "m < fuel" using m(1,2) assms(6,9,10) by simp_all
  obtain wl' v' where "Recover fuel h' NewWAL v = Some (Inr (), wl', v')" "blocks' v' = recover_blocks m (blocks w')"
    using hal_reliable.recover_run [OF assms(4) len(1,2) assms(5) len(3), of NewWAL] assms(6) by (auto simp: NewWAL_def)
  with m(3-5) show ?thesis by auto
qed

lemma null_row_world:
  obtains w where "mock_ok w" "mock_blocks w = put_writes [banner_write 2 64 0 nullHex, banner_write 3 64 0 nullHex] (\<lambda>_. None)"
  using mock_batch_write [of NewStorage_mock "[banner_write 2 64 0 nullHex, banner_write 3 64 0 nullHex]"] mock_blocks_new
  by (metis mock_ok_new prod.collapse)

theorem delete_crash_atomic_witness:
  "\<exists>w r s' w' wl' v'. MarkDeleted (breaking 1 (mock_hal :: (mock, unit) hal)) (mk_pos 0 64 0) 7 (NewStorage NewWAL) (w, 4) = (r, s', w') \<and>
    Recover 5 (mock_hal :: (mock, unit) hal) NewWAL (fst w') = Some (Inr (), wl', v') \<and>
    (mock_blocks v' = mock_blocks w \<or> xmax_at (mock_blocks v') 64 0 = Inr (VInt64 7))"
proof -
  obtain w where w: "mock_ok w" "mock_blocks w = put_writes [banner_write 2 64 0 nullHex, banner_write 3 64 0 nullHex] (\<lambda>_. None)"
    by (rule null_row_world)
  obtain r s' w' where run: "MarkDeleted (breaking 1 (mock_hal :: (mock, unit) hal)) (mk_pos 0 64 0) 7 (NewStorage NewWAL) (w, 4) = (r, s', w')"
    by (metis prod_cases3)
  have ok: "breaking_ok mock_ok (w, 4)" using w(1) by (simp add: breaking_ok_def)
  have tx: "in_i64 7" and pos: "pos_ok (mk_pos 0 64 0)" by (simp_all add: in_i64_def pos_ok_def)
  have lsn: "nextLSN (wal (NewStorage NewWAL)) = int (Suc 0)" by (simp add: NewStorage_def NewWAL_def)
  have wl: "lsn_ok (wal (NewStorage NewWAL))" using lsn by (simp add: lsn_ok_def)
  have ok': "mock_ok (fst w')"
    using broken_mock.MarkDeleted_outcome [OF ok wl tx pos run] by (simp add: breaking_ok_def)
  have log: "log_settled (breaking_blocks mock_blocks (w, 4)) 0"
    by (simp add: log_settled_def log_length_def breaking_blocks_def w(2) put_write_def put_block_apply pos_key_def banner_write_def)
  from delete_crash_atomic [OF broken_mock.hal_store_axioms ok run mock.hal_reliable_axioms ok' _ log lsn, of 5] tx pos run
  show ?thesis by (fastforce simp: breaking_blocks_def)
qed

text \<open>
  Property C23: a torn insert. When the batch of an insert into empty planes stops after \<open>k\<close> blocks, a scan takes the strip for
  a row visible to transaction \<open>tx\<close> exactly when the four header blocks are written and the inserting
  transaction is not newer than \<open>tx\<close>: from then on a row with columns missing is visible.
\<close>

theorem torn_insert_visible:
  assumes "meta_ok t" "\<And>x. b (x, YLevel t, z) = None" "in_i64 txid" "k \<le> length (row_writes (Columns t) vs txid (YLevel t) z)"
  shows "(let ds = strip (put_writes (take k (row_writes (Columns t) vs txid (YLevel t) z)) b) t z
          in \<not> isEmptyStrip ds \<and> (\<exists>row. decodeStrip ds t = Inr row \<and> isVisible row tx)) \<longleftrightarrow> 4 \<le> k \<and> txid \<le> tx"
proof -
  have sw: "StripWidth t = stripWidth (Columns t)" using assms(1) by (simp add: meta_ok_def)
  define ds where "ds = strip (put_writes (take k (row_writes (Columns t) vs txid (YLevel t) z)) b) t z"
  note torn = torn_insert [where z = z and b = b, OF sw assms(2-4), folded ds_def]
  have "\<not> isEmptyStrip ds \<and> (\<exists>row. decodeStrip ds t = Inr row \<and> isVisible row tx) \<longleftrightarrow> 4 \<le> k \<and> txid \<le> tx"
  proof (cases "4 \<le> k")
    case True
    from torn(2) [OF True] obtain row where "\<not> isEmptyStrip ds" "decodeStrip ds t = Inr row" "isVisible row tx \<longleftrightarrow> txid \<le> tx"
      by blast
    then show ?thesis using True by simp
  next
    case False
    then have "isEmptyStrip ds \<or> isl (decodeStrip ds t)" using torn(1) by simp
    then show ?thesis using False by auto
  qed
  then show ?thesis unfolding Let_def ds_def .
qed

theorem torn_insert_visible_witness:
  "\<exists>row. decodeStrip (strip (put_writes (take 4 (row_writes sample_columns sample_values 1 tableY 0)) (\<lambda>_. None))
      (new_meta 1 ''t'' sample_columns) 0) (new_meta 1 ''t'' sample_columns) = Inr row \<and> isVisible row 1"
proof -
  let ?t = "new_meta 1 ''t'' sample_columns"
  have "meta_ok ?t" by (simp add: new_meta_def meta_ok_def tableZSpacing_def in_i64_def)
  moreover have "4 \<le> length (row_writes (Columns ?t) sample_values 1 (YLevel ?t) 0)"
    by (simp add: row_writes_def Let_def split: prod.splits)
  ultimately show ?thesis
    using torn_insert_visible [of ?t "\<lambda>_. None" 0 1 4 sample_values 1] by (auto simp: in_i64_def new_meta_def Let_def)
qed

text \<open>
  Property C15: a failed insert is contained. Whether an insert into a table with room succeeds or fails at any call, the strip of every row
  the database had before, in every table, is untouched; the row count of the table grows by one, so the next insert
  goes behind the possibly torn row.
\<close>

theorem insert_failure_contained:
  assumes "hal_store h blocks ok" "ok w" "state_rel (blocks w) db s" "p < length (metas s)" "RowCount (metas s ! p) < 10000"
    "InsertRow h p vs txid s w = (r, s', w')" "q < length db" "i < length (db ! q)"
  shows "strip (blocks w') (metas s' ! q) (ZStart (metas s' ! q) + int i) = version_strip (Columns (metas s' ! q)) (db ! q ! i) \<and>
    RowCount (metas s' ! p) = RowCount (metas s ! p) + 1"
proof -
  let ?t = "metas s ! p" and ?u = "metas s ! q"
  have r: "storage_ok (blocks w) s" "db_repr (blocks w) s db" using assms(3) by (simp_all add: state_rel_def)
  have q: "q < length (metas s)" using r(2) assms(7) by (simp add: db_repr_def)
  note t = storage_okD [OF r(1) assms(4)] and u = storage_okD [OF r(1) q]
  have rep: "table_repr (blocks w) ?u (db ! q)" using r(2) assms(7) by (simp add: db_repr_def)
  have rc: "0 \<le> RowCount ?t" "RowCount ?t < tableZSpacing" using t(1) assms(5) by (simp_all add: meta_ok_def tableZSpacing_def)
  have i: "int i < RowCount ?u" "int i < tableZSpacing" using rep assms(8) u(1) by (auto simp: table_repr_def meta_ok_def)
  have z: "wrap64 (ZStart ?t + RowCount ?t) = ZStart ?t + RowCount ?t" using meta_z_range(1) [OF t(1) rc(1)] rc(2) by simp
  have ne: "ZStart ?u + int i \<noteq> ZStart ?t + RowCount ?t"
    using planes_disjoint [OF u(1) t(1), of "int i" "RowCount ?t"] i rc u(2) t(2) by (cases "q = p") auto
  have pos: "0 \<le> ZStart ?u + int i" using meta_z_range(2) [OF u(1), of "int i"] i by simp
  have wl: "wal_pos (nextLSN (wal s)) = (0, walY, - nextLSN (wal s))" "1 \<le> nextLSN (wal s)"
    using storage_ok_parts(5) [OF r(1)] lsn_okD(1) by (auto simp: lsn_ok_def)
  have "blocks w' (x, YLevel ?u, ZStart ?u + int i) = blocks w (x, YLevel ?u, ZStart ?u + int i)" for x
    using hal_store.InsertRow_contained [OF assms(1,2,6), of "(x, YLevel ?u, ZStart ?u + int i)"] z ne pos wl by auto
  then have "strip (blocks w') ?u (ZStart ?u + int i) = version_strip (Columns ?u) (db ! q ! i)"
    using rep assms(8) strip_cong [of ?u "blocks w'" "ZStart ?u + int i" "blocks w"] by (simp add: table_repr_def)
  moreover have "metas s' ! k = (if k = p then bumped ?t else metas s ! k)" if "k < length (metas s)" for k
    using InsertRow_metas [OF assms(6)] bump_rows_sel(2) [OF that, of p] rc by (simp add: bumped_def in_i64_def tableZSpacing_def)
  ultimately show ?thesis using q assms(4) by (auto simp: bumped_def strip_def)
qed

theorem insert_failure_contained_witness:
  "\<exists>s w r s' w'. state_rel (mock_blocks w) [[new_version 1 sample_values]] s \<and>
    InsertRow (breaking 2 (mock_hal :: (mock, unit) hal)) 0 sample_values 2 s (w, 3) = (r, s', w') \<and>
    strip (mock_blocks (fst w')) (metas s' ! 0) (ZStart (metas s' ! 0)) = version_strip (Columns (metas s' ! 0)) (new_version 1 sample_values)"
proof -
  obtain s w where t: "mock_ok w" "state_rel (mock_blocks w) [[new_version 1 sample_values]] s" "length (metas s) = 1"
    by (rule sample_row) blast
  obtain r s' w' where run: "InsertRow (breaking 2 (mock_hal :: (mock, unit) hal)) 0 sample_values 2 s (w, 3) = (r, s', w')"
    by (metis prod_cases3)
  have ok: "breaking_ok mock_ok (w, 3)" and rel: "state_rel (breaking_blocks mock_blocks (w, 3)) [[new_version 1 sample_values]] s"
    using t(1,2) by (simp_all add: breaking_ok_def breaking_blocks_def)
  have "RowCount (metas s ! 0) < 10000" using t(2,3) by (simp add: state_rel_def db_repr_def table_repr_def)
  from insert_failure_contained [OF broken_mock.hal_store_axioms ok rel _ this run, of 0 0] t(3)
  have "strip (mock_blocks (fst w')) (metas s' ! 0) (ZStart (metas s' ! 0)) = version_strip (Columns (metas s' ! 0)) (new_version 1 sample_values)"
    by (simp add: breaking_blocks_def)
  with t(2) run show ?thesis by blast
qed

end
