(* ===== verification/Boot.thy ===== *)
theory Boot
  imports Restart Crash
begin

text \<open>
  The start of the process, \<open>cmd/minesql/main.go\<close>: the log is recovered, then the catalog is loaded into a new storage layer. The
  lemmas show that the log of a run without failing calls has no gap and nothing to recover, so that
  starting again on the same world succeeds and continues the log. The servers' goroutines and the shutdown are in theory \<open>Serve\<close>;
  connecting is in \<open>Hal_Client\<close>, and the log output is left out.
\<close>

datatype 'e boot_error = RecoveryFailed "'e wal_error" | CatalogFailed "'e storage_error"

definition boot :: "nat \<Rightarrow> ('w, 'e) hal \<Rightarrow> 'w \<Rightarrow> (('e boot_error + Storage) \<times> 'w) option" where
  "boot fuel h w =
     (case Recover fuel h NewWAL w of
        None \<Rightarrow> None
      | Some (Inl err, walog, w) \<Rightarrow> Some (Inl (RecoveryFailed err), w)
      | Some (Inr _, walog, w) \<Rightarrow>
          (let store = NewStorage walog in
           case LoadCatalog h store w of
             (Inl err, store, w) \<Rightarrow> Some (Inl (CatalogFailed err), w)
           | (Inr _, store, w) \<Rightarrow> Some (Inr store, w)))"

record config =
  minecraftAddr :: string
  pgAddr :: string
  chatAddr :: string

definition env_or :: "(string \<Rightarrow> string) \<Rightarrow> string \<Rightarrow> string \<Rightarrow> string" where
  "env_or Getenv name dflt = (if Getenv name = [] then dflt else Getenv name)"

definition configure :: "(string \<Rightarrow> string) \<Rightarrow> config" where
  "configure Getenv =
     \<lparr>minecraftAddr = env_or Getenv ''MINESQL_MINECRAFT_ADDR'' ''localhost:25576'',
      pgAddr = '':'' @ env_or Getenv ''MINESQL_PORT'' ''5433'',
      chatAddr = '':'' @ env_or Getenv ''MINESQL_CHAT_PORT'' ''5456''\<rparr>"

subsection \<open>A log with nothing to recover\<close>

definition log_clean :: "blocks \<Rightarrow> WAL \<Rightarrow> bool" where
  "log_clean b wl \<longleftrightarrow>
     1 \<le> nextLSN wl \<and> (\<forall>i. 1 \<le> i \<longrightarrow> i < nextLSN wl \<longrightarrow> b (0, walY, - i) \<noteq> None \<and> settled b (- i)) \<and>
     (\<forall>i. nextLSN wl \<le> i \<longrightarrow> b (0, walY, - i) = None)"

lemma log_clean_cong:
  assumes "log_clean b wl" "\<And>i. 1 \<le> i \<Longrightarrow> b' (0, walY, - i) = b (0, walY, - i)"
  shows "log_clean b' wl"
proof -
  have "settled b' (- i) = settled b (- i)" if "1 \<le> i" for i using assms(2) [OF that] by (rule settled_cong)
  then show ?thesis using assms unfolding log_clean_def by (metis order.trans)
qed

lemma log_clean_book:
  assumes "log_clean b wl" "entry_ok e" "LSN e = nextLSN wl" "nextLSN wl' = nextLSN wl + 1"
  shows "log_clean (put_book e ''COMMITTED'' b) wl'"
proof -
  have "deserializeEntry (book_of e ''COMMITTED'') = Inr (e\<lparr>Status := ''COMMITTED''\<rparr>)"
    by (rule deserialize_book [OF assms(2)]) simp
  then have "settled (put_book e ''COMMITTED'' b) (- LSN e)" by (simp add: settled_def put_book_apply)
  moreover have "settled (put_book e ''COMMITTED'' b) (- i) = settled b (- i)" if "i \<noteq> LSN e" for i
    using that by (intro settled_cong) (simp add: put_book_apply)
  ultimately have "settled (put_book e ''COMMITTED'' b) (- i)" if "1 \<le> i" "i < nextLSN wl'" for i
    using that assms(1,3,4) by (cases "i = LSN e") (auto simp: log_clean_def)
  then show ?thesis using assms(1,3,4) by (auto simp: log_clean_def put_book_apply)
qed

lemma insert_entry_ok:
  assumes "meta_ok t" "0 \<le> i" "i \<le> tableZSpacing" "lsn_ok wl" "in_i64 txid" "Marshal (VMap vs) = Inr js"
  shows "entry_ok (log_entry (nextLSN wl) txid ''INSERT'' (ID t) 0 (YLevel t) (ZStart t + i) js)"
proof -
  have "in_i64 (ZStart t + i)" using meta_z_range [OF assms(1-3)] by (simp add: in_i64_def)
  moreover have "in_i64 (ID t)" "in_i64 (YLevel t)" "in_i64 0" using assms(1) by (simp_all add: in_i64_def meta_ok_def tableY_def)
  ultimately show ?thesis
    using lsn_okD(3) [OF assms(4)] assms(5) Marshal_text [OF assms(6)] by (simp add: entry_ok_def log_entry_def)
qed

lemma log_clean_insert:
  assumes "log_clean b wl" "meta_ok t" "0 \<le> i" "i \<le> tableZSpacing" "lsn_ok wl" "in_i64 txid" "Marshal (VMap vs) = Inr js"
    "nextLSN wl' = nextLSN wl + 1"
  shows "log_clean (insert_blocks t vs txid (ZStart t + i) (nextLSN wl) js b) wl'"
proof -
  have "0 \<le> ZStart t + i" using meta_z_range [OF assms(2-4)] by simp
  then have "log_clean (put_writes (row_writes (Columns t) vs txid (YLevel t) (ZStart t + i)) b) wl"
    by (intro log_clean_cong [OF assms(1)] put_row_frame) auto
  from log_clean_book [OF this insert_entry_ok [OF assms(2-7)]] show ?thesis
    using assms(8) by (simp add: insert_blocks_def log_entry_def)
qed

lemma log_clean_delete:
  assumes "log_clean b wl" "pos_ok pos" "lsn_ok wl" "in_i64 txid" "nextLSN wl' = nextLSN wl + 1"
  shows "log_clean (delete_blocks pos txid (nextLSN wl) b) wl'"
proof -
  have "log_clean (xmax_banners (PosY pos) (PosZ pos) txid b) wl"
    by (rule log_clean_cong [OF assms(1)]) (simp add: xmax_banners_apply)
  from log_clean_book [OF this delete_entry_ok [OF assms(2,4) lsn_okD(3) [OF assms(3)]], of wl'] show ?thesis
    using assms(5) by (simp add: delete_blocks_def delete_entry_def log_entry_def)
qed

context hal_reliable
begin

lemma reach_log_clean:
  assumes "reach h blocks world_ok db s w"
  shows "log_clean (blocks w) (wal s)"
  using assms
proof induction
  case (reach_init w)
  then show ?case by (simp add: log_clean_def NewStorage_def NewWAL_def)
next
  case (reach_create db s w name cols s' w')
  have rel: "world_ok w" "storage_ok (blocks w) s" using reach_rel [OF reach_create.hyps(1)] by (auto simp: state_rel_def)
  obtain w1 where w1: "CreateTable h name cols s w = (Inr (), created name cols s, w1)"
    "blocks w1 = (blocks w)((0, catalogY, nextCatalogZ s) \<mapsto> catalog_block (nextTableID s) name cols)"
    using CreateTable_run [OF rel CreateTable_new [OF reach_create.hyps(2)] reach_create.hyps(6)] by blast
  then have "s' = created name cols s" "w' = w1" using reach_create.hyps(2) by simp_all
  then show ?case
    using w1(2) by (simp add: created_def set_table_def) (rule log_clean_cong [OF reach_create.IH], simp)
next
  case (reach_insert db s w name p vs txid pos s' w')
  let ?t = "metas s ! p"
  have rel: "world_ok w" "storage_ok (blocks w) s" using reach_rel [OF reach_insert.hyps(1)] by (auto simp: state_rel_def)
  have p: "p < length (metas s)" using storage_ok_parts(1) [OF rel(2)] reach_insert.hyps(2) by (auto simp: GetTable_Inr)
  note t = storage_okD(1) [OF rel(2) p] and wl = storage_ok_parts(5) [OF rel(2)]
  obtain js where js: "Marshal (VMap vs) = Inr js" using InsertRow_marshals [OF reach_insert.hyps(3)] by blast
  obtain w1 where w1: "InsertRow h p vs txid s w =
       (Inr (mk_pos 0 tableY (ZStart ?t + RowCount ?t)), (bump_rows p s)\<lparr>wal := \<lparr>nextLSN = nextLSN (wal s) + 1\<rparr>\<rparr>, w1)"
    "blocks w1 = insert_blocks ?t vs txid (ZStart ?t + RowCount ?t) (nextLSN (wal s)) js (blocks w)"
    by (rule InsertRow_run [OF rel(1) t wl reach_insert.hyps(6) js])
  then have eq: "wal s' = \<lparr>nextLSN = nextLSN (wal s) + 1\<rparr>" "w' = w1" using reach_insert.hyps(3) by auto
  have "0 \<le> RowCount ?t" "RowCount ?t \<le> tableZSpacing" using t by (simp_all add: meta_ok_def)
  from log_clean_insert [OF reach_insert.IH t this wl reach_insert.hyps(6) js, of "wal s'"] show ?case
    using w1(2) eq by simp
next
  case (reach_delete db s w name p i txid s' w')
  let ?t = "metas s ! p"
  have rel: "world_ok w" "storage_ok (blocks w) s" "db_repr (blocks w) s db"
    using reach_rel [OF reach_delete.hyps(1)] by (auto simp: state_rel_def)
  have p: "p < length (metas s)" using storage_ok_parts(1) [OF rel(2)] reach_delete.hyps(2) by (auto simp: GetTable_Inr)
  note t = storage_okD(1) [OF rel(2) p] and wl = storage_ok_parts(5) [OF rel(2)]
  have "table_repr (blocks w) ?t (db ! p)" using rel(3) p by (simp add: db_repr_def)
  note at = row_blocks_present [OF t this reach_delete.hyps(3)]
  obtain w1 where w1: "MarkDeleted h (row_pos ?t i) txid s w = (Inr (), s\<lparr>wal := \<lparr>nextLSN = nextLSN (wal s) + 1\<rparr>\<rparr>, w1)"
    "blocks w1 = delete_blocks (row_pos ?t i) txid (nextLSN (wal s)) (blocks w)"
    by (rule MarkDeleted_run [OF rel(1) wl reach_delete.hyps(5) at])
  then have eq: "wal s' = \<lparr>nextLSN = nextLSN (wal s) + 1\<rparr>" "w' = w1" using reach_delete.hyps(4) by auto
  have "pos_ok (row_pos ?t i)" using at by (simp add: pos_ok_def)
  from log_clean_delete [OF reach_delete.IH this wl reach_delete.hyps(5), of "wal s'"] show ?case
    using w1(2) eq by simp
next
  case (reach_scan db s w halt p txid rs w')
  then show ?case using SeqScan_run [of w halt p txid s] reach_rel [OF reach_scan.hyps(1)] by auto
qed

lemma recover_clean:
  assumes clean: "log_clean (blocks w) wl" and ok: "world_ok w" and n: "nextLSN wl < 2 ^ 62" "nextLSN wl \<le> int fuel"
  obtains w' where "Recover fuel h NewWAL w = Some (Inr (), \<lparr>nextLSN = nextLSN wl\<rparr>, w')" "world_ok w'" "blocks w' = blocks w"
proof -
  define k where "k = nat (nextLSN wl - 1)"
  have k: "nextLSN wl = int (Suc k)" using clean by (simp add: k_def log_clean_def)
  have len: "log_length (blocks w) k" using clean k by (auto simp: log_clean_def log_length_def)
  have "recover_blocks k (blocks w) = blocks w"
    using clean k by (intro settled_recover_blocks_id) (auto simp: log_clean_def)
  moreover have "int k < 2 ^ 62" "k < fuel" using n k by simp_all
  ultimately obtain wl' w' where "Recover fuel h NewWAL w = Some (Inr (), wl', w')" "world_ok w'" "blocks w' = blocks w"
    "nextLSN wl' = max 1 (int (Suc k))"
    using recover_run [OF len _ ok, of fuel NewWAL] by (auto simp: NewWAL_def)
  then show thesis using that k by (cases wl') auto
qed

lemma boot_run:
  assumes clean: "log_clean (blocks w) (wal s)" and ok: "world_ok w" and rel: "state_rel (blocks w) db s"
    and n: "nextLSN (wal s) \<le> int fuel" and few: "int (length (metas s)) \<le> maxCatalogZ"
  obtains s' w' where "boot fuel h w = Some (Inr s', w')" "world_ok w'" "blocks w' = blocks w" "state_rel (blocks w') (emptied db) s'"
    "nextLSN (wal s') = nextLSN (wal s)" "\<And>name. map_of (tables s') name = map_of (tables s) name" "metas s' = map forget_rows (metas s)"
proof -
  have wl: "lsn_ok (wal s)" using rel storage_ok_parts(5) by (auto simp: state_rel_def)
  then have lt: "nextLSN (wal s) < 2 ^ 62" by (simp add: lsn_ok_def)
  obtain w1 where 1: "Recover fuel h NewWAL w = Some (Inr (), \<lparr>nextLSN = nextLSN (wal s)\<rparr>, w1)" "world_ok w1" "blocks w1 = blocks w"
    by (rule recover_clean [OF clean ok lt n])
  have rel1: "state_rel (blocks w1) db s" using rel 1(3) by simp
  have wl1: "lsn_ok \<lparr>nextLSN = nextLSN (wal s)\<rparr>" using wl by (simp add: lsn_ok_def)
  obtain s' w' where 2: "LoadCatalog h (NewStorage \<lparr>nextLSN = nextLSN (wal s)\<rparr>) w1 = (Inr (), s', w')" "world_ok w'" "blocks w' = blocks w1"
    "metas s' = map forget_rows (metas s)" "\<And>name. map_of (tables s') name = map_of (tables s) name"
    "wal s' = \<lparr>nextLSN = nextLSN (wal s)\<rparr>" "state_rel (blocks w') (emptied db) s'"
    by (rule restart_run [OF 1(2) rel1 few wl1]) blast
  have "boot fuel h w = Some (Inr s', w')" using 1(1) 2(1) by (simp add: boot_def Let_def)
  then show thesis by (rule that) (use 2 1(3) in simp_all)
qed

end

subsection \<open>Properties\<close>

text \<open>
  Property C29: the process can be started again. After any run of the storage layer on an empty world, made of calls that returned without error,
  starting the process on the same world recovers the log and loads the catalog without error and without changing a block; the new
  storage layer continues the log where it was, finds every table, and represents the database with every table empty.
\<close>

theorem boot_after_run:
  assumes "hal_reliable h blocks ok" "reach h blocks ok db s w" "nextLSN (wal s) \<le> int fuel" "length (metas s) \<le> 1024"
  shows "\<exists>s' w'. boot fuel h w = Some (Inr s', w') \<and> blocks w' = blocks w \<and> nextLSN (wal s') = nextLSN (wal s) \<and>
    (\<forall>name. (GetTable name s' :: 'e storage_error + nat) = GetTable name s) \<and> state_rel (blocks w') (map (\<lambda>_. []) db) s'"
proof -
  have rel: "ok w" "state_rel (blocks w) db s" using hal_reliable.reach_rel [OF assms(1,2)] by auto
  have few: "int (length (metas s)) \<le> maxCatalogZ" using assms(4) by (simp add: maxCatalogZ_def)
  show ?thesis
    by (rule hal_reliable.boot_run [OF assms(1) hal_reliable.reach_log_clean [OF assms(1,2)] rel assms(3) few])
      (auto simp: emptied_def GetTable_def)
qed

theorem boot_after_run_witness:
  "\<exists>s w s' w'. reach (mock_hal :: (mock, unit) hal) mock_blocks mock_ok [[new_version 1 sample_values]] s w \<and>
    boot 10 (mock_hal :: (mock, unit) hal) w = Some (Inr s', w') \<and> nextLSN (wal s') = 2 \<and>
    GetTable ''t'' s' = (Inr 0 :: unit storage_error + nat)"
proof -
  obtain s w where r: "reach (mock_hal :: (mock, unit) hal) mock_blocks mock_ok [[new_version 1 sample_values]] s w"
    "GetTable ''t'' s = (Inr 0 :: unit storage_error + nat)" "nextLSN (wal s) = 2" "length (metas s) = 1"
    by (rule sample_row) blast
  have "nextLSN (wal s) \<le> int 10" "length (metas s) \<le> 1024" using r(3,4) by simp_all
  from boot_after_run [OF mock.hal_reliable_axioms r(1) this] r show ?thesis by metis
qed

end
