(* ===== verification/Serve.thy ===== *)
theory Serve
  imports Wire Boot
begin

text \<open>
  How the process serves and ends: the accept loops of the two servers (\<open>internal/wire\<close>) and the second half of \<open>main\<close>, which starts
  both, waits for a signal or for one of them to return, and then for the rest. The accept loops are functions of what the listener
  delivers; the life of the process is a step relation over \<open>main\<close>, the two servers, the context and the channel of their results.
\<close>

subsection \<open>Accepting connections\<close>

datatype accept_error = ErrClosed | OtherAcceptError

datatype 'c accepted = Conn 'c | AcceptFailed accept_error

text \<open>
  What \<open>ln.Accept\<close> returns, with whether the context is done when an error is looked at. The loop hands every connection to a handler; the
  second result says whether it has returned (with a nil error) or still waits for the next connection.
\<close>

fun accept_loop :: "('c accepted \<times> bool) list \<Rightarrow> 'c list \<times> bool" where
  "accept_loop [] = ([], False)"
| "accept_loop ((Conn c, _) # evs) = (case accept_loop evs of (cs, returned) \<Rightarrow> (c # cs, returned))"
| "accept_loop ((AcceptFailed err, ctxDone) # evs) =
     (if ctxDone then ([], True) else if err = ErrClosed then ([], True) else accept_loop evs)"

definition isClosed :: "accept_error option \<Rightarrow> bool" where
  "isClosed err = (case err of None \<Rightarrow> False | Some e \<Rightarrow> e = ErrClosed)"

fun chat_accept_loop :: "('c accepted \<times> bool) list \<Rightarrow> 'c list \<times> bool" where
  "chat_accept_loop [] = ([], False)"
| "chat_accept_loop ((Conn c, _) # evs) = (case chat_accept_loop evs of (cs, returned) \<Rightarrow> (c # cs, returned))"
| "chat_accept_loop ((AcceptFailed err, ctxDone) # evs) =
     (if ctxDone then ([], True) else if isClosed (Some err) then ([], True) else chat_accept_loop evs)"

datatype 'x served = ListenFailed 'x | ServedNil | StillServing

definition ListenAndServe :: "'x option \<Rightarrow> ('c accepted \<times> bool) list \<Rightarrow> 'c list \<times> 'x served" where
  "ListenAndServe listenErr evs =
     (case listenErr of
        Some err \<Rightarrow> ([], ListenFailed err)
      | None \<Rightarrow> (case accept_loop evs of (cs, returned) \<Rightarrow> (cs, if returned then ServedNil else StillServing)))"

definition chat_ListenAndServe :: "'x option \<Rightarrow> ('c accepted \<times> bool) list \<Rightarrow> 'c list \<times> 'x served" where
  "chat_ListenAndServe listenErr evs =
     (case listenErr of
        Some err \<Rightarrow> ([], ListenFailed err)
      | None \<Rightarrow> (case chat_accept_loop evs of (cs, returned) \<Rightarrow> (cs, if returned then ServedNil else StillServing)))"

text \<open>An event that ends the loop.\<close>

fun ends_loop :: "'c accepted \<times> bool \<Rightarrow> bool" where
  "ends_loop (Conn c, ctxDone) = False"
| "ends_loop (AcceptFailed err, ctxDone) = (ctxDone \<or> err = ErrClosed)"

fun connection :: "'c accepted \<times> bool \<Rightarrow> 'c list" where
  "connection (Conn c, ctxDone) = [c]"
| "connection (AcceptFailed err, ctxDone) = []"

lemma accept_loop_serves:
  "accept_loop evs = (concat (map connection (takeWhile (\<lambda>e. \<not> ends_loop e) evs)), list_ex ends_loop evs)"
  by (induction evs rule: accept_loop.induct) simp_all

lemma chat_accept_loop_same: "chat_accept_loop evs = accept_loop evs"
  by (induction evs rule: accept_loop.induct) (simp_all add: isClosed_def)

subsection \<open>The life of the process\<close>

datatype server_phase = Starting | Accepting | Stopped

text \<open>\<open>Draining\<close> is the wait after the first \<open>select\<close>; \<open>Exited True\<close> is the end after the message that all servers stopped, \<open>Exited False\<close> after the timeout.\<close>

datatype main_phase = Selecting | Draining | Exited bool

record life =
  ctxDone :: bool
  pgServer :: server_phase
  chatServer :: server_phase
  errCh :: "bool list"
  mainPhase :: main_phase
  received :: bool

definition life_start :: life where
  "life_start =
     \<lparr>ctxDone = False, pgServer = Starting, chatServer = Starting, errCh = [], mainPhase = Selecting, received = False\<rparr>"

definition exited :: "life \<Rightarrow> bool" where
  "exited l = (case mainPhase l of Exited _ \<Rightarrow> True | _ \<Rightarrow> False)"

text \<open>
  A value in the channel is whether the server returned an error; the channel has room for both, so sending never waits. \<open>received\<close> records that
  the first \<open>select\<close> of \<open>main\<close> took the result of a server. When \<open>main\<close> returns the process has ended and takes no step.
\<close>

inductive life_step :: "life \<Rightarrow> life \<Rightarrow> bool" where
  signal: "\<not> exited l \<Longrightarrow> life_step l (l\<lparr>ctxDone := True\<rparr>)"
| pg_listens: "\<not> exited l \<Longrightarrow> pgServer l = Starting \<Longrightarrow> life_step l (l\<lparr>pgServer := Accepting\<rparr>)"
| pg_listen_fails:
    "\<not> exited l \<Longrightarrow> pgServer l = Starting \<Longrightarrow> life_step l (l\<lparr>pgServer := Stopped, errCh := errCh l @ [True]\<rparr>)"
| pg_returns:
    "\<not> exited l \<Longrightarrow> pgServer l = Accepting \<Longrightarrow> ctxDone l \<Longrightarrow>
     life_step l (l\<lparr>pgServer := Stopped, errCh := errCh l @ [False]\<rparr>)"
| chat_listens: "\<not> exited l \<Longrightarrow> chatServer l = Starting \<Longrightarrow> life_step l (l\<lparr>chatServer := Accepting\<rparr>)"
| chat_listen_fails:
    "\<not> exited l \<Longrightarrow> chatServer l = Starting \<Longrightarrow> life_step l (l\<lparr>chatServer := Stopped, errCh := errCh l @ [True]\<rparr>)"
| chat_returns:
    "\<not> exited l \<Longrightarrow> chatServer l = Accepting \<Longrightarrow> ctxDone l \<Longrightarrow>
     life_step l (l\<lparr>chatServer := Stopped, errCh := errCh l @ [False]\<rparr>)"
| main_receives:
    "mainPhase l = Selecting \<Longrightarrow> errCh l = err # errs \<Longrightarrow>
     life_step l (l\<lparr>errCh := errs, ctxDone := True, mainPhase := Draining, received := True\<rparr>)"
| main_cancelled: "mainPhase l = Selecting \<Longrightarrow> ctxDone l \<Longrightarrow> life_step l (l\<lparr>mainPhase := Draining\<rparr>)"
| main_drained: "mainPhase l = Draining \<Longrightarrow> errCh l = err # errs \<Longrightarrow> life_step l (l\<lparr>errCh := errs, mainPhase := Exited True\<rparr>)"
| main_timeout: "mainPhase l = Draining \<Longrightarrow> life_step l (l\<lparr>mainPhase := Exited False\<rparr>)"

inductive_cases life_stepE: "life_step l l'"

inductive lives :: "life \<Rightarrow> bool" where
  lives_start: "lives life_start"
| lives_step: "lives l \<Longrightarrow> life_step l l' \<Longrightarrow> lives l'"

definition stopped :: "life \<Rightarrow> nat" where
  "stopped l = (if pgServer l = Stopped then 1 else 0) + (if chatServer l = Stopped then 1 else 0)"

text \<open>Every server that stopped has sent one value; the values are in the channel or received by \<open>main\<close>.\<close>

definition taken :: "life \<Rightarrow> nat" where
  "taken l = (if received l then 1 else 0) + (if mainPhase l = Exited True then 1 else 0)"

definition life_inv :: "life \<Rightarrow> bool" where
  "life_inv l \<longleftrightarrow>
     length (errCh l) + taken l = stopped l \<and>
     (mainPhase l = Selecting \<longrightarrow> \<not> received l) \<and> (mainPhase l \<noteq> Selecting \<longrightarrow> ctxDone l)"

lemma life_step_inv: "life_step l l' \<Longrightarrow> life_inv l \<Longrightarrow> life_inv l'"
  by (erule life_stepE) (auto simp: life_inv_def stopped_def taken_def exited_def split: if_splits)

lemma lives_inv: "lives l \<Longrightarrow> life_inv l"
proof (induction rule: lives.induct)
  case lives_start
  then show ?case by (simp add: life_start_def life_inv_def stopped_def taken_def)
qed (rule life_step_inv)

lemma life_invD:
  assumes "lives l"
  shows "length (errCh l) + taken l = stopped l" and "mainPhase l \<noteq> Selecting \<Longrightarrow> ctxDone l"
  using lives_inv [OF assms] by (simp_all add: life_inv_def)

text \<open>The run in which a signal arrives while both servers accept connections and the PostgreSQL server returns first.\<close>

lemma early_report: "\<exists>l. lives l \<and> mainPhase l = Exited True \<and> chatServer l = Accepting"
proof -
  let ?a = "life_start\<lparr>pgServer := Accepting\<rparr>"
  let ?b = "?a\<lparr>chatServer := Accepting\<rparr>"
  let ?c = "?b\<lparr>ctxDone := True\<rparr>"
  let ?d = "?c\<lparr>mainPhase := Draining\<rparr>"
  let ?e = "?d\<lparr>pgServer := Stopped, errCh := errCh ?d @ [False]\<rparr>"
  let ?f = "?e\<lparr>errCh := [], mainPhase := Exited True\<rparr>"
  have a: "lives ?a" by (rule lives_step [OF lives_start pg_listens]) (simp_all add: life_start_def exited_def)
  have b: "lives ?b" by (rule lives_step [OF a chat_listens]) (simp_all add: life_start_def exited_def)
  have c: "lives ?c" by (rule lives_step [OF b signal]) (simp add: life_start_def exited_def)
  have d: "lives ?d" by (rule lives_step [OF c main_cancelled]) (simp_all add: life_start_def)
  have e: "lives ?e" by (rule lives_step [OF d pg_returns]) (simp_all add: exited_def)
  have "lives ?f"
    by (rule lives_step [OF e main_drained [where err = False]]) (simp_all add: life_start_def)
  moreover have "mainPhase ?f = Exited True \<and> chatServer ?f = Accepting" by simp
  ultimately show ?thesis by blast
qed

text \<open>The run in which neither server can listen.\<close>

lemma failed_start: "\<exists>l. lives l \<and> mainPhase l = Exited True \<and> received l"
proof -
  let ?a = "life_start\<lparr>pgServer := Stopped, errCh := [True]\<rparr>"
  let ?b = "?a\<lparr>chatServer := Stopped, errCh := [True, True]\<rparr>"
  let ?c = "?b\<lparr>errCh := [True], ctxDone := True, mainPhase := Draining, received := True\<rparr>"
  let ?d = "?c\<lparr>errCh := [], mainPhase := Exited True\<rparr>"
  have a: "lives ?a" using lives_step [OF lives_start pg_listen_fails] by (simp add: life_start_def exited_def)
  have b: "lives ?b" using lives_step [OF a chat_listen_fails] by (simp add: life_start_def exited_def)
  have c: "lives ?c" by (rule lives_step [OF b main_receives [where err = True]]) (simp_all add: life_start_def)
  have "lives ?d" by (rule lives_step [OF c main_drained [where err = True]]) simp_all
  moreover have "mainPhase ?d = Exited True \<and> received ?d" by simp
  ultimately show ?thesis by blast
qed

subsection \<open>Properties\<close>

text \<open>
  Property C40: how the process ends. Once it has left the wait for a signal or a server, the context is cancelled. When it reports that all servers have
  stopped at least one of them has, and both have if the shutdown began with the result of a server. After a signal it waits
  for one result only, so a run exists that ends with this report while the chat server still accepts connections.
\<close>

theorem shutdown_waits_for_one:
  "(\<forall>l. lives l \<longrightarrow>
      (mainPhase l \<noteq> Selecting \<longrightarrow> ctxDone l) \<and>
      (mainPhase l = Exited True \<longrightarrow> pgServer l = Stopped \<or> chatServer l = Stopped) \<and>
      (mainPhase l = Exited True \<and> received l \<longrightarrow> pgServer l = Stopped \<and> chatServer l = Stopped)) \<and>
   (\<exists>l. lives l \<and> mainPhase l = Exited True \<and> chatServer l = Accepting)"
proof (intro conjI allI impI)
  fix l
  assume l: "lives l"
  show "ctxDone l" if "mainPhase l \<noteq> Selecting" using life_invD(2) [OF l that] .
  show "pgServer l = Stopped \<or> chatServer l = Stopped" if "mainPhase l = Exited True"
    using that life_invD(1) [OF l] by (auto simp: stopped_def taken_def split: if_splits)
  show "pgServer l = Stopped" "chatServer l = Stopped" if "mainPhase l = Exited True \<and> received l"
    using that life_invD(1) [OF l] by (auto simp: stopped_def taken_def split: if_splits)
qed (rule early_report)

theorem shutdown_waits_for_one_witness:
  "\<exists>l. lives l \<and> mainPhase l = Exited True \<and> received l \<and> ctxDone l \<and> pgServer l = Stopped \<and> chatServer l = Stopped"
proof -
  obtain l where "lives l" "mainPhase l = Exited True" "received l" using failed_start by blast
  then show ?thesis using shutdown_waits_for_one by auto
qed

end
