(* ===== verification/Sql.thy ===== *)
theory Sql
  imports Executor Database
begin

text \<open>
  Statements against the abstract database: what the executor returns and makes of a state that represents a database,
  for each kind of statement. A cell of a row is what its column keeps of the inserted value, and a
  condition compares cells.
\<close>

subsection \<open>Cells and conditions\<close>

definition cell :: "ColumnDef \<Rightarrow> version \<Rightarrow> goval" where
  "cell col v = (case stored col (getColumnValue (vals v) col) of None \<Rightarrow> VNil | Some x \<Rightarrow> x)"

definition columns_distinct :: "ColumnDef list \<Rightarrow> bool" where
  "columns_distinct cols \<longleftrightarrow> distinct (map colName cols) \<and> distinct (map colOrdinal cols)"

definition satisfies :: "ColumnDef list \<Rightarrow> Condition list \<Rightarrow> version \<Rightarrow> bool" where
  "satisfies cols conds v \<longleftrightarrow>
     list_all
       (\<lambda>c. case find_column (condColumn c) cols of
              None \<Rightarrow> False
            | Some col \<Rightarrow> compareValue (cell col v) (condValue c) (Operator c)) conds"

lemma row_get_set_stored:
  "row_get (set_stored vs c row) (col_key i) =
     (case stored c (getColumnValue vs c) of
        None \<Rightarrow> row_get row (col_key i)
      | Some x \<Rightarrow> if i = colOrdinal c then x else row_get row (col_key i))"
  by (auto simp: set_stored_def row_get_def map_of_update split: option.splits)

lemma row_get_stored_other:
  "i \<notin> set (map colOrdinal cols) \<Longrightarrow> row_get (fold (set_stored vs) cols row) (col_key i) = row_get row (col_key i)"
  by (induction cols arbitrary: row) (auto simp: row_get_set_stored split: option.splits)

lemma row_get_stored:
  assumes "distinct (map colOrdinal cols)" "col \<in> set cols" "\<And>i. row_get row (col_key i) = VNil"
  shows "row_get (fold (set_stored vs) cols row) (col_key (colOrdinal col)) =
    (case stored col (getColumnValue vs col) of None \<Rightarrow> VNil | Some x \<Rightarrow> x)"
proof -
  obtain xs ys where cols: "cols = xs @ col # ys" using assms(2) by (meson split_list)
  have out: "colOrdinal col \<notin> set (map colOrdinal xs)" "colOrdinal col \<notin> set (map colOrdinal ys)"
    using assms(1) by (auto simp: cols)
  show ?thesis
    using row_get_stored_other [OF out(1), of vs row] row_get_stored_other [OF out(2)] assms(3)
    by (simp add: cols row_get_set_stored split: option.splits)
qed

lemma row_get_version:
  assumes "distinct (map colOrdinal cols)" "col \<in> set cols"
  shows "row_get (version_row cols v) (col_key (colOrdinal col)) = cell col v"
  unfolding version_row_def cell_def
  by (rule row_get_stored [OF assms]) (simp add: row_get_def col_key_def)

lemma row_get_located [simp]: "row_get (located t z row) (col_key i) = row_get row (col_key i)"
  by (simp add: located_def row_get_def map_of_update col_key_def)

lemma find_column_set: "find_column name cols = Some col \<Longrightarrow> col \<in> set cols \<and> colName col = name"
  by (induction cols) (auto split: if_splits)

lemma map_of_fold_update:
  "map_of (fold (\<lambda>c m. AList.update (f c) (g c) m) cs m) k =
     (case map_of (rev (map (\<lambda>c. (f c, g c)) cs)) k of None \<Rightarrow> map_of m k | Some v \<Rightarrow> Some v)"
  by (induction cs arbitrary: m) (auto simp: map_of_update map_add_def split: option.splits)

lemma buildColumnMap_find:
  assumes "distinct (map colName cols)"
  shows "map_of (buildColumnMap cols) name = map_option colOrdinal (find_column name cols)"
proof -
  have "map_of (rev (map (\<lambda>c. (colName c, colOrdinal c)) cols)) name = map_of (map (\<lambda>c. (colName c, colOrdinal c)) cols) name"
    by (rule arg_cong [of _ _ "\<lambda>m. m name"], subst map_of_inject_set) (use assms in \<open>simp_all add: rev_map [symmetric] comp_def\<close>)
  also have "\<dots> = map_option colOrdinal (find_column name cols)"
    by (induction cols) auto
  finally show ?thesis by (simp add: buildColumnMap_def map_of_fold_update split: option.splits)
qed

lemma evaluateWhere_located [simp]: "evaluateWhere (located t z row) conds m = evaluateWhere row conds m"
  by (induction conds) (auto simp: Let_def split: option.splits)

lemma evaluateWhere_version:
  assumes "columns_distinct cols"
  shows "evaluateWhere (version_row cols v) conds (buildColumnMap cols) = satisfies cols conds v"
proof (induction conds)
  case (Cons c conds)
  then show ?case
    using assms find_column_set [of "condColumn c" cols]
    by (auto simp: satisfies_def buildColumnMap_find columns_distinct_def row_get_version Let_def split: option.splits)
qed (simp add: satisfies_def)

lemma output_row_version:
  assumes "columns_distinct cols" "set out \<subseteq> set cols"
  shows "output_row out (located t z (version_row cols v)) = map (\<lambda>col. cell col v) out"
  using assms by (auto simp: output_row_def columns_distinct_def row_get_version)

lemma resolveOutputColumns_subset: "set (resolveOutputColumns req cols) \<subseteq> set cols"
  by (auto simp: resolveOutputColumns_def List.map_filter_def dest: find_column_set split: option.splits)

subsection \<open>Select\<close>

lemma select_loop_rows:
  "select_loop conds m out (map ScanRow rows) = Inr (map (output_row out) (filter (\<lambda>row. evaluateWhere row conds m) rows))"
  by (induction rows) auto

definition select_rows :: "int \<Rightarrow> ColumnDef list \<Rightarrow> ColumnDef list \<Rightarrow> Condition list \<Rightarrow> version list \<Rightarrow> goval list list" where
  "select_rows txid cols out conds vs =
     map (\<lambda>v. map (\<lambda>col. cell col v) out) (filter (\<lambda>v. visible txid v \<and> satisfies cols conds v) vs)"

lemma select_table_rows:
  assumes "columns_distinct (Columns t)" "set out \<subseteq> set (Columns t)"
  shows "map (output_row out) (filter (\<lambda>row. evaluateWhere row conds (buildColumnMap (Columns t))) (table_rows t txid vs)) =
    select_rows txid (Columns t) out conds vs"
proof (induction vs rule: rev_induct)
  case (snoc v vs)
  then show ?case
    using assms by (simp add: table_rows_snoc select_rows_def evaluateWhere_version output_row_version)
qed (simp add: table_rows_def select_rows_def)

definition select_result :: "ColumnDef list \<Rightarrow> goval list list \<Rightarrow> Result" where
  "select_result out rows =
     \<lparr>resColumns = map colName out, resColumnTypes = map colType out, resRows = rows, Tag = ''SELECT '' @ fmt_d (int (length rows))\<rparr>"

context hal_reliable
begin

lemma select_run:
  assumes rel: "state_rel (blocks w) db s" "world_ok w" and sel: "stmtSelect stmt = Some sel"
    and name: "map_of (tables s) (selTable sel) = Some p" and dist: "columns_distinct (Columns (metas s ! p))"
  obtains w' where "executeSelect h (\<lambda>_. False) stmt txid s w =
      (Inr (select_result (resolveOutputColumns (selColumns sel) (Columns (metas s ! p)))
         (select_rows txid (Columns (metas s ! p)) (resolveOutputColumns (selColumns sel) (Columns (metas s ! p))) (selWhere sel) (db ! p))), s, w')"
    "world_ok w'" "blocks w' = blocks w"
proof -
  have p: "p < length (metas s)" using rel(1) name storage_ok_parts(1) by (auto simp: state_rel_def)
  obtain w' where w': "SeqScan h (\<lambda>_. False) p txid s w = (map ScanRow (table_rows (metas s ! p) txid (db ! p)), w')"
    "world_ok w'" "blocks w' = blocks w"
    by (rule scan_represented [OF rel p])
  note rows = select_table_rows [OF dist resolveOutputColumns_subset, of "selColumns sel" "selWhere sel" txid "db ! p"]
  show thesis
    by (rule that [OF _ w'(2,3)])
      (simp add: executeSelect_def sel GetTable_def name w'(1) select_loop_rows Let_def select_result_def columnNames_def columnTypes_def
        rows [symmetric])
qed

end

subsection \<open>Insert\<close>

text \<open>The values an insert names, found again by their columns.\<close>

lemma insert_values_nth:
  assumes "distinct names" "i < length names" "length xs = length names"
  shows "map_of (insert_values names xs) (names ! i) = Some (xs ! i)"
proof -
  have fold: "insert_values names xs = fold (\<lambda>c m. AList.update (fst c) (snd c) m) (zip names xs) []"
    by (simp add: insert_values_def case_prod_unfold)
  have "map_of (rev (zip names xs)) = map_of (zip names xs)"
    using assms by (subst map_of_inject_set) (simp_all add: rev_map [symmetric])
  moreover have "map_of (zip names xs) (names ! i) = Some (xs ! i)"
    using assms by (simp add: map_of_zip_nth)
  ultimately show ?thesis by (simp add: fold map_of_fold_update)
qed

text \<open>The literals SQL can deliver.\<close>

fun is_literal :: "goval \<Rightarrow> bool" where
  "is_literal VNil = True"
| "is_literal (VInt64 i) = in_i64 i"
| "is_literal (VString s) = True"
| "is_literal (VBool b) = True"
| "is_literal _ = False"

lemma fold_subset:
  assumes "\<And>x m. S (f x m) \<subseteq> insert (g x) (S m)"
  shows "S (fold f xs m) \<subseteq> g ` set xs \<union> S m"
proof (induction xs arbitrary: m)
  case (Cons x xs)
  from Cons [of "f x m"] assms [of x m] show ?case by auto
qed simp

lemma snd_update: "snd ` set (AList.update k v m) \<subseteq> insert v (snd ` set m)"
  by (induction m) auto

lemma set_insert_values: "snd ` set (insert_values names xs) \<subseteq> set xs"
proof -
  have "snd ` set (insert_values names xs) \<subseteq> snd ` set (zip names xs) \<union> snd ` set ([] :: goval gomap)"
    unfolding insert_values_def by (rule fold_subset) (simp add: case_prod_unfold snd_update)
  moreover have "snd ` set (zip names xs) \<subseteq> set xs" by (auto dest: set_zip_rightD)
  ultimately show ?thesis by (simp add: subset_trans)
qed

lemma Marshal_literals:
  assumes "\<And>v. v \<in> snd ` set m \<Longrightarrow> is_literal v"
  shows "\<exists>js. Marshal (VMap m) = Inr js"
proof -
  have "\<exists>j. json_of v = Inr j" if "is_literal v" for v using that by (cases v) auto
  then have "\<forall>kv \<in> set (sort_key fst m). \<exists>j. map_sum id (Pair (fst kv)) (json_of (snd kv)) = Inr j"
    using assms by (fastforce simp: map_sum_id_Inr)
  then obtain f where "\<forall>kv \<in> set (sort_key fst m). map_sum id (Pair (fst kv)) (json_of (snd kv)) = Inr (f kv)" by metis
  then have "map (\<lambda>kv. map_sum id (Pair (fst kv)) (json_of (snd kv))) (sort_key fst m) = map Inr (map f (sort_key fst m))" by simp
  then have "collect (map (\<lambda>kv. map_sum id (Pair (fst kv)) (json_of (snd kv))) (sort_key fst m)) = Inr (map f (sort_key fst m))"
    by (simp only: collect_Inr)
  then show ?thesis unfolding Marshal_def json_of.simps by simp
qed

context hal_reliable
begin

lemma insert_run:
  assumes rel: "state_rel (blocks w) db s" "world_ok w" and ins: "stmtInsert stmt = Some ins"
    and name: "map_of (tables s) (insTable ins) = Some p"
    and vs: "vs = insert_values (if insColumns ins = [] then map colName (Columns (metas s ! p)) else insColumns ins) (insValues ins)"
    and lit: "list_all is_literal (insValues ins)"
    and g: "RowCount (metas s ! p) < tableZSpacing" "row_storable (Columns (metas s ! p)) vs" "in_i64 txid" "nextLSN (wal s) + 1 < 2 ^ 62"
  obtains s' w' where "executeInsert h stmt txid s w = (Inr (tag_result ''INSERT 0 1''), s', w')" "world_ok w'"
    "state_rel (blocks w') (db[p := db ! p @ [new_version txid vs]]) s'" "map_of (tables s') = map_of (tables s)"
    "Columns (metas s' ! p) = Columns (metas s ! p)" "statics s' = statics s" "nextLSN (wal s') = nextLSN (wal s) + 1"
proof -
  obtain js where js: "Marshal (VMap vs) = Inr js"
    using Marshal_literals [of vs] set_insert_values lit by (force simp: vs list_all_iff)
  obtain s' w' where r: "InsertRow h p vs txid s w = (Inr (row_pos (metas s ! p) (length (db ! p))), s', w')" "world_ok w'"
    "state_rel (blocks w') (db[p := db ! p @ [new_version txid vs]]) s'" "nextLSN (wal s') = nextLSN (wal s) + 1"
    by (rule insert_simulates [OF rel name js g])
  have p: "p < length (metas s)" using rel(1) name storage_ok_parts(1) by (auto simp: state_rel_def)
  have st: "tables s' = tables s" "metas s' = metas (bump_rows p s)"
    using r(1) by (auto simp: InsertRow_def Let_def bump_rows_def split: prod.splits sum.splits)
  then have "tables s' = tables s \<and> Columns (metas s' ! p) = Columns (metas s ! p)" using p by (simp add: bump_rows_def)
  moreover have "statics s' = statics s"
    using p by (intro nth_equalityI) (simp_all add: statics_def st(2) bump_rows_def nth_list_update)
  moreover have "executeInsert h stmt txid s w = (Inr (tag_result ''INSERT 0 1''), s', w')"
    using r(1) by (simp add: executeInsert_def ins GetTable_def name vs Let_def split: if_splits)
  ultimately show thesis using that r(2-4) by simp
qed

end

subsection \<open>Delete\<close>

definition delete_matching :: "int \<Rightarrow> ColumnDef list \<Rightarrow> Condition list \<Rightarrow> version \<Rightarrow> version" where
  "delete_matching txid cols conds v = (if visible txid v \<and> satisfies cols conds v then delete_version txid v else v)"

lemma delete_matching_alt:
  "delete_matching txid cols conds = (\<lambda>v. if visible txid v \<and> satisfies cols conds v then v\<lparr>vmax := Some txid\<rparr> else v)"
  by (simp add: fun_eq_iff delete_matching_def delete_version_def)

lemma rowBlockPos_located [simp]: "rowBlockPos (located t z row) = Some (mk_pos 0 (YLevel t) z)"
  by (simp add: rowBlockPos_def located_def map_of_update)

definition deleted_upto :: "int \<Rightarrow> ColumnDef list \<Rightarrow> Condition list \<Rightarrow> nat \<Rightarrow> version list \<Rightarrow> version list" where
  "deleted_upto txid cols conds k vs = map (delete_matching txid cols conds) (take k vs) @ drop k vs"

definition matching :: "int \<Rightarrow> ColumnDef list \<Rightarrow> Condition list \<Rightarrow> version list \<Rightarrow> nat" where
  "matching txid cols conds vs = length (filter (\<lambda>v. visible txid v \<and> satisfies cols conds v) vs)"

lemma deleted_upto_sel:
  assumes "k < length vs"
  shows "length (deleted_upto txid cols conds k vs) = length vs" "deleted_upto txid cols conds k vs ! k = vs ! k"
    "deleted_upto txid cols conds (Suc k) vs = (deleted_upto txid cols conds k vs)[k := delete_matching txid cols conds (vs ! k)]"
  using assms
  by (simp_all add: deleted_upto_def nth_append list_update_append take_Suc_conv_app_nth Cons_nth_drop_Suc [symmetric])

lemma matching_drop:
  "k < length vs \<Longrightarrow> matching txid cols conds (drop k vs) =
     (if visible txid (vs ! k) \<and> satisfies cols conds (vs ! k) then 1 else 0) + matching txid cols conds (drop (Suc k) vs)"
  by (simp add: matching_def Cons_nth_drop_Suc [symmetric])

lemma MarkDeleted_state:
  assumes "MarkDeleted h pos txid s w = (r, s', w')"
  shows "tables s' = tables s" "metas s' = metas s"
  using assms by (auto simp: MarkDeleted_def Let_def split: prod.splits sum.splits if_splits)

context hal_reliable
begin

lemma delete_loop_run:
  assumes name: "map_of (tables s) name = Some p" and t: "t = metas s ! p" and dist: "columns_distinct (Columns t)"
    and tx: "in_i64 txid" and p: "p < length db"
  shows "k \<le> length (db ! p) \<Longrightarrow> world_ok w \<Longrightarrow>
    state_rel (blocks w) (db[p := deleted_upto txid (Columns t) conds k (db ! p)]) s1 \<Longrightarrow> tables s1 = tables s \<Longrightarrow> metas s1 = metas s \<Longrightarrow>
    nextLSN (wal s1) + int (length (db ! p) - k) < 2 ^ 62 \<Longrightarrow>
    \<exists>s' w'. delete_loop h (\<lambda>_. False) t conds (buildColumnMap (Columns t)) txid (int (length (db ! p))) (int k) count s1 w =
        (Inr (count + int (matching txid (Columns t) conds (drop k (db ! p)))), s', w') \<and> world_ok w' \<and>
      state_rel (blocks w') (db[p := map (delete_matching txid (Columns t) conds) (db ! p)]) s' \<and> tables s' = tables s \<and> metas s' = metas s \<and>
      nextLSN (wal s') = nextLSN (wal s1) + int (matching txid (Columns t) conds (drop k (db ! p)))"
proof (induction "length (db ! p) - k" arbitrary: k count s1 w)
  case 0
  then show ?case
    by (subst delete_loop.simps) (simp add: deleted_upto_def matching_def)
next
  case (Suc n)
  let ?vs = "db ! p" and ?del = "deleted_upto txid (Columns t) conds"
  let ?db = "db[p := ?del k ?vs]"
  have k: "k < length ?vs" using Suc.hyps(2) by simp
  note sel = deleted_upto_sel [OF k, of txid "Columns t" conds]
  have sk: "n = length ?vs - Suc k" "Suc k \<le> length ?vs" using Suc.hyps(2) k by auto
  have pm: "p < length (metas s1)" "metas s1 ! p = t" using Suc.prems(3,5) p t by (auto simp: state_rel_def db_repr_def)
  have rep: "meta_ok t" "table_repr (blocks w) t (?del k ?vs)"
    using Suc.prems(3) pm p storage_okD(1) [of "blocks w" s1 p] by (auto simp: state_rel_def db_repr_def)
  have one: "scan_one t txid (blocks w) (int k) =
      (if visible txid (?vs ! k) then Some (located t (ZStart t + int k) (version_row (Columns t) (?vs ! k))) else None)"
    using scan_one_version [OF rep, of k txid] sel(1,2) k by simp
  obtain w1 where 1: "scan_step h t txid (int k) w = (map_option ScanRow (scan_one t txid (blocks w) (int k)), w1)" "world_ok w1" "blocks w1 = blocks w"
    by (rule scan_step_run [OF Suc.prems(2)])
  show ?case
  proof (cases "visible txid (?vs ! k) \<and> satisfies (Columns t) conds (?vs ! k)")
    case False
    then have "delete_matching txid (Columns t) conds (?vs ! k) = ?vs ! k" by (auto simp: delete_matching_def)
    then have "?del (Suc k) ?vs = ?del k ?vs" using sel(2,3) list_update_id [of "?del k ?vs" k] by simp
    moreover have "nextLSN (wal s1) + int (length ?vs - Suc k) < 2 ^ 62" using Suc.prems(6) k by linarith
    ultimately obtain s' w' where r: "delete_loop h (\<lambda>_. False) t conds (buildColumnMap (Columns t)) txid (int (length ?vs)) (int (Suc k)) count s1 w1 =
        (Inr (count + int (matching txid (Columns t) conds (drop (Suc k) ?vs))), s', w')" "world_ok w'"
      "state_rel (blocks w') (db[p := map (delete_matching txid (Columns t) conds) ?vs]) s'" "tables s' = tables s" "metas s' = metas s"
      "nextLSN (wal s') = nextLSN (wal s1) + int (matching txid (Columns t) conds (drop (Suc k) ?vs))"
      using Suc.hyps(1) [OF sk(1,2) 1(2), of s1 count] Suc.prems 1(3) by auto
    have "delete_loop h (\<lambda>_. False) t conds (buildColumnMap (Columns t)) txid (int (length ?vs)) (int k) count s1 w =
        delete_loop h (\<lambda>_. False) t conds (buildColumnMap (Columns t)) txid (int (length ?vs)) (int (Suc k)) count s1 w1"
      using False k 1(1) one by (subst delete_loop.simps) (auto simp: evaluateWhere_version [OF dist] algebra_simps)
    then show ?thesis using r matching_drop [OF k, of txid "Columns t" conds] False by auto
  next
    case True
    have z: "mk_pos 0 (YLevel t) (ZStart t + int k) = row_pos (metas s1 ! p) k" by (simp add: row_pos_def pm)
    have nm: "map_of (tables s1) name = Some p" using name Suc.prems(4) by simp
    have kl: "k < length (?db ! p)" using sel(1) k p by simp
    have lsn: "nextLSN (wal s1) + 1 < 2 ^ 62" using Suc.prems(6) k by linarith
    have rel1: "state_rel (blocks w1) ?db s1" using Suc.prems(3) 1(3) by simp
    obtain s2 w2 where 2: "MarkDeleted h (row_pos (metas s1 ! p) k) txid s1 w1 = (Inr (), s2, w2)" "world_ok w2"
      "state_rel (blocks w2) (?db[p := (?db ! p)[k := delete_version txid (?db ! p ! k)]]) s2" "nextLSN (wal s2) = nextLSN (wal s1) + 1"
      by (rule delete_simulates [OF rel1 1(2) nm kl tx lsn])
    have "(?db ! p)[k := delete_version txid (?db ! p ! k)] = ?del (Suc k) ?vs"
      using sel p True by (simp add: delete_matching_def)
    then have rel2: "state_rel (blocks w2) (db[p := ?del (Suc k) ?vs]) s2" using 2(3) by simp
    note st = MarkDeleted_state [OF 2(1)]
    have "nextLSN (wal s2) + int (length ?vs - Suc k) < 2 ^ 62" using Suc.prems(6) k 2(4) by linarith
    then obtain s' w' where r: "delete_loop h (\<lambda>_. False) t conds (buildColumnMap (Columns t)) txid (int (length ?vs)) (int (Suc k)) (count + 1) s2 w2 =
        (Inr (count + 1 + int (matching txid (Columns t) conds (drop (Suc k) ?vs))), s', w')" "world_ok w'"
      "state_rel (blocks w') (db[p := map (delete_matching txid (Columns t) conds) ?vs]) s'" "tables s' = tables s" "metas s' = metas s"
      "nextLSN (wal s') = nextLSN (wal s2) + int (matching txid (Columns t) conds (drop (Suc k) ?vs))"
      using Suc.hyps(1) [OF sk(1,2) 2(2) rel2, of "count + 1"] Suc.prems(4,5) st by auto
    have "delete_loop h (\<lambda>_. False) t conds (buildColumnMap (Columns t)) txid (int (length ?vs)) (int k) count s1 w =
        delete_loop h (\<lambda>_. False) t conds (buildColumnMap (Columns t)) txid (int (length ?vs)) (int (Suc k)) (count + 1) s2 w2"
      using True k 1(1) one 2(1) z by (subst delete_loop.simps) (auto simp: evaluateWhere_version [OF dist] algebra_simps)
    then show ?thesis using r matching_drop [OF k, of txid "Columns t" conds] True 2(4) by (auto simp: algebra_simps)
  qed
qed

lemma delete_run:
  assumes rel: "state_rel (blocks w) db s" "world_ok w" and stmt: "stmtDelete stmt = Some \<lparr>delTable = name, delWhere = conds\<rparr>"
    and nm: "map_of (tables s) name = Some p" and dist: "columns_distinct (Columns (metas s ! p))"
    and tx: "in_i64 txid" and lsn: "nextLSN (wal s) + int (length (db ! p)) < 2 ^ 62"
  obtains s' w' where "executeDelete h (\<lambda>_. False) stmt txid s w =
      (Inr (tag_result (''DELETE '' @ fmt_d (int (matching txid (Columns (metas s ! p)) conds (db ! p))))), s', w')" "world_ok w'"
    "state_rel (blocks w') (db[p := map (delete_matching txid (Columns (metas s ! p)) conds) (db ! p)]) s'"
    "metas s' = metas s" "nextLSN (wal s') = nextLSN (wal s) + int (matching txid (Columns (metas s ! p)) conds (db ! p))"
proof -
  have p: "p < length db" "RowCount (metas s ! p) = int (length (db ! p))"
    using rel(1) nm storage_ok_parts(1) by (auto simp: state_rel_def db_repr_def table_repr_def)
  have rel0: "state_rel (blocks w) (db[p := deleted_upto txid (Columns (metas s ! p)) conds 0 (db ! p)]) s"
    using rel(1) by (simp add: deleted_upto_def)
  obtain s' w' where "delete_loop h (\<lambda>_. False) (metas s ! p) conds (buildColumnMap (Columns (metas s ! p))) txid (int (length (db ! p))) 0 0 s w =
      (Inr (int (matching txid (Columns (metas s ! p)) conds (db ! p))), s', w')" "world_ok w'"
      "state_rel (blocks w') (db[p := map (delete_matching txid (Columns (metas s ! p)) conds) (db ! p)]) s'"
      "metas s' = metas s" "nextLSN (wal s') = nextLSN (wal s) + int (matching txid (Columns (metas s ! p)) conds (db ! p))"
    using delete_loop_run [OF nm refl dist tx p(1), of 0 w conds s 0] rel(2) lsn rel0 by auto
  then show thesis
    using that by (simp add: executeDelete_def stmt GetTable_def nm Let_def p(2))
qed

end

subsection \<open>Literals\<close>

text \<open>A literal that a column keeps without loss.\<close>

definition fits :: "ColumnDef \<Rightarrow> goval \<Rightarrow> bool" where
  "fits col v \<longleftrightarrow>
     (colType col = ''INT'' \<and> (\<exists>i. v = VInt64 i \<and> in_i32 i)) \<or>
     (colType col = ''BIGINT'' \<and> (\<exists>i. v = VInt64 i \<and> in_i64 i)) \<or>
     (colType col = ''BOOLEAN'' \<and> (\<exists>b. v = VBool b)) \<or>
     (colType col = ''TEXT'' \<and> (\<exists>s. v = VString s \<and> length s \<le> 64 \<and> CHR 0x00 \<notin> set s))"

lemma fits_literal: "fits col v \<Longrightarrow> is_literal v" "fits col v \<Longrightarrow> storable col v"
  by (auto simp: fits_def storable_def in_i32_in_i64)

lemma fits_stored: "fits col v \<Longrightarrow> \<exists>x. stored col v = Some x \<and> fmt_v x = fmt_v v"
  by (auto simp: fits_def stored_def clip_def)

lemma insert_values_columns:
  assumes "columns_distinct cols" "length xs = length cols" "i < length cols"
  shows "getColumnValue (insert_values (map colName cols) xs) (cols ! i) = xs ! i"
  using insert_values_nth [of "map colName cols" i xs] assms by (simp add: getColumnValue_def columns_distinct_def)

lemma insert_values_row:
  assumes "columns_distinct cols" "list_all2 fits cols xs"
  shows "row_storable cols (insert_values (map colName cols) xs)"
    "map fmt_v (map (\<lambda>col. cell col (new_version txid (insert_values (map colName cols) xs))) cols) = map fmt_v xs"
proof -
  have len: "length xs = length cols" using list_all2_lengthD [OF assms(2)] by simp
  have nth: "fits (cols ! i) (getColumnValue (insert_values (map colName cols) xs) (cols ! i))" if "i < length cols" for i
    using insert_values_columns [OF assms(1) len that] list_all2_nthD [OF assms(2) that] by simp
  then show "row_storable cols (insert_values (map colName cols) xs)"
    using fits_literal(2) by (auto simp: row_storable_def in_set_conv_nth)
  have "fmt_v (cell (cols ! i) (new_version txid (insert_values (map colName cols) xs))) = fmt_v (xs ! i)" if "i < length cols" for i
    using fits_stored [OF nth [OF that]] insert_values_columns [OF assms(1) len that] by (auto simp: cell_def new_version_def)
  then show "map fmt_v (map (\<lambda>col. cell col (new_version txid (insert_values (map colName cols) xs))) cols) = map fmt_v xs"
    by (intro nth_equalityI) (simp_all add: len)
qed

definition insert_stmt :: "string \<Rightarrow> goval list \<Rightarrow> Statement" where
  "insert_stmt name xs = (empty_statement StmtInsert)\<lparr>stmtInsert := Some \<lparr>insTable = name, insColumns = [], insValues = xs\<rparr>\<rparr>"

definition select_stmt :: "string \<Rightarrow> string list option \<Rightarrow> Condition list \<Rightarrow> Statement" where
  "select_stmt name cols conds = (empty_statement StmtSelect)\<lparr>stmtSelect := Some \<lparr>selTable = name, selColumns = cols, selWhere = conds\<rparr>\<rparr>"

definition delete_stmt :: "string \<Rightarrow> Condition list \<Rightarrow> Statement" where
  "delete_stmt name conds = (empty_statement StmtDelete)\<lparr>stmtDelete := Some \<lparr>delTable = name, delWhere = conds\<rparr>\<rparr>"

lemma stmt_types [simp]:
  "stmtType (empty_statement t) = t" "stmtType (insert_stmt name xs) = StmtInsert" "stmtType (select_stmt name cs conds) = StmtSelect"
  "stmtType (delete_stmt name conds) = StmtDelete"
  by (simp_all add: empty_statement_def insert_stmt_def select_stmt_def delete_stmt_def)

lemmas stmt_consts = StmtSelect_def StmtInsert_def StmtCreateTable_def StmtDelete_def

lemma select_rows_new:
  assumes "vs' = vs @ [new_version txid xs]"
  shows "select_rows txid cols out [] vs' = select_rows txid cols out [] vs @ [map (\<lambda>col. cell col (new_version txid xs)) out]"
  using assms by (simp add: select_rows_def satisfies_def visible_def new_version_def)

lemma fmt_d_1: "fmt_d 1 = ''1''"
  by code_simp

subsection \<open>Properties\<close>

text \<open>
  Property C27: a select returns the rows of the database. In a state that represents a database, a \<open>SELECT\<close> returns one row per
  version of the table that is visible and satisfies every condition, in the order of insertion, with the cells of the requested
  columns; the names and types of the columns and the number of rows in the tag are those of the result, and nothing changes.
\<close>

theorem select_correct:
  assumes "hal_reliable h blocks ok" "ok w" "state_rel (blocks w) db s" "GetTable name s = (Inr p :: 'e storage_error + nat)"
    "columns_distinct (Columns (metas s ! p))" "out = resolveOutputColumns req (Columns (metas s ! p))"
    "rows = map (\<lambda>v. map (\<lambda>col. cell col v) out)
       (filter (\<lambda>v. visible txid v \<and> satisfies (Columns (metas s ! p)) conds v) (db ! p))"
  shows "\<exists>w'. Execute h (\<lambda>_. False) (select_stmt name req conds) txid s w =
      (Inr \<lparr>resColumns = map colName out, resColumnTypes = map colType out, resRows = rows,
            Tag = ''SELECT '' @ fmt_d (int (length rows))\<rparr>, s, w') \<and> ok w' \<and> blocks w' = blocks w"
proof -
  let ?sel = "\<lparr>selTable = name, selColumns = req, selWhere = conds\<rparr>"
  have nm: "map_of (tables s) (selTable ?sel) = Some p" using assms(4) by (simp add: GetTable_Inr)
  have st: "stmtSelect (select_stmt name req conds) = Some ?sel" by (simp add: select_stmt_def)
  show ?thesis
    by (rule hal_reliable.select_run [OF assms(1,3,2) st nm assms(5), of txid])
      (auto simp: Execute_def stmt_consts assms(6,7) select_result_def select_rows_def)
qed

theorem select_correct_witness:
  "\<exists>s w w' row. Execute (mock_hal :: (mock, unit) hal) (\<lambda>_. False) (select_stmt ''t'' None []) 1 s w =
      (Inr \<lparr>resColumns = map colName sample_columns, resColumnTypes = map colType sample_columns, resRows = [row], Tag = ''SELECT 1''\<rparr>, s, w')"
proof -
  obtain s w where t: "mock_ok w" "state_rel (mock_blocks w) [[new_version 1 sample_values]] s"
    "GetTable ''t'' s = (Inr 0 :: unit storage_error + nat)" "Columns (metas s ! 0) = sample_columns"
    by (rule sample_row) blast
  have d: "columns_distinct (Columns (metas s ! 0))" by (simp add: t(4) columns_distinct_def sample_columns_def)
  have v: "visible 1 (new_version 1 sample_values)" by (simp add: visible_def new_version_def)
  from select_correct [OF mock.hal_reliable_axioms t(1-3) d refl refl, of None "[]" 1] v show ?thesis
    by (auto simp: t(4) resolveOutputColumns_def satisfies_def fmt_d_1)
qed

text \<open>
  Property C28: a delete removes what it says. In a state that represents a database, a \<open>DELETE\<close> marks exactly the visible versions that satisfy
  every condition as deleted by the transaction, reports their number, and leaves every other version and table as it is.
\<close>

theorem delete_correct:
  assumes "hal_reliable h blocks ok" "ok w" "state_rel (blocks w) db s" "GetTable name s = (Inr p :: 'e storage_error + nat)"
    "columns_distinct (Columns (metas s ! p))" "in_i64 txid" "nextLSN (wal s) + int (length (db ! p)) < 2 ^ 62"
    "hit = (\<lambda>v. visible txid v \<and> satisfies (Columns (metas s ! p)) conds v)"
  shows "\<exists>s' w'. Execute h (\<lambda>_. False) (delete_stmt name conds) txid s w =
      (Inr (tag_result (''DELETE '' @ fmt_d (int (length (filter hit (db ! p)))))), s', w') \<and> ok w' \<and>
    state_rel (blocks w') (db[p := map (\<lambda>v. if hit v then v\<lparr>vmax := Some txid\<rparr> else v) (db ! p)]) s'"
proof -
  have nm: "map_of (tables s) name = Some p" using assms(4) by (simp add: GetTable_Inr)
  show ?thesis
    by (rule hal_reliable.delete_run [OF assms(1,3,2) _ nm assms(5-7), of "delete_stmt name conds" conds])
      (auto simp: Execute_def stmt_consts delete_stmt_def matching_def delete_matching_alt assms(8))
qed

theorem delete_correct_witness:
  "\<exists>s w s' w'. Execute (mock_hal :: (mock, unit) hal) (\<lambda>_. False) (delete_stmt ''t'' []) 1 s w = (Inr (tag_result ''DELETE 1''), s', w') \<and>
    state_rel (mock_blocks w') [[\<lparr>vmin = 1, vmax = Some 1, vals = sample_values\<rparr>]] s'"
proof -
  obtain s w where t: "mock_ok w" "state_rel (mock_blocks w) [[new_version 1 sample_values]] s"
    "GetTable ''t'' s = (Inr 0 :: unit storage_error + nat)" "Columns (metas s ! 0) = sample_columns" "nextLSN (wal s) = 2"
    by (rule sample_row) blast
  have d: "columns_distinct (Columns (metas s ! 0))" by (simp add: t(4) columns_distinct_def sample_columns_def)
  have v: "visible 1 (new_version 1 sample_values)" by (simp add: visible_def new_version_def)
  have "in_i64 1" "nextLSN (wal s) + int (length ([[new_version 1 sample_values]] ! 0)) < 2 ^ 62" using t(5) by (simp_all add: in_i64_def)
  from delete_correct [OF mock.hal_reliable_axioms t(1-3) d this refl, of "[]"] v show ?thesis
    by (force simp: satisfies_def fmt_d_1 new_version_def)
qed

text \<open>Literals for the columns of the sample table.\<close>

definition sample_literals :: "goval list" where
  "sample_literals = map (\<lambda>c. if colType c = ''TEXT'' then VString ''hi'' else if colType c = ''BOOLEAN'' then VBool True else VInt64 7) sample_columns"

end
