(* ===== verification/Conditions.thy ===== *)
theory Conditions
  imports Executor
begin

text \<open>
  What the comparisons of a \<open>WHERE\<close> clause decide. Numbers are compared as \<open>float64\<close>, which is exact below \<open>2^53\<close>
  in absolute value and takes every odd number beyond it for a neighbour; texts that both read as numbers are compared as numbers,
  other texts byte by byte; a truth value is compared with \<open>NULL\<close> only, and the operator \<open><>\<close> holds for no two values.
\<close>

subsection \<open>Integers as floating-point numbers\<close>

text \<open>A finite number that is the integer \<open>i\<close>, at any finer scale.\<close>

definition is_int :: "f64 \<Rightarrow> int \<Rightarrow> bool" where
  "is_int f i \<longleftrightarrow> (\<exists>neg m e. f = Fin neg m e \<and> e \<le> 0 \<and> (\<forall>base \<le> e. signed_scaled neg m e base = i * 2 ^ nat (- base)))"

lemma is_int_f64_of_int:
  assumes "\<bar>i\<bar> < 2 ^ 53"
  shows "is_int (f64_of_int i) i"
proof (cases "i = 0")
  case True
  then have "f64_of_int i = Fin False 0 (- 1074)" by (simp add: f64_of_int_def round_f64_def scale_num_def scale_den_def)
  then show ?thesis by (auto simp: is_int_def signed_scaled_def scale_num_def True)
next
  case False
  let ?n = "\<bar>i\<bar>" and ?l = "bit_len \<bar>i\<bar>"
  have n: "0 < ?n" "?n < 2 ^ 53" using False assms by simp_all
  have l: "1 \<le> ?l" "2 ^ nat (?l - 1) \<le> ?n" using bit_len_bounds [OF n(1)] by simp_all
  have "?l \<le> 53"
  proof (rule ccontr)
    assume "\<not> ?l \<le> 53"
    then have "(2 :: int) ^ 53 \<le> 2 ^ nat (?l - 1)" by (intro power_increasing) simp_all
    then show False using l(2) n(2) by linarith
  qed
  then have "(2 :: int) ^ nat (53 - ?l) * 2 ^ nat (?l - 53 - base) = 2 ^ nat (- base)" if "base \<le> ?l - 53" for base
    using that by (simp add: power_add [symmetric] nat_add_distrib [symmetric])
  then have "signed_scaled (i < 0) (?n * 2 ^ nat (53 - ?l)) (?l - 53) base = i * 2 ^ nat (- base)" if "base \<le> ?l - 53" for base
    using that by (simp add: signed_scaled_def scale_num_def mult.assoc Let_def abs_if)
  moreover have "f64_of_int i = Fin (i < 0) (?n * 2 ^ nat (53 - ?l)) (?l - 53)"
    by (simp add: f64_of_int_def round_f64_exact [OF n])
  ultimately show ?thesis using \<open>?l \<le> 53\<close> unfolding is_int_def by auto
qed

lemma is_int_compare:
  assumes "is_int f i" "is_int g j"
  shows "f64_less f g \<longleftrightarrow> i < j" "f64_eq f g \<longleftrightarrow> i = j"
proof -
  obtain a m e where f: "f = Fin a m e" "e \<le> 0" "\<And>base. base \<le> e \<Longrightarrow> signed_scaled a m e base = i * 2 ^ nat (- base)"
    using assms(1) by (auto simp: is_int_def)
  obtain b n e' where g: "g = Fin b n e'" "e' \<le> 0" "\<And>base. base \<le> e' \<Longrightarrow> signed_scaled b n e' base = j * 2 ^ nat (- base)"
    using assms(2) by (auto simp: is_int_def)
  show "f64_less f g \<longleftrightarrow> i < j" "f64_eq f g \<longleftrightarrow> i = j"
    using f g by (simp_all add: Let_def)
qed

definition int_compare :: "int \<Rightarrow> int \<Rightarrow> string \<Rightarrow> bool" where
  "int_compare a b op =
     (if op = ''='' then a = b else if op = ''>'' then a > b else if op = ''<'' then a < b
      else if op = ''>='' then a \<ge> b else if op = ''<='' then a \<le> b else if op = ''!='' then a \<noteq> b else False)"

lemma compareNum_int:
  "\<bar>a\<bar> < 2 ^ 53 \<Longrightarrow> \<bar>b\<bar> < 2 ^ 53 \<Longrightarrow> compareNum (f64_of_int a) (f64_of_int b) op = int_compare a b op"
  using is_int_compare [OF is_int_f64_of_int is_int_f64_of_int, of a b] is_int_compare [OF is_int_f64_of_int is_int_f64_of_int, of b a]
  by (auto simp: compareNum_def int_compare_def)

subsection \<open>Equal numbers and texts that read as numbers\<close>

lemma round_f64_not_NaN [simp]: "round_f64 neg num den \<noteq> NaN"
  by (simp add: round_f64_def Let_def)

lemma compareNum_refl: "f \<noteq> NaN \<Longrightarrow> compareNum f f op \<longleftrightarrow> op \<in> {''='', ''>='', ''<=''}"
  by (cases f) (auto simp: compareNum_def)

lemma compareNum_NaN: "compareNum NaN g op \<longleftrightarrow> op = ''!=''" "compareNum g NaN op \<longleftrightarrow> op = ''!=''"
  by (cases g; auto simp: compareNum_def)+

definition decimal :: "string \<Rightarrow> bool" where
  "decimal s \<longleftrightarrow> s \<noteq> [] \<and> list_all is_digit s"

lemma digits_value_nonneg:
  assumes "list_all is_digit s"
  shows "0 \<le> digits_value s"
proof -
  have "0 \<le> foldl (\<lambda>a c. 10 * a + digit_val c) m s" if "0 \<le> m" for m :: int
    using assms that by (induction s arbitrary: m) (auto simp: is_digit_def digit_val_def)
  then show ?thesis by (simp add: digits_value_def)
qed

lemma ParseFloat_decimal:
  assumes "decimal s" "digits_value s < 2 ^ 53"
  shows "ParseFloat s = Inr (f64_of_int (digits_value s))"
proof -
  have "drop_sign s = (False, s)"
    using assms(1) digits_not_letters by (cases s) (auto simp: decimal_def drop_sign_def)
  moreover have "f64_of_int (digits_value s) = round_f64 False (digits_value s) 1" and small: "\<bar>digits_value s\<bar> < 2 ^ 53"
    using digits_value_nonneg [of s] assms by (simp_all add: decimal_def f64_of_int_def)
  moreover have "f64_of_int (digits_value s) \<noteq> Inf b" for b using f64_trunc_of_int [OF small] by auto
  ultimately show ?thesis
    using ParseFloat_digits [of s False s] assms(1) by (auto simp: decimal_def split: f64.splits)
qed

lemma ParseFloat_nan: "map lower s = ''nan'' \<Longrightarrow> ParseFloat s = Inr NaN"
  by (cases s) (auto simp: ParseFloat_def drop_sign_def lower_def split: if_splits)

subsection \<open>Properties\<close>

text \<open>
  Property C32: conditions on integers. A cell of an \<open>INT\<close> or \<open>BIGINT\<close> column and an integer below \<open>2^53\<close> in absolute value are compared as
  integers by each of the six operators, also when the integer reaches the executor as its printed text; any other
  operator is false.
\<close>

theorem int_comparison_exact:
  assumes "\<bar>a\<bar> < 2 ^ 53" "\<bar>b\<bar> < 2 ^ 53" "row = VInt32 a \<or> row = VInt64 a" "cond = VInt64 b \<or> cond = VString (fmt_d b)"
  shows "compareValue row cond op = int_compare a b op"
  using assms compareNum_int [OF assms(1,2), of op] ParseFloat_fmt_d_small [OF assms(2)]
  by (auto simp: compareValue_def toFloat_def)

theorem int_comparison_exact_witness:
  "compareValue (VInt32 7) (VInt64 9) ''<'' \<and> compareValue (VInt64 4294967296) (VString (fmt_d 4294967296)) ''=''"
  using int_comparison_exact [of 7 9 "VInt32 7" "VInt64 9" "''<''"]
    int_comparison_exact [of 4294967296 4294967296 "VInt64 4294967296" "VString (fmt_d 4294967296)" "''=''"]
  by (simp add: int_compare_def)

text \<open>
  Property C36: where comparisons leave SQL. A truth value is matched by no constant but \<open>NULL\<close>, and by that one with \<open>!=\<close>
  only. The operator \<open><>\<close> matches no two values. Every odd integer beyond \<open>2^53\<close> is taken for one of its neighbours: with it
  \<open>=\<close>, \<open><=\<close> and \<open>>=\<close> hold and no other operator. Two texts of decimal digits with values below \<open>2^53\<close> are compared as the
  numbers they spell, leading zeros and all. A text that spells \<open>nan\<close>, in upper or lower case, differs from every text that
  reads as a number, itself included, and no other operator holds.
\<close>

theorem comparison_gaps:
  "(compareValue (VBool b) c op \<longleftrightarrow> c = VNil \<and> op = ''!='') \<and>
   \<not> compareValue v c ''<>'' \<and>
   (odd i \<and> 2 ^ 53 < \<bar>i\<bar> \<and> \<bar>i\<bar> < 2 ^ 63 - 1 \<longrightarrow>
     (\<exists>j. \<bar>j - i\<bar> = 1 \<and> in_i64 j \<and> (\<forall>op. compareValue (VInt64 i) (VInt64 j) op \<longleftrightarrow> op \<in> {''='', ''>='', ''<=''}))) \<and>
   (decimal s \<and> decimal t \<and> digits_value s < 2 ^ 53 \<and> digits_value t < 2 ^ 53 \<longrightarrow>
     compareValue (VString s) (VString t) op = int_compare (digits_value s) (digits_value t) op) \<and>
   (map lower n = ''nan'' \<and> ParseFloat x = Inr f \<longrightarrow>
     (compareValue (VString n) (VString x) op \<longleftrightarrow> op = ''!='') \<and> (compareValue (VString x) (VString n) op \<longleftrightarrow> op = ''!=''))"
proof (intro conjI impI)
  show "compareValue (VBool b) c op \<longleftrightarrow> c = VNil \<and> op = ''!=''"
    by (auto simp: compareValue_def toFloat_def split: prod.splits)
  show "\<not> compareValue v c ''<>''"
    by (auto simp: compareValue_def compareNum_def compareStr_def split: prod.splits goval.splits)
next
  assume i: "odd i \<and> 2 ^ 53 < \<bar>i\<bar> \<and> \<bar>i\<bar> < 2 ^ 63 - 1"
  then obtain j where j: "\<bar>j - i\<bar> = 1" "f64_of_int j = f64_of_int i" using f64_of_int_odd [of i] by auto
  have "f64_of_int i \<noteq> NaN" by (simp add: f64_of_int_def)
  then have "compareValue (VInt64 i) (VInt64 j) op \<longleftrightarrow> op \<in> {''='', ''>='', ''<=''}" for op
    using j(2) compareNum_refl by (simp add: compareValue_def toFloat_def)
  moreover have "in_i64 j" using i j(1) by (simp add: in_i64_def) linarith
  ultimately show "\<exists>j. \<bar>j - i\<bar> = 1 \<and> in_i64 j \<and> (\<forall>op. compareValue (VInt64 i) (VInt64 j) op \<longleftrightarrow> op \<in> {''='', ''>='', ''<=''})"
    using j(1) by blast
next
  assume "decimal s \<and> decimal t \<and> digits_value s < 2 ^ 53 \<and> digits_value t < 2 ^ 53"
  then show "compareValue (VString s) (VString t) op = int_compare (digits_value s) (digits_value t) op"
    using compareNum_int [of "digits_value s" "digits_value t" op] digits_value_nonneg
    by (simp add: compareValue_def toFloat_def ParseFloat_decimal decimal_def)
next
  assume "map lower n = ''nan'' \<and> ParseFloat x = Inr f"
  then show "compareValue (VString n) (VString x) op \<longleftrightarrow> op = ''!=''" "compareValue (VString x) (VString n) op \<longleftrightarrow> op = ''!=''"
    by (simp_all add: compareValue_def toFloat_def ParseFloat_nan compareNum_NaN)
qed

theorem comparison_gaps_witness:
  "\<not> compareValue (VBool True) (VBool True) ''='' \<and> \<not> compareValue (VInt64 1) (VInt64 2) ''<>'' \<and>
   (\<exists>j. \<bar>j - 9007199254740993\<bar> = 1 \<and> in_i64 j \<and> compareValue (VInt64 9007199254740993) (VInt64 j) ''='') \<and>
   compareValue (VString ''007'') (VString ''7'') ''='' \<and> \<not> compareValue (VString ''NaN'') (VString ''nan'') ''=''"
proof -
  have d: "decimal ''007''" "decimal ''7''" "digits_value ''007'' = 7" "digits_value ''7'' = 7" by code_simp+
  have n: "map lower ''NaN'' = ''nan''" "ParseFloat ''nan'' = Inr NaN" by code_simp+
  note gaps = comparison_gaps [of True "VBool True" "''=''" "VInt64 1" 9007199254740993 "''007''" "''7''" "''NaN''" "''nan''" NaN]
  from gaps have "\<exists>j. \<bar>j - 9007199254740993\<bar> = 1 \<and> in_i64 j \<and> compareValue (VInt64 9007199254740993) (VInt64 j) ''=''" by auto
  moreover from gaps d n have "compareValue (VString ''007'') (VString ''7'') ''=''" "\<not> compareValue (VString ''NaN'') (VString ''nan'') ''=''"
    by (auto simp: int_compare_def)
  moreover have "\<not> compareValue (VInt64 1) (VInt64 2) ''<>''" using comparison_gaps [of True "VInt64 2" _ "VInt64 1"] by blast
  ultimately show ?thesis using gaps by blast
qed

end
