(* ===== verification/Queries.thy ===== *)
theory Queries
  imports Sql Conditions Wire
begin

text \<open>
  Queries from the text of the SQL to the answer of a server: the parser, the executor, the storage layer and the protocol together.
\<close>

subsection \<open>Answers of the server\<close>

text \<open>The type codes and sizes PostgreSQL has for the four types a table can store.\<close>

definition pg_type :: "string \<Rightarrow> int \<times> int" where
  "pg_type t = (if t = ''INT'' then (23, 4) else if t = ''BIGINT'' then (20, 8) else if t = ''BOOLEAN'' then (16, 1) else (25, - 1))"

definition pg_field :: "ColumnDef \<Rightarrow> FieldDescription" where
  "pg_field col =
     \<lparr>fdName = bytes_of_string (colName col), TableOID = 0, TableAttributeNumber = 0, DataTypeOID = fst (pg_type (colType col)),
      DataTypeSize = snd (pg_type (colType col)), TypeModifier = - 1, Format = 0\<rparr>"

lemma column_field_fits: "fits col v \<Longrightarrow> column_field (colName col) (colType col) = pg_field col"
  by (auto simp: fits_def column_field_def pg_field_def pg_type_def typeToOID_def)

lemma wire_value_cell: "fits col x \<Longrightarrow> wire_value (cell col v) = Some (bytes_of_string (fmt_v (cell col v)))"
  by (auto simp: wire_value_def fits_def cell_def stored_def)

lemma sendSelectResult_fits:
  assumes "list_all2 fits cols xs"
  shows "sendSelectResult (select_result cols (map (\<lambda>v. map (\<lambda>col. cell col v) cols) vs)) =
     RowDescription (map pg_field cols) # map (\<lambda>v. DataRow (map (\<lambda>col. Some (bytes_of_string (fmt_v (cell col v)))) cols)) vs @
     [CommandComplete (bytes_of_string (''SELECT '' @ fmt_d (int (length vs))))]"
proof -
  have fit: "\<exists>x. fits col x" if "col \<in> set cols" for col
    using assms that by (auto simp: list_all2_conv_all_nth in_set_conv_nth)
  then have "map wire_value (map (\<lambda>col. cell col v) cols) = map (\<lambda>col. Some (bytes_of_string (fmt_v (cell col v)))) cols" for v
    using wire_value_cell by auto
  moreover have "map2 column_field (map colName cols) (map colType cols) = map pg_field cols"
    using fit column_field_fits by (auto simp: zip_map_map zip_same_conv_map)
  ultimately show ?thesis by (subst sendSelectResult_fields) (simp_all add: select_result_def)
qed

lemma new_version_cells:
  assumes "columns_distinct cols" "list_all2 fits cols xs"
  shows "map (\<lambda>col. fmt_v (cell col (new_version txid (insert_values (map colName cols) xs)))) cols = map fmt_v xs"
proof -
  let ?v = "new_version txid (insert_values (map colName cols) xs)"
  have len: "length xs = length cols" using list_all2_lengthD [OF assms(2)] by simp
  have "fmt_v (cell (cols ! i) ?v) = fmt_v (xs ! i)" if i: "i < length cols" for i
  proof -
    have "getColumnValue (vals ?v) (cols ! i) = xs ! i"
      using insert_values_columns [OF assms(1) len i] by (simp add: new_version_def)
    then show ?thesis using fits_stored [OF list_all2_nthD [OF assms(2) i]] by (auto simp: cell_def)
  qed
  then show ?thesis by (intro nth_equalityI) (simp_all add: len)
qed

subsection \<open>A store to try queries on\<close>

definition one_shot :: "(string \<times> msg) list \<Rightarrow> string \<Rightarrow> unit + msg list" where
  "one_shot qs sql = (case map_of qs sql of None \<Rightarrow> Inl () | Some m \<Rightarrow> Inr [m])"

lemma Parse_insert_msg:
  assumes "map_of qs sql = Some (insert_msg name xs)" "list_all is_literal xs"
  shows "Parse (msg_pg (one_shot qs)) sql = Inr (insert_stmt name xs)"
proof -
  have "extractConstValue (msg_pg (one_shot qs)) (const_msg x) = x" if "x \<in> set xs" for x
    using that assms(2) by (intro msg_pg_const) (cases x; auto simp: list_all_iff)
  then have "map (extractConstValue (msg_pg (one_shot qs)) \<circ> const_msg) xs = xs" by (simp add: map_idI)
  then show ?thesis
    using assms(1)
    by (simp add: Parse_def parseInsert_def one_shot_def insert_msg_def insert_stmt_def relation_name_def relation_msg_def sub_def [of _ "Msg _ _ _"] Let_def)
qed

lemma Parse_select_msg:
  assumes "map_of qs sql = Some (select_msg name)"
  shows "Parse (msg_pg (one_shot qs)) sql = Inr (select_stmt name None [])"
  using assms
  by (simp add: Parse_def parseSelect_def one_shot_def select_msg_def select_stmt_def relation_name_def relation_msg_def sub_def [of _ "Msg _ _ _"] Let_def
      parseTargetList_def parseWhereClause_def extractStringList_def)

definition or_condition :: msg where
  "or_condition = only ''bool_expr'' (Msg [(''args'', [])] [] [(''boolop'', 2)])"

lemma or_condition_untranslated:
  "\<not> is_and (msg_pg parse) or_condition" "untranslated (msg_pg parse) or_condition"
  by (simp_all add: is_and_def untranslated_def or_condition_def)

lemma Parse_delete_msg:
  assumes "map_of qs sql = Some (delete_msg name cond)"
  shows "Parse (msg_pg (one_shot qs)) sql =
    Inr (parseDelete (msg_pg (one_shot qs)) (Msg [(''relation'', [relation_msg name]), (''where_clause'', [cond])] [] []))"
  using assms by (simp add: Parse_def one_shot_def delete_msg_def Let_def)

subsection \<open>The chat server\<close>

lemma response_json_no_newline: "nums_free (CHR 0x0A) (response_json r)"
proof -
  have "CHR 0x0A \<notin> set (fmt_d i)" for i using num_char_fmt_d num_char_not_newline by blast
  then show ?thesis by (simp add: response_json_def list_all_iff)
qed

lemma writeError_line: "\<exists>l. writeError m = l @ newline \<and> CHR 0x0A \<notin> set l"
proof -
  have "nums_free (CHR 0x0A) (JObj [(''error'', JStr m)])" by simp
  from print_json_no_newline [OF this] show ?thesis unfolding writeError_def by blast
qed

lemma writeSuccess_line: "\<exists>l. writeSuccess (print_json (response_json r)) = l @ newline \<and> CHR 0x0A \<notin> set l"
  using print_json_no_newline [OF response_json_no_newline] by (auto simp: writeSuccess_def)

lemma response_json_ok:
  assumes "list_all utf8_valid (chatColumns r)" "list_all (list_all utf8_valid) (chatRows r)"
  shows "json_ok 0 (response_json r)"
  using assms by (auto simp: response_json_def list_all_iff valid_number_fmt_d)

subsection \<open>Properties\<close>

text \<open>
  Property C26: from the text to the wire. A client that inserts literals that fit the columns of a table and then selects the table gets the tag of the
  insert, a description with the name, the PostgreSQL type and the size of every column, one row for each version visible before, in the
  order of their insertion and with the printed values of their cells, a last row whose values are the printed literals, and the
  tag that counts them. The state represents the database with the new version behind the others.
\<close>

theorem insert_select_on_the_wire:
  assumes "hal_reliable h blocks ok" "ok w" "state_rel (blocks w) db s" "GetTable name s = (Inr p :: 'e storage_error + nat)"
    "cols = Columns (metas s ! p)" "columns_distinct cols" "list_all2 fits cols xs" "RowCount (metas s ! p) < 10000" "nextLSN (wal s) + 1 < 2 ^ 62"
    "Parse pg q1 = Inr (insert_stmt name xs)" "Parse pg q2 = Inr (select_stmt name None [])"
  shows "\<exists>s' w'. serve_loop pg pt et h (\<lambda>_. False) [Query q1, Query q2] s w =
      ([CommandComplete (bytes_of_string ''INSERT 0 1''), ReadyForQuery (CHR ''I''), RowDescription (map pg_field cols)] @
       map (\<lambda>v. DataRow (map (\<lambda>col. Some (bytes_of_string (fmt_v (cell col v)))) cols)) (filter (visible 1) (db ! p)) @
       [DataRow (map (\<lambda>x. Some (bytes_of_string (fmt_v x))) xs),
        CommandComplete (bytes_of_string (''SELECT '' @ fmt_d (int (Suc (length (filter (visible 1) (db ! p))))))),
        ReadyForQuery (CHR ''I'')], s', w') \<and>
    state_rel (blocks w') (db[p := db ! p @ [new_version 1 (insert_values (map colName cols) xs)]]) s'"
proof -
  let ?ins = "\<lparr>insTable = name, insColumns = [], insValues = xs\<rparr>" and ?sel = "\<lparr>selTable = name, selColumns = None, selWhere = []\<rparr>"
  let ?v = "new_version 1 (insert_values (map colName cols) xs)"
  have nm: "map_of (tables s) (insTable ?ins) = Some p" using assms(4) by (simp add: GetTable_Inr)
  have st: "stmtInsert (insert_stmt name xs) = Some ?ins" "stmtSelect (select_stmt name None []) = Some ?sel"
    by (simp_all add: insert_stmt_def select_stmt_def)
  have lit: "list_all is_literal (insValues ?ins)" using assms(7) fits_literal(1) by (auto simp: list_all2_conv_all_nth list_all_length)
  have room: "RowCount (metas s ! p) < tableZSpacing" using assms(8) by (simp add: tableZSpacing_def)
  have row: "row_storable (Columns (metas s ! p)) (insert_values (map colName cols) xs)"
    using insert_values_row(1) [OF assms(6,7)] assms(5) by simp
  have one: "in_i64 1" by (simp add: in_i64_def)
  have p: "p < length db" using assms(3) nm storage_ok_parts(1) by (auto simp: state_rel_def db_repr_def)
  obtain s1 w1 where 1: "executeInsert h (insert_stmt name xs) 1 s w = (Inr (tag_result ''INSERT 0 1''), s1, w1)" "ok w1"
    "state_rel (blocks w1) (db[p := db ! p @ [?v]]) s1" "map_of (tables s1) = map_of (tables s)" "Columns (metas s1 ! p) = cols"
    by (rule hal_reliable.insert_run [OF assms(1,3,2) st(1) nm _ lit room row one assms(9)]) (simp_all add: assms(5))
  have nm1: "map_of (tables s1) (selTable ?sel) = Some p" and d1: "columns_distinct (Columns (metas s1 ! p))" using 1(4,5) nm assms(6) by simp_all
  obtain w2 where 2: "executeSelect h (\<lambda>_. False) (select_stmt name None []) 1 s1 w1 =
      (Inr (select_result cols (select_rows 1 cols cols [] (db ! p @ [?v]))), s1, w2)" "blocks w2 = blocks w1"
    by (rule hal_reliable.select_run [OF assms(1) 1(3,2) st(2) nm1 d1, of 1]) (use 1(5) p in \<open>auto simp: resolveOutputColumns_def\<close>)
  have rows: "select_rows 1 cols cols [] (db ! p @ [?v]) = map (\<lambda>v. map (\<lambda>col. cell col v) cols) (filter (visible 1) (db ! p) @ [?v])"
    using select_rows_new [OF refl, of 1 cols cols "db ! p" "insert_values (map colName cols) xs"] by (simp add: select_rows_def satisfies_def)
  have new: "map (\<lambda>col. Some (bytes_of_string (fmt_v (cell col ?v)))) cols = map (\<lambda>x. Some (bytes_of_string (fmt_v x))) xs"
    using arg_cong [OF new_version_cells [OF assms(6,7), of 1], of "map (\<lambda>t. Some (bytes_of_string t))"] by (simp add: comp_def)
  note sel = sendSelectResult_fits [OF assms(7), of "filter (visible 1) (db ! p) @ [?v]", folded rows]
  have "handleQuery pg pt et h (\<lambda>_. False) q1 s w = ([CommandComplete (bytes_of_string ''INSERT 0 1''), ReadyForQuery (CHR ''I'')], s1, w1)"
    using 1(1) assms(10) by (simp add: handleQuery_def Execute_def stmt_consts) (simp add: tag_result_def)
  moreover have "handleQuery pg pt et h (\<lambda>_. False) q2 s1 w1 =
      (sendSelectResult (select_result cols (select_rows 1 cols cols [] (db ! p @ [?v]))) @ [ReadyForQuery (CHR ''I'')], s1, w2)"
    using 2(1) assms(11) by (simp add: handleQuery_def Execute_def stmt_consts)
  ultimately show ?thesis using 1(3) 2(2) by (simp add: sel new)
qed

definition sample_queries :: "(string \<times> msg) list" where
  "sample_queries =
     [(''INSERT'', insert_msg ''t'' sample_literals), (''SELECT'', select_msg ''t''), (''DELETE'', delete_msg ''t'' or_condition)]"

lemma sample_parse:
  "Parse (msg_pg (one_shot sample_queries)) ''INSERT'' = Inr (insert_stmt ''t'' sample_literals)"
  "Parse (msg_pg (one_shot sample_queries)) ''SELECT'' = Inr (select_stmt ''t'' None [])"
proof -
  have "list_all is_literal sample_literals" by (simp add: sample_literals_def sample_columns_def in_i64_def)
  then show "Parse (msg_pg (one_shot sample_queries)) ''INSERT'' = Inr (insert_stmt ''t'' sample_literals)"
    by (intro Parse_insert_msg) (simp_all add: sample_queries_def)
  show "Parse (msg_pg (one_shot sample_queries)) ''SELECT'' = Inr (select_stmt ''t'' None [])"
    by (rule Parse_select_msg) (simp add: sample_queries_def)
qed

lemma sample_cells: "map (\<lambda>col. cell col (new_version 1 sample_values)) sample_columns = [VInt32 7, VString ''iron'', VInt64 (- 1)]"
  by (simp add: sample_columns_def sample_values_def new_version_def cell_def stored_def getColumnValue_def clip_def in_i32_def)

lemma sample_visible: "visible 1 (new_version 1 sample_values)"
  by (simp add: visible_def new_version_def)

lemma sample_numbers: "fmt_d 7 = ''7''" "fmt_d (- 1) = ''-1''" "fmt_d 2 = ''2''"
  by code_simp+

theorem insert_select_on_the_wire_witness:
  "\<exists>s w s' w'. serve_loop (msg_pg (one_shot sample_queries)) (\<lambda>_. []) (\<lambda>_. []) (mock_hal :: (mock, unit) hal) (\<lambda>_. False)
      [Query ''INSERT'', Query ''SELECT''] s w =
    ([CommandComplete (bytes_of_string ''INSERT 0 1''), ReadyForQuery (CHR ''I''), RowDescription (map pg_field sample_columns),
      DataRow [Some (bytes_of_string ''7''), Some (bytes_of_string ''iron''), Some (bytes_of_string ''-1'')],
      DataRow [Some (bytes_of_string ''7''), Some (bytes_of_string ''hi''), Some (bytes_of_string ''7'')],
      CommandComplete (bytes_of_string ''SELECT 2''), ReadyForQuery (CHR ''I'')], s', w')"
proof -
  obtain s w where t: "mock_ok w" "state_rel (mock_blocks w) [[new_version 1 sample_values]] s"
    "GetTable ''t'' s = (Inr 0 :: unit storage_error + nat)" "Columns (metas s ! 0) = sample_columns" "nextLSN (wal s) = 2" "length (metas s) = 1"
    by (rule sample_row) blast
  have d: "columns_distinct sample_columns" by (simp add: columns_distinct_def sample_columns_def)
  have f: "list_all2 fits sample_columns sample_literals"
    by (simp add: sample_literals_def sample_columns_def fits_def in_i32_def in_i64_def)
  have "RowCount (metas s ! 0) < 10000" "nextLSN (wal s) + 1 < 2 ^ 62"
    using t(2,5,6) by (simp_all add: state_rel_def db_repr_def table_repr_def)
  note run = insert_select_on_the_wire [OF mock.hal_reliable_axioms t(1-3) t(4) [symmetric] d f this sample_parse, of "\<lambda>_. []" "\<lambda>_. []"]
  have "map (\<lambda>col. Some (bytes_of_string (fmt_v (cell col (new_version 1 sample_values))))) sample_columns =
      [Some (bytes_of_string ''7''), Some (bytes_of_string ''iron''), Some (bytes_of_string ''-1'')]"
    using arg_cong [OF sample_cells, of "map (\<lambda>v. Some (bytes_of_string (fmt_v v)))"] by (simp add: comp_def sample_numbers)
  moreover have "map (\<lambda>x. Some (bytes_of_string (fmt_v x))) sample_literals =
      [Some (bytes_of_string ''7''), Some (bytes_of_string ''hi''), Some (bytes_of_string ''7'')]"
    by (simp add: sample_literals_def sample_columns_def sample_numbers)
  ultimately show ?thesis using run sample_visible sample_numbers(3) by simp blast
qed

text \<open>
  Property C35: a condition the parser does not know deletes everything. A \<open>DELETE\<close> whose condition is neither a conjunction nor an operator
  expression (an \<open>OR\<close>, \<open>NOT\<close>, \<open>IN\<close>, \<open>LIKE\<close>, \<open>IS NULL\<close>) is executed without a condition: every version visible
  before is deleted, and the answer counts them all.
\<close>

theorem unknown_condition_deletes_all:
  assumes "hal_reliable h blocks ok" "ok w" "state_rel (blocks w) db s" "GetTable name s = (Inr p :: 'e storage_error + nat)"
    "columns_distinct (Columns (metas s ! p))" "nextLSN (wal s) + int (length (db ! p)) < 2 ^ 62"
    "Parse pg sql = Inr (parseDelete pg d)" "relation_name pg (Relation pg d) = name" "WhereClause pg d = Some cond"
    "\<not> is_and pg cond" "untranslated pg cond"
  shows "\<exists>s' w'. handleQuery pg pt et h (\<lambda>_. False) sql s w =
      ([CommandComplete (bytes_of_string (''DELETE '' @ fmt_d (int (length (filter (visible 1) (db ! p)))))), ReadyForQuery (CHR ''I'')], s', w') \<and>
    state_rel (blocks w') (db[p := map (\<lambda>v. if visible 1 v then v\<lparr>vmax := Some 1\<rparr> else v) (db ! p)]) s' \<and>
    filter (visible 1) (map (\<lambda>v. if visible 1 v then v\<lparr>vmax := Some 1\<rparr> else v) (db ! p)) = []"
proof -
  have nm: "map_of (tables s) name = Some p" using assms(4) by (simp add: GetTable_Inr)
  have st: "stmtDelete (parseDelete pg d) = Some \<lparr>delTable = name, delWhere = []\<rparr>"
    using where_untranslated [OF assms(10,11)] by (simp add: parseDelete_def assms(8,9))
  have one: "in_i64 1" by (simp add: in_i64_def)
  have ty: "stmtType (parseDelete pg d) = StmtDelete" by (simp add: parseDelete_def empty_statement_def)
  obtain s' w' where "executeDelete h (\<lambda>_. False) (parseDelete pg d) 1 s w =
      (Inr (tag_result (''DELETE '' @ fmt_d (int (matching 1 (Columns (metas s ! p)) [] (db ! p))))), s', w')"
    "state_rel (blocks w') (db[p := map (delete_matching 1 (Columns (metas s ! p)) []) (db ! p)]) s'"
    by (rule hal_reliable.delete_run [OF assms(1,3,2) st nm assms(5) one assms(6)])
  moreover have "filter (visible 1) (map (\<lambda>v. if visible 1 v then v\<lparr>vmax := Some 1\<rparr> else v) vs) = []" for vs
    by (auto simp: filter_empty_conv visible_def split: option.splits)
  ultimately show ?thesis
    using assms(7) ty
    by (auto simp: handleQuery_def Execute_def stmt_consts tag_result_def matching_def delete_matching_alt satisfies_def)
qed

theorem unknown_condition_deletes_all_witness:
  "\<exists>s w s' w'. handleQuery (msg_pg (one_shot sample_queries)) (\<lambda>_. []) (\<lambda>_. []) (mock_hal :: (mock, unit) hal) (\<lambda>_. False) ''DELETE'' s w =
      ([CommandComplete (bytes_of_string ''DELETE 1''), ReadyForQuery (CHR ''I'')], s', w') \<and>
    state_rel (mock_blocks w') [[\<lparr>vmin = 1, vmax = Some 1, vals = sample_values\<rparr>]] s'"
proof -
  let ?pg = "msg_pg (one_shot sample_queries)"
  let ?d = "Msg [(''relation'', [relation_msg ''t'']), (''where_clause'', [or_condition])] [] []"
  obtain s w where t: "mock_ok w" "state_rel (mock_blocks w) [[new_version 1 sample_values]] s"
    "GetTable ''t'' s = (Inr 0 :: unit storage_error + nat)" "Columns (metas s ! 0) = sample_columns" "nextLSN (wal s) = 2"
    by (rule sample_row) blast
  have d: "columns_distinct (Columns (metas s ! 0))" by (simp add: t(4) columns_distinct_def sample_columns_def)
  have lsn: "nextLSN (wal s) + int (length ([[new_version 1 sample_values]] ! 0)) < 2 ^ 62" using t(5) by simp
  have parse: "Parse ?pg ''DELETE'' = Inr (parseDelete ?pg ?d)" by (rule Parse_delete_msg) (simp add: sample_queries_def)
  have "relation_name ?pg (Relation ?pg ?d) = ''t''" "WhereClause ?pg ?d = Some or_condition"
    by (simp_all add: relation_name_def sub_def relation_msg_def)
  moreover note sample_visible
  ultimately show ?thesis
    using unknown_condition_deletes_all [OF mock.hal_reliable_axioms t(1-3) d lsn parse _ _ or_condition_untranslated, of "\<lambda>_. []" "\<lambda>_. []"]
    by (force simp: fmt_d_1 new_version_def)
qed

text \<open>
  Property C34: the chat server answers with one line. Nothing is written when the line of the client could not be read; otherwise the answer is one line,
  with no line break before its end.
\<close>

theorem chat_answers_one_line:
  "(case line of
      None \<Rightarrow> chat_handleConn pg pt et h halt line s w = ([], s, w)
    | Some query \<Rightarrow> \<exists>l. fst (chat_handleConn pg pt et h halt line s w) = l @ newline \<and> CHR 0x0A \<notin> set l)"
proof (cases line)
  case None
  then show ?thesis by (simp add: chat_handleConn_def)
next
  case (Some query)
  have "\<exists>l. fst (chat_handleConn pg pt et h halt (Some query) s w) = l @ newline \<and> CHR 0x0A \<notin> set l"
    using writeError_line writeSuccess_line
    by (simp add: chat_handleConn_def Let_def split: sum.splits prod.splits)
  then show ?thesis using Some by simp
qed

text \<open>
  Property C33: the answers of the chat server can be read. When a query of at most 10 MB parses and executes, and the names of the columns and the printed
  values are well-formed texts, reading the answer as JSON gives back the columns, the rows and their number.
\<close>

theorem chat_answer_roundtrip:
  assumes "length query \<le> 10485760" "Parse pg query = Inr stmt" "Execute h halt stmt 1 s w = (Inr r, s', w')"
    "list_all utf8_valid (resColumns r)" "list_all (list_all utf8_valid) (map (map fmt_v) (resRows r))"
  shows "\<exists>l. chat_handleConn pg pt et h halt (Some query) s w = (l @ newline, s', w') \<and>
    parse_json l =
      Some (JObj [(''columns'', JArr (map JStr (resColumns r))), (''rows'', JArr (map (\<lambda>row. JArr (map (\<lambda>v. JStr (fmt_v v)) row)) (resRows r))),
                  (''row_count'', JNum (fmt_d (int (length (resRows r))))), (''truncated'', JBool False)])"
proof -
  let ?resp = "\<lparr>chatColumns = resColumns r, chatRows = rowsToStrings (resRows r), chatRowCount = int (length (resRows r)), chatTruncated = False\<rparr>"
  have "json_ok 0 (response_json ?resp)" using assms(4,5) by (intro response_json_ok) (simp_all add: rowsToStrings_def)
  from parse_print [OF this] have "parse_json (print_json (response_json ?resp)) = Some (response_json ?resp)" .
  moreover have "chat_handleConn pg pt et h halt (Some query) s w = (print_json (response_json ?resp) @ newline, s', w')"
    using assms(1-3) by (simp add: chat_handleConn_def writeSuccess_def Let_def del: print_json.simps)
  ultimately show ?thesis by (auto simp: response_json_def rowsToStrings_def comp_def simp del: print_json.simps)
qed

theorem chat_answer_roundtrip_witness:
  "\<exists>s w w' l. chat_handleConn (msg_pg (one_shot sample_queries)) (\<lambda>_. []) (\<lambda>_. []) (mock_hal :: (mock, unit) hal) (\<lambda>_. False) (Some ''SELECT'') s w =
      (l @ newline, s, w') \<and>
    parse_json l = Some (JObj [(''columns'', JArr [JStr ''id'', JStr ''note'', JStr ''big'']), (''rows'', JArr [JArr [JStr ''7'', JStr ''iron'', JStr ''-1'']]),
      (''row_count'', JNum ''1''), (''truncated'', JBool False)])"
proof -
  obtain s w where t: "mock_ok w" "state_rel (mock_blocks w) [[new_version 1 sample_values]] s" "map_of (tables s) ''t'' = Some 0"
    "Columns (metas s ! 0) = sample_columns" by (rule sample_row) blast
  let ?sel = "\<lparr>selTable = ''t'', selColumns = None, selWhere = []\<rparr>" and ?rows = "[[VInt32 7, VString ''iron'', VInt64 (- 1)]]"
  have d: "columns_distinct (Columns (metas s ! 0))" by (simp add: t(4) columns_distinct_def sample_columns_def)
  have st: "stmtSelect (select_stmt ''t'' None []) = Some ?sel" and nm: "map_of (tables s) (selTable ?sel) = Some 0"
    using t(3) by (simp_all add: select_stmt_def)
  obtain w' where "executeSelect (mock_hal :: (mock, unit) hal) (\<lambda>_. False) (select_stmt ''t'' None []) 1 s w = (Inr (select_result sample_columns ?rows), s, w')"
    by (rule mock.select_run [OF t(2,1) st nm d, of 1]) (simp add: t(4) resolveOutputColumns_def select_rows_def satisfies_def sample_cells sample_visible)
  then have ex: "Execute (mock_hal :: (mock, unit) hal) (\<lambda>_. False) (select_stmt ''t'' None []) 1 s w = (Inr (select_result sample_columns ?rows), s, w')"
    by (simp add: Execute_def stmt_consts)
  have cols: "resColumns (select_result sample_columns ?rows) = [''id'', ''note'', ''big'']" "resRows (select_result sample_columns ?rows) = ?rows"
    by (simp_all add: select_result_def sample_columns_def)
  from chat_answer_roundtrip [OF _ sample_parse(2) ex, of "\<lambda>_. []" "\<lambda>_. []"] show ?thesis
    by (simp add: cols sample_numbers fmt_d_1) metis
qed

end
