(* ===== verification/Hal_Client.thy ===== *)
theory Hal_Client
  imports Hal
begin

text \<open>
  The storage interface over the network, \<open>internal/hal/client.go\<close>: requests and responses of the plugin's protocol, framed by their
  length, on a connection that is opened again when it broke. The network is a parameter: a record of the calls the client makes of
  the packages \<open>net\<close>, \<open>io\<close> and \<open>context\<close>, each a function of the state of the network. Where the Go code would panic, the
  model returns the error \<open>Panic\<close>. Connecting may go on for ever; \<open>fuel\<close> bounds the attempts, and \<open>StillDialing\<close> says that they
  are used up.

  The lemmas show that a request reaches a peer as it was sent and its response is read back as the peer sent it, and that the client on a
  peer that follows the protocol is a block store for positions whose coordinates fit 32 bits.
\<close>

definition opWrite :: byte where "opWrite = 0x01"

definition opRead :: byte where "opRead = 0x02"

definition opBatchRead :: byte where "opBatchRead = 0x03"

definition opForceLoad :: byte where "opForceLoad = 0x04"

definition opIsChunkLoad :: byte where "opIsChunkLoad = 0x05"

definition opBatchWrite :: byte where "opBatchWrite = 0x06"

definition opAck :: byte where "opAck = 0x10"

definition opData :: byte where "opData = 0x11"

definition opBatchData :: byte where "opBatchData = 0x12"

definition opError :: byte where "opError = 0xFF"

text \<open>Durations in nanoseconds.\<close>

definition initialBackoff :: int where "initialBackoff = 100 * 1000000"

definition maxBackoff :: int where "maxBackoff = 30 * 1000000000"

text \<open>
  The network: dialling, waiting for a duration (true when the context was done first), setting the deadline, writing, reading a number of
  bytes, closing, and the error of a context that is done.
\<close>

record ('n, 'e) net =
  DialContext :: "'n \<Rightarrow> bool \<times> 'n"
  WaitOrDone :: "int \<Rightarrow> 'n \<Rightarrow> bool \<times> 'n"
  SetDeadline :: "'n \<Rightarrow> ('e + unit) \<times> 'n"
  ConnWrite :: "bytes \<Rightarrow> 'n \<Rightarrow> ('e + unit) \<times> 'n"
  ReadFull :: "nat \<Rightarrow> 'n \<Rightarrow> ('e + bytes) \<times> 'n"
  ConnClose :: "'n \<Rightarrow> 'n"
  ctxErr :: "'n \<Rightarrow> 'e"

record 'n Client =
  connected :: bool
  link :: 'n

datatype 'e client_error =
    CtxError 'e
  | StillDialing
  | NotConnected
  | DeadlineError 'e
  | SendError 'e
  | RecvHeader 'e
  | RecvBody 'e
  | PluginError string
  | UnexpectedOpcode byte string
  | ShortData
  | TruncatedData
  | ShortBatchData
  | TruncatedEntry nat
  | TruncatedEntryData nat
  | ShortChunkLoaded
  | Panic

subsection \<open>Encoding\<close>

definition putInt32 :: "int \<Rightarrow> bytes" where
  "putInt32 v = PutUint32 (uint32_of v)"

definition encodeInt32s :: "int list \<Rightarrow> bytes" where
  "encodeInt32s vals = concat (map putInt32 vals)"

definition pos_bytes :: "int \<Rightarrow> int \<Rightarrow> int \<Rightarrow> bytes" where
  "pos_bytes x y z = putInt32 (wrap32 x) @ putInt32 (wrap32 y) @ putInt32 (wrap32 z)"

text \<open>A block of a write: position, type, length and data.\<close>

definition write_bytes :: "int \<Rightarrow> int \<Rightarrow> int \<Rightarrow> byte \<Rightarrow> bytes \<Rightarrow> bytes" where
  "write_bytes x y z blockType data = pos_bytes x y z @ [blockType] @ PutUint32 (uint32_of (int (length data))) @ data"

definition batch_read_payload :: "BlockPos list \<Rightarrow> bytes" where
  "batch_read_payload positions =
     PutUint32 (uint32_of (int (length positions))) @ concat (map (\<lambda>p. pos_bytes (PosX p) (PosY p) (PosZ p)) positions)"

definition batch_write_payload :: "BlockWrite list \<Rightarrow> bytes" where
  "batch_write_payload writes =
     PutUint32 (uint32_of (int (length writes))) @
     concat (map (\<lambda>w. write_bytes (PosX (Pos w)) (PosY (Pos w)) (PosZ (Pos w)) (BlockType w) (Data w)) writes)"

subsection \<open>Decoding\<close>

definition parseDataResponse :: "bytes \<Rightarrow> 'e client_error + bytes option" where
  "parseDataResponse payload =
     (if length payload < 4 then Inl ShortData
      else
        (let dataLen = Uint32 (take 4 payload); upto = uint32_of (4 + dataLen) in
         if dataLen = 0 then Inr None
         else if uint32_of (int (length payload)) < upto then Inl TruncatedData
         else if upto < 4 \<or> upto > int (length payload) then Inl Panic
         else Inr (Some (drop 4 (take (nat upto) payload)))))"

text \<open>The loop over \<open>k\<close> more entries, at entry \<open>i\<close> and an offset.\<close>

fun batch_entries :: "bytes \<Rightarrow> nat \<Rightarrow> nat \<Rightarrow> nat \<Rightarrow> 'e client_error + bytes option list" where
  "batch_entries payload 0 i offset = Inr []"
| "batch_entries payload (Suc k) i offset =
     (if offset + 4 > length payload then Inl (TruncatedEntry i)
      else
        (let dataLen = nat (Uint32 (drop offset payload)); offset = offset + 4 in
         if dataLen > 0 then
           if offset + dataLen > length payload then Inl (TruncatedEntryData i)
           else map_sum id (Cons (Some (take dataLen (drop offset payload)))) (batch_entries payload k (i + 1) (offset + dataLen))
         else map_sum id (Cons None) (batch_entries payload k (i + 1) offset)))"

definition parseBatchDataResponse :: "bytes \<Rightarrow> 'e client_error + bytes option list" where
  "parseBatchDataResponse payload =
     (if length payload < 4 then Inl ShortBatchData
      else (let count = Uint32 (take 4 payload) in batch_entries payload (nat count) 0 4))"

definition parseErrorMessage :: "bytes \<Rightarrow> string" where
  "parseErrorMessage payload =
     (if length payload < 4 then ''unknown error''
      else
        (let msgLen = Uint32 (take 4 payload) in
         if msgLen > 0 \<and> 4 + msgLen \<le> int (length payload)
         then string_of_bytes (drop 4 (take (nat (uint32_of (4 + msgLen))) payload))
         else ''unknown error''))"

subsection \<open>The connection\<close>

definition disconnect :: "('n, 'e) net \<Rightarrow> 'n Client \<Rightarrow> 'n Client" where
  "disconnect net c = (if connected c then c\<lparr>connected := False, link := ConnClose net (link c)\<rparr> else c)"

fun connect :: "('n, 'e) net \<Rightarrow> nat \<Rightarrow> int \<Rightarrow> 'n Client \<Rightarrow> ('e client_error + unit) \<times> 'n Client" where
  "connect net 0 backoff c = (Inl StillDialing, c)"
| "connect net (Suc fuel) backoff c =
     (case DialContext net (link c) of
        (True, n) \<Rightarrow> (Inr (), c\<lparr>connected := True, link := n\<rparr>)
      | (False, n) \<Rightarrow>
          (case WaitOrDone net backoff n of
             (True, n) \<Rightarrow> (Inl (CtxError (ctxErr net n)), c\<lparr>link := n\<rparr>)
           | (False, n) \<Rightarrow>
               (let backoff = backoff * 2; backoff = (if backoff > maxBackoff then maxBackoff else backoff)
                in connect net fuel backoff (c\<lparr>link := n\<rparr>))))"

definition ensureConn :: "('n, 'e) net \<Rightarrow> nat \<Rightarrow> 'n Client \<Rightarrow> ('e client_error + unit) \<times> 'n Client" where
  "ensureConn net fuel c = (if connected c then (Inr (), c) else connect net fuel initialBackoff c)"

definition setDeadline :: "('n, 'e) net \<Rightarrow> 'n Client \<Rightarrow> ('e client_error + unit) \<times> 'n Client" where
  "setDeadline net c =
     (if \<not> connected c then (Inl NotConnected, c)
      else (case SetDeadline net (link c) of (r, n) \<Rightarrow> (map_sum DeadlineError id r, c\<lparr>link := n\<rparr>)))"

definition send :: "('n, 'e) net \<Rightarrow> byte \<Rightarrow> bytes \<Rightarrow> 'n Client \<Rightarrow> ('e client_error + unit) \<times> 'n Client" where
  "send net opcode payload c =
     (case setDeadline net c of
        (Inl err, c) \<Rightarrow> (Inl err, c)
      | (Inr _, c) \<Rightarrow>
          (let len = uint32_of (1 + int (length payload)); total = uint32_of (4 + len) in
           if total < 5 then (Inl Panic, c)
           else
             (let buf = take (nat total) (PutUint32 len @ opcode # payload) in
              case ConnWrite net buf (link c) of
                (Inl err, n) \<Rightarrow> (Inl (SendError err), disconnect net (c\<lparr>link := n\<rparr>))
              | (Inr _, n) \<Rightarrow> (Inr (), c\<lparr>link := n\<rparr>))))"

definition recv :: "('n, 'e) net \<Rightarrow> 'n Client \<Rightarrow> ('e client_error + byte \<times> bytes) \<times> 'n Client" where
  "recv net c =
     (case setDeadline net c of
        (Inl err, c) \<Rightarrow> (Inl err, c)
      | (Inr _, c) \<Rightarrow>
          (case ReadFull net 4 (link c) of
             (Inl err, n) \<Rightarrow> (Inl (RecvHeader err), disconnect net (c\<lparr>link := n\<rparr>))
           | (Inr lenBuf, n) \<Rightarrow>
               (let len = Uint32 lenBuf in
                if len = 0 then (Inr (0, []), c\<lparr>link := n\<rparr>)
                else
                  (case ReadFull net (nat len) n of
                     (Inl err, n) \<Rightarrow> (Inl (RecvBody err), disconnect net (c\<lparr>link := n\<rparr>))
                   | (Inr data, n) \<Rightarrow> (Inr (hd data, tl data), c\<lparr>link := n\<rparr>)))))"

text \<open>What the six operations share: connect, send, receive, and what to make of the response.\<close>

definition request ::
  "('n, 'e) net \<Rightarrow> byte \<Rightarrow> bytes \<Rightarrow> (byte \<Rightarrow> bytes \<Rightarrow> 'e client_error + 'a) \<Rightarrow> 'n Client \<Rightarrow> ('e client_error + 'a) \<times> 'n Client" where
  "request net opcode payload answer c =
     (case send net opcode payload c of
        (Inl err, c) \<Rightarrow> (Inl err, c)
      | (Inr _, c) \<Rightarrow>
          (case recv net c of
             (Inl err, c) \<Rightarrow> (Inl err, c)
           | (Inr (op, data), c) \<Rightarrow> (answer op data, c)))"

definition ack_answer :: "string \<Rightarrow> byte \<Rightarrow> bytes \<Rightarrow> 'e client_error + unit" where
  "ack_answer name op data =
     (if op = opAck then Inr () else if op = opError then Inl (PluginError (parseErrorMessage data)) else Inl (UnexpectedOpcode op name))"

definition client_ReadBlock :: "('n, 'e) net \<Rightarrow> nat \<Rightarrow> int \<Rightarrow> int \<Rightarrow> int \<Rightarrow> 'n Client \<Rightarrow> ('e client_error + bytes option) \<times> 'n Client" where
  "client_ReadBlock net fuel x y z c =
     (case ensureConn net fuel c of
        (Inl err, c) \<Rightarrow> (Inl err, c)
      | (Inr _, c) \<Rightarrow>
          request net opRead (encodeInt32s [wrap32 x, wrap32 y, wrap32 z])
            (\<lambda>op data.
               if op = opData then parseDataResponse data
               else if op = opError then Inl (PluginError (parseErrorMessage data))
               else Inl (UnexpectedOpcode op ''READ'')) c)"

definition client_WriteBlock ::
  "('n, 'e) net \<Rightarrow> nat \<Rightarrow> int \<Rightarrow> int \<Rightarrow> int \<Rightarrow> byte \<Rightarrow> bytes \<Rightarrow> 'n Client \<Rightarrow> ('e client_error + unit) \<times> 'n Client" where
  "client_WriteBlock net fuel x y z blockType data c =
     (case ensureConn net fuel c of
        (Inl err, c) \<Rightarrow> (Inl err, c)
      | (Inr _, c) \<Rightarrow> request net opWrite (write_bytes x y z blockType data) (ack_answer ''WRITE'') c)"

definition client_BatchRead :: "('n, 'e) net \<Rightarrow> nat \<Rightarrow> BlockPos list \<Rightarrow> 'n Client \<Rightarrow> ('e client_error + bytes option list) \<times> 'n Client" where
  "client_BatchRead net fuel positions c =
     (case ensureConn net fuel c of
        (Inl err, c) \<Rightarrow> (Inl err, c)
      | (Inr _, c) \<Rightarrow>
          if length positions = 0 then (Inr [], c)
          else
            request net opBatchRead (batch_read_payload positions)
              (\<lambda>op data.
                 if op = opBatchData then parseBatchDataResponse data
                 else if op = opError then Inl (PluginError (parseErrorMessage data))
                 else Inl (UnexpectedOpcode op ''BATCH_READ'')) c)"

definition client_IsChunkLoaded :: "('n, 'e) net \<Rightarrow> nat \<Rightarrow> int \<Rightarrow> int \<Rightarrow> 'n Client \<Rightarrow> ('e client_error + bool) \<times> 'n Client" where
  "client_IsChunkLoaded net fuel chunkX chunkZ c =
     (case ensureConn net fuel c of
        (Inl err, c) \<Rightarrow> (Inl err, c)
      | (Inr _, c) \<Rightarrow>
          request net opIsChunkLoad (encodeInt32s [wrap32 chunkX, wrap32 chunkZ])
            (\<lambda>op data.
               if op = opData then (if length data < 1 then Inl ShortChunkLoaded else Inr (data ! 0 = 0x01))
               else if op = opError then Inl (PluginError (parseErrorMessage data))
               else Inl (UnexpectedOpcode op ''IS_CHUNK_LOADED'')) c)"

definition client_BatchWrite :: "('n, 'e) net \<Rightarrow> nat \<Rightarrow> BlockWrite list \<Rightarrow> 'n Client \<Rightarrow> ('e client_error + unit) \<times> 'n Client" where
  "client_BatchWrite net fuel writes c =
     (case ensureConn net fuel c of
        (Inl err, c) \<Rightarrow> (Inl err, c)
      | (Inr _, c) \<Rightarrow>
          if length writes = 0 then (Inr (), c)
          else request net opBatchWrite (batch_write_payload writes) (ack_answer ''BATCH_WRITE'') c)"

definition client_ForceLoadChunk :: "('n, 'e) net \<Rightarrow> nat \<Rightarrow> int \<Rightarrow> int \<Rightarrow> 'n Client \<Rightarrow> ('e client_error + unit) \<times> 'n Client" where
  "client_ForceLoadChunk net fuel chunkX chunkZ c =
     (case ensureConn net fuel c of
        (Inl err, c) \<Rightarrow> (Inl err, c)
      | (Inr _, c) \<Rightarrow> request net opForceLoad (encodeInt32s [wrap32 chunkX, wrap32 chunkZ]) (ack_answer ''FORCE_LOAD'') c)"

text \<open>A new client, or the error of the first dial.\<close>

definition NewClient :: "('n, 'e) net \<Rightarrow> 'n \<Rightarrow> 'n Client option \<times> 'n" where
  "NewClient net n = (case DialContext net n of (True, n) \<Rightarrow> (Some \<lparr>connected = True, link = n\<rparr>, n) | (False, n) \<Rightarrow> (None, n))"

definition client_hal :: "('n, 'e) net \<Rightarrow> nat \<Rightarrow> ('n Client, 'e client_error) hal" where
  "client_hal net fuel =
     \<lparr>ReadBlock = client_ReadBlock net fuel, WriteBlock = client_WriteBlock net fuel, BatchRead = client_BatchRead net fuel,
      BatchWrite = client_BatchWrite net fuel, ForceLoadChunk = client_ForceLoadChunk net fuel,
      IsChunkLoaded = client_IsChunkLoaded net fuel\<rparr>"

subsection \<open>A peer behind the network\<close>

text \<open>
  A peer answers each framed request with one framed response. The network that connects to it holds its state and the bytes that are on
  their way to the client.
\<close>

definition frame :: "byte \<Rightarrow> bytes \<Rightarrow> bytes" where
  "frame op payload = PutUint32 (1 + int (length payload)) @ op # payload"

type_synonym 'p peer = "byte \<Rightarrow> bytes \<Rightarrow> 'p \<Rightarrow> (byte \<times> bytes) \<times> 'p"

definition peer_write :: "'p peer \<Rightarrow> bytes \<Rightarrow> 'p \<times> bytes \<Rightarrow> (unit + unit) \<times> 'p \<times> bytes" where
  "peer_write peer buf s =
     (if Uint32 buf \<noteq> int (length buf) - 4 then (Inr (), s)
      else (case peer (buf ! 4) (drop 5 buf) (fst s) of ((op, d), p) \<Rightarrow> (Inr (), (p, snd s @ frame op d))))"

definition peer_read :: "nat \<Rightarrow> 'p \<times> bytes \<Rightarrow> (unit + bytes) \<times> 'p \<times> bytes" where
  "peer_read n s = (if n \<le> length (snd s) then (Inr (take n (snd s)), (fst s, drop n (snd s))) else (Inl (), (fst s, [])))"

definition peer_net :: "'p peer \<Rightarrow> ('p \<times> bytes, unit) net" where
  "peer_net peer =
     \<lparr>DialContext = (\<lambda>s. (True, (fst s, []))), WaitOrDone = (\<lambda>_ s. (False, s)), SetDeadline = (\<lambda>s. (Inr (), s)),
      ConnWrite = peer_write peer, ReadFull = peer_read, ConnClose = (\<lambda>s. (fst s, [])), ctxErr = (\<lambda>_. ())\<rparr>"

definition on :: "'p \<Rightarrow> ('p \<times> bytes) Client" where
  "on p = \<lparr>connected = True, link = (p, [])\<rparr>"

lemma uint32_small [simp]: "0 \<le> x \<Longrightarrow> x < 4294967296 \<Longrightarrow> uint32_of x = x"
  by (simp add: uint32_of_def)

lemma send_peer:
  assumes "length payload + 5 < 2 ^ 32" "peer op payload p = ((rop, rd), p')"
  shows "send (peer_net peer) op payload (on p) = (Inr (), \<lparr>connected = True, link = (p', frame rop rd)\<rparr>)"
proof -
  let ?l = "1 + int (length payload)"
  have l: "uint32_of ?l = ?l" "uint32_of (4 + ?l) = 4 + ?l" using assms(1) by simp_all
  have buf: "take (nat (4 + ?l)) (PutUint32 ?l @ op # payload) = PutUint32 ?l @ op # payload" by simp
  have "Uint32 (PutUint32 ?l @ op # payload) = int (length (PutUint32 ?l @ op # payload)) - 4"
    using assms(1) by (simp add: mod_pos_pos_trivial)
  moreover have "(PutUint32 ?l @ op # payload) ! 4 = op" "drop 5 (PutUint32 ?l @ op # payload) = payload"
    by (simp_all add: nth_append)
  ultimately have "peer_write peer (PutUint32 ?l @ op # payload) (p, []) = (Inr (), (p', frame rop rd))"
    using assms(2) by (simp only: peer_write_def) simp
  then show ?thesis
    unfolding send_def setDeadline_def on_def Let_def l by (simp add: peer_net_def buf del: take_append)
qed

lemma recv_peer:
  assumes "length rd + 1 < 2 ^ 32"
  shows "recv (peer_net peer) \<lparr>connected = True, link = (p, frame rop rd)\<rparr> = (Inr (rop, rd), on p)"
proof -
  have "Uint32 (PutUint32 (1 + int (length rd))) = 1 + int (length rd)"
    using assms Uint32_Put [of "1 + int (length rd)" "[]"] by (simp add: mod_pos_pos_trivial)
  then show ?thesis
    by (simp add: recv_def setDeadline_def peer_net_def peer_read_def frame_def Let_def on_def nat_add_distrib)
qed

lemma request_peer:
  assumes "length payload + 5 < 2 ^ 32" "peer op payload p = ((rop, rd), p')" "length rd + 1 < 2 ^ 32"
  shows "request (peer_net peer) op payload answer (on p) = (answer rop rd, on p')"
  using send_peer [where peer = peer and op = op and p = p, OF assms(1,2)] recv_peer [OF assms(3), of peer p' rop] by (simp add: request_def)

lemma ensure_on [simp]: "ensureConn net fuel (on p) = (Inr (), on p)"
  by (simp add: ensureConn_def on_def)

subsection \<open>A peer that keeps blocks\<close>

text \<open>The plugin's side of the protocol as \<open>docs/spec.md\<close> states it.\<close>

definition get_i32 :: "bytes \<Rightarrow> int" where
  "get_i32 bs = wrap32 (Uint32 bs)"

definition pos_at :: "bytes \<Rightarrow> int \<times> int \<times> int" where
  "pos_at bs = (get_i32 bs, get_i32 (drop 4 bs), get_i32 (drop 8 bs))"

fun read_positions :: "nat \<Rightarrow> bytes \<Rightarrow> (int \<times> int \<times> int) list" where
  "read_positions 0 bs = []"
| "read_positions (Suc k) bs = pos_at bs # read_positions k (drop 12 bs)"

fun read_writes :: "nat \<Rightarrow> bytes \<Rightarrow> ((int \<times> int \<times> int) \<times> bytes) list" where
  "read_writes 0 bs = []"
| "read_writes (Suc k) bs =
     (let n = nat (Uint32 (drop 13 bs)) in (pos_at bs, take n (drop 17 bs)) # read_writes k (drop (17 + n) bs))"

definition data_response :: "bytes option \<Rightarrow> bytes" where
  "data_response d = PutUint32 (int (length (slice_bytes d))) @ slice_bytes d"

definition batch_response :: "bytes option list \<Rightarrow> bytes" where
  "batch_response ds = PutUint32 (int (length ds)) @ concat (map data_response ds)"

definition block_peer :: "blocks peer" where
  "block_peer op payload b =
     (if op = opRead then ((opData, data_response (b (pos_at payload))), b)
      else if op = opWrite then ((opAck, []), fold (\<lambda>(p, d). put_block p d) (read_writes 1 payload) b)
      else if op = opBatchRead then ((opBatchData, batch_response (map b (read_positions (nat (Uint32 payload)) (drop 4 payload)))), b)
      else if op = opBatchWrite then ((opAck, []), fold (\<lambda>(p, d). put_block p d) (read_writes (nat (Uint32 payload)) (drop 4 payload)) b)
      else if op = opForceLoad then ((opAck, []), b)
      else if op = opIsChunkLoad then ((opData, data_response (Some [0x01])), b)
      else ((opError, data_response (Some (bytes_of_string ''unknown opcode''))), b))"

lemmas op_defs = opWrite_def opRead_def opBatchRead_def opForceLoad_def opIsChunkLoad_def opBatchWrite_def opAck_def opData_def opBatchData_def opError_def

lemma op_distinct [simp]:
  "opWrite \<noteq> opRead" "opBatchRead \<noteq> opRead" "opBatchRead \<noteq> opWrite" "opBatchWrite \<noteq> opRead" "opBatchWrite \<noteq> opWrite"
  "opBatchWrite \<noteq> opBatchRead" "opForceLoad \<noteq> opRead" "opForceLoad \<noteq> opWrite" "opForceLoad \<noteq> opBatchRead" "opForceLoad \<noteq> opBatchWrite"
  "opIsChunkLoad \<noteq> opRead" "opIsChunkLoad \<noteq> opWrite" "opIsChunkLoad \<noteq> opBatchRead" "opIsChunkLoad \<noteq> opBatchWrite" "opIsChunkLoad \<noteq> opForceLoad"
  by (simp_all add: op_defs)

lemma Uint32_putInt32 [simp]: "get_i32 (putInt32 (wrap32 x) @ bs) = wrap32 x"
proof -
  have "uint32_of (wrap32 x) mod 2 ^ 32 = uint32_of (wrap32 x)" by (simp add: uint32_of_def)
  then show ?thesis using wrap32_uint32_of [of "wrap32 x"] by (simp add: get_i32_def putInt32_def)
qed

lemma length_putInt32 [simp]: "length (putInt32 x) = 4"
  by (simp add: putInt32_def)

lemma length_pos_bytes [simp]: "length (pos_bytes x y z) = 12"
  by (simp add: pos_bytes_def)

lemma pos_at_bytes [simp]: "pos_at (pos_bytes x y z @ bs) = (wrap32 x, wrap32 y, wrap32 z)"
  by (simp add: pos_at_def pos_bytes_def)

lemma encode_pos: "encodeInt32s [wrap32 x, wrap32 y, wrap32 z] = pos_bytes x y z"
  by (simp add: encodeInt32s_def pos_bytes_def)

lemma read_positions_bytes:
  "read_positions (length ps) (concat (map (\<lambda>p. pos_bytes (PosX p) (PosY p) (PosZ p)) ps) @ bs) =
     map (\<lambda>p. (wrap32 (PosX p), wrap32 (PosY p), wrap32 (PosZ p))) ps"
  by (induction ps) simp_all

lemma length_write_bytes [simp]: "length (write_bytes x y z t d) = 17 + length d"
  by (simp add: write_bytes_def)

declare read_writes.simps(2) [simp del]

lemma read_write_bytes:
  assumes "length d < 2 ^ 32"
  shows "read_writes (Suc k) (write_bytes x y z t d @ bs) = ((wrap32 x, wrap32 y, wrap32 z), d) # read_writes k bs"
proof -
  have "drop 13 (write_bytes x y z t d @ bs) = PutUint32 (int (length d)) @ d @ bs"
    using assms by (simp add: write_bytes_def)
  then have n: "nat (Uint32 (drop 13 (write_bytes x y z t d @ bs))) = length d"
    using assms by (simp add: mod_pos_pos_trivial)
  have "drop 17 (write_bytes x y z t d @ bs) = d @ bs" by (simp add: write_bytes_def)
  moreover have "drop (17 + length d) (write_bytes x y z t d @ bs) = bs" by (simp only: drop_append length_write_bytes) simp
  moreover have "pos_at (write_bytes x y z t d @ bs) = (wrap32 x, wrap32 y, wrap32 z)" by (simp add: write_bytes_def)
  ultimately show ?thesis unfolding read_writes.simps(2) Let_def n by simp
qed

lemma read_writes_bytes:
  assumes "\<forall>w \<in> set ws. length (Data w) < 2 ^ 32"
  shows "read_writes (length ws) (concat (map (\<lambda>w. write_bytes (PosX (Pos w)) (PosY (Pos w)) (PosZ (Pos w)) (BlockType w) (Data w)) ws) @ bs) =
    map (\<lambda>w. ((wrap32 (PosX (Pos w)), wrap32 (PosY (Pos w)), wrap32 (PosZ (Pos w))), Data w)) ws"
  using assms
proof (induction ws)
  case (Cons w ws)
  have d: "length (Data w) < 2 ^ 32" using Cons.prems by simp
  have "\<forall>w \<in> set ws. length (Data w) < 2 ^ 32" using Cons.prems by simp
  from Cons.IH [OF this] show ?case by (simp add: read_write_bytes [OF d])
qed simp

subsection \<open>Responses\<close>

lemma parse_data_response:
  assumes "d \<noteq> Some []" "length (slice_bytes d) + 4 < 2 ^ 32"
  shows "parseDataResponse (data_response d) = Inr d"
proof (cases d)
  case (Some bs)
  have "Uint32 (PutUint32 (int (length bs))) = int (length bs)"
    using assms(2) Some Uint32_Put [of "int (length bs)" "[]"] by (simp add: mod_pos_pos_trivial)
  then show ?thesis using assms Some by (simp add: parseDataResponse_def data_response_def Let_def nat_add_distrib)
next
  case None
  have "Uint32 (PutUint32 0) = 0" using Uint32_Put [of 0 "[]"] by simp
  then show ?thesis using None by (simp add: parseDataResponse_def data_response_def Let_def)
qed

lemma length_data_response [simp]: "length (data_response d) = 4 + length (slice_bytes d)"
  by (simp add: data_response_def)

lemma batch_entries_response:
  assumes "\<forall>d \<in> set ds. d \<noteq> Some [] \<and> length (slice_bytes d) < 2 ^ 32" "length pre = offset"
  shows "batch_entries (pre @ concat (map data_response ds)) (length ds) i offset = (Inr ds :: 'e client_error + bytes option list)"
  using assms
proof (induction ds arbitrary: pre offset i)
  case (Cons d ds)
  let ?rest = "concat (map data_response ds)"
  let ?p = "pre @ data_response d @ ?rest"
  have drop: "drop offset ?p = PutUint32 (int (length (slice_bytes d))) @ slice_bytes d @ ?rest"
    using Cons.prems(2) by (simp add: data_response_def)
  have n: "nat (Uint32 (drop offset ?p)) = length (slice_bytes d)"
    unfolding drop using Cons.prems(1) by (simp add: mod_pos_pos_trivial)
  have d: "take (length (slice_bytes d)) (drop (offset + 4) ?p) = slice_bytes d"
    using Cons.prems(2) by (simp add: data_response_def)
  have IH: "batch_entries ?p (length ds) (Suc i) (offset + 4 + length (slice_bytes d)) = (Inr ds :: 'e client_error + bytes option list)"
    using Cons.IH [of "pre @ data_response d" "offset + 4 + length (slice_bytes d)" "Suc i"] Cons.prems by simp
  have len: "\<not> length ?p < offset + 4" "\<not> length ?p < offset + 4 + length (slice_bytes d)" using Cons.prems(2) by (simp_all add: data_response_def)
  show ?case
  proof (cases d)
    case None
    then show ?thesis using n len IH by (simp add: Let_def del: drop_append append_assoc)
  next
    case (Some bs)
    then show ?thesis using n len IH d Cons.prems(1) by (simp add: Let_def del: drop_append append_assoc)
  qed
qed simp

lemma parse_batch_response:
  assumes "\<forall>d \<in> set ds. d \<noteq> Some [] \<and> length (slice_bytes d) < 2 ^ 32" "length ds < 2 ^ 32"
  shows "parseBatchDataResponse (batch_response ds) = Inr ds"
proof -
  have "Uint32 (PutUint32 (int (length ds))) = int (length ds)"
    using assms(2) Uint32_Put [of "int (length ds)" "[]"] by (simp add: mod_pos_pos_trivial)
  then show ?thesis
    using batch_entries_response [OF assms(1), of "PutUint32 (int (length ds))" 4 0]
    by (simp add: parseBatchDataResponse_def batch_response_def Let_def)
qed

subsection \<open>The operations on such a peer\<close>

abbreviation peer_hal :: "nat \<Rightarrow> ((blocks \<times> bytes) Client, unit client_error) hal" where
  "peer_hal \<equiv> client_hal (peer_net block_peer)"

definition i32_pos :: "BlockPos \<Rightarrow> bool" where
  "i32_pos p \<longleftrightarrow> in_i32 (PosX p) \<and> in_i32 (PosY p) \<and> in_i32 (PosZ p)"

text \<open>Blocks small enough for the lengths of the protocol.\<close>

definition small_blocks :: "blocks \<Rightarrow> bool" where
  "small_blocks b \<longleftrightarrow> (\<forall>q. b q \<noteq> Some [] \<and> length (slice_bytes (b q)) + 10 < 2 ^ 32)"

text \<open>The answers of the peer to well-formed requests.\<close>

lemma peer_reads: "i32_pos (mk_pos x y z) \<Longrightarrow> block_peer opRead (pos_bytes x y z) b = ((opData, data_response (b (x, y, z))), b)"
  using pos_at_bytes [of x y z "[]"] by (simp add: block_peer_def i32_pos_def)

lemma peer_writes:
  assumes "length d + 22 < 2 ^ 32" "i32_pos (mk_pos x y z)"
  shows "block_peer opWrite (write_bytes x y z t d) b = ((opAck, []), put_block (x, y, z) d b)"
proof -
  have "read_writes (Suc 0) (write_bytes x y z t d) = [((x, y, z), d)]"
    using read_write_bytes [of d 0 x y z t "[]"] assms by (simp add: i32_pos_def)
  then show ?thesis by (simp add: block_peer_def)
qed

lemma length_batch_read: "length (batch_read_payload ps) = 4 + 12 * length ps"
proof -
  have "length (concat (map (\<lambda>p. pos_bytes (PosX p) (PosY p) (PosZ p)) ps)) = 12 * length ps" by (induction ps) simp_all
  then show ?thesis by (simp add: batch_read_payload_def)
qed

lemma peer_batch_reads:
  assumes "list_all i32_pos ps" "12 * length ps + 9 < 2 ^ 32"
  shows "block_peer opBatchRead (batch_read_payload ps) b = ((opBatchData, batch_response (map (b \<circ> pos_key) ps)), b)"
proof -
  have n: "uint32_of (int (length ps)) = int (length ps)" "int (length ps) mod 4294967296 = int (length ps)" using assms(2) by simp_all
  have "map (\<lambda>p. (wrap32 (PosX p), wrap32 (PosY p), wrap32 (PosZ p))) ps = map pos_key ps"
    using assms(1) by (auto simp: list_all_iff i32_pos_def pos_key_def)
  then have "read_positions (nat (Uint32 (batch_read_payload ps))) (drop 4 (batch_read_payload ps)) = map pos_key ps"
    using read_positions_bytes [of ps "[]"] n by (simp add: batch_read_payload_def)
  then show ?thesis by (simp add: block_peer_def)
qed

lemma batch_read_parsed:
  assumes "small_blocks b" "12 * length ps + 9 < 2 ^ 32"
  shows "parseBatchDataResponse (batch_response (map (b \<circ> pos_key) ps)) = Inr (map (b \<circ> pos_key) ps)"
proof -
  have "b q \<noteq> Some [] \<and> length (slice_bytes (b q)) < 2 ^ 32" for q
    using assms(1) [unfolded small_blocks_def, THEN spec, of q] by simp
  then have "\<forall>d \<in> set (map (b \<circ> pos_key) ps). d \<noteq> Some [] \<and> length (slice_bytes d) < 2 ^ 32" by simp
  then show ?thesis using assms(2) by (intro parse_batch_response) simp_all
qed

lemma peer_batch_writes:
  assumes "list_all (\<lambda>w. i32_pos (Pos w)) ws" "length ws < 2 ^ 32" "\<forall>w \<in> set ws. length (Data w) < 2 ^ 32"
  shows "block_peer opBatchWrite (batch_write_payload ws) b = ((opAck, []), put_writes ws b)"
proof -
  have n: "uint32_of (int (length ws)) = int (length ws)" "int (length ws) mod 4294967296 = int (length ws)" using assms(2) by simp_all
  have "map (\<lambda>w. ((wrap32 (PosX (Pos w)), wrap32 (PosY (Pos w)), wrap32 (PosZ (Pos w))), Data w)) ws = map (\<lambda>w. (pos_key (Pos w), Data w)) ws"
    using assms(1) by (auto simp: list_all_iff i32_pos_def pos_key_def)
  then have "read_writes (nat (Uint32 (batch_write_payload ws))) (drop 4 (batch_write_payload ws)) = map (\<lambda>w. (pos_key (Pos w), Data w)) ws"
    using read_writes_bytes [OF assms(3), of "[]"] n by (simp add: batch_write_payload_def)
  moreover have "fold (\<lambda>(p, d). put_block p d) (map (\<lambda>w. (pos_key (Pos w), Data w)) ws) b = put_writes ws b"
    by (induction ws arbitrary: b) (simp_all add: put_write_def)
  ultimately show ?thesis by (simp add: block_peer_def)
qed

text \<open>The operations of the client on this peer.\<close>

lemma client_read:
  assumes "small_blocks b" "in_i32 x" "in_i32 y" "in_i32 z"
  shows "ReadBlock (peer_hal fuel) x y z (on b) = (Inr (b (x, y, z)), on b)"
proof -
  have b: "b (x, y, z) \<noteq> Some []" "length (slice_bytes (b (x, y, z))) + 10 < 2 ^ 32" using assms(1) by (simp_all add: small_blocks_def)
  have "block_peer opRead (pos_bytes x y z) b = ((opData, data_response (b (x, y, z))), b)" using assms(2-4) by (intro peer_reads) (simp add: i32_pos_def)
  from b show ?thesis
    by (simp add: client_hal_def client_ReadBlock_def encode_pos parse_data_response
        request_peer [where peer = block_peer and op = opRead and p = b, OF _ \<open>block_peer opRead _ b = _\<close>])
qed

lemma client_write:
  assumes "length d + 22 < 2 ^ 32" "in_i32 x" "in_i32 y" "in_i32 z"
  shows "WriteBlock (peer_hal fuel) x y z t d (on b) = (Inr (), on (put_block (x, y, z) d b))"
proof -
  have "block_peer opWrite (write_bytes x y z t d) b = ((opAck, []), put_block (x, y, z) d b)" using assms by (intro peer_writes) (simp_all add: i32_pos_def)
  from assms(1) show ?thesis
    by (simp add: client_hal_def client_WriteBlock_def ack_answer_def
        request_peer [where peer = block_peer and op = opWrite and p = b, OF _ \<open>block_peer opWrite _ b = _\<close>])
qed

lemma client_batch_read:
  assumes "small_blocks b" "list_all i32_pos ps" "12 * length ps + 9 < 2 ^ 32" "length (batch_response (map (b \<circ> pos_key) ps)) + 1 < 2 ^ 32"
  shows "BatchRead (peer_hal fuel) ps (on b) = (Inr (map (b \<circ> pos_key) ps), on b)"
  using assms(3,4)
  by (cases "ps = []")
    (simp_all add: client_hal_def client_BatchRead_def length_batch_read batch_read_parsed [OF assms(1,3)]
      request_peer [where peer = block_peer and op = opBatchRead and p = b and payload = "batch_read_payload ps", OF _ peer_batch_reads [OF assms(2,3)]])

lemma client_batch_write:
  assumes "list_all (\<lambda>w. i32_pos (Pos w)) ws" "length (batch_write_payload ws) + 5 < 2 ^ 32" "length ws < 2 ^ 32" "\<forall>w \<in> set ws. length (Data w) < 2 ^ 32"
  shows "BatchWrite (peer_hal fuel) ws (on b) = (Inr (), on (put_writes ws b))"
  by (cases "ws = []")
    (simp_all add: client_hal_def client_BatchWrite_def ack_answer_def
      request_peer [where peer = block_peer and op = opBatchWrite and p = b, OF assms(2) peer_batch_writes [OF assms(1,3,4)]])

lemma client_force: "ForceLoadChunk (peer_hal fuel) cx cz (on b) = (Inr (), on b)"
proof -
  have "block_peer opForceLoad d b = ((opAck, []), b)" for d by (simp add: block_peer_def)
  then show ?thesis
    by (simp add: client_hal_def client_ForceLoadChunk_def ack_answer_def encodeInt32s_def request_peer [where peer = block_peer and op = opForceLoad and p = b])
qed

text \<open>A network whose first dials fail; the state is their number and the durations waited so far.\<close>

definition flaky_net :: "(nat \<times> int list, unit) net" where
  "flaky_net =
     \<lparr>DialContext = (\<lambda>(n, ws). case n of 0 \<Rightarrow> (True, (0, ws)) | Suc m \<Rightarrow> (False, (m, ws))), WaitOrDone = (\<lambda>d (n, ws). (False, (n, ws @ [d]))),
      SetDeadline = (\<lambda>s. (Inr (), s)), ConnWrite = (\<lambda>_ s. (Inr (), s)), ReadFull = (\<lambda>_ s. (Inl (), s)), ConnClose = id, ctxErr = (\<lambda>_. ())\<rparr>"

lemma connect_flaky:
  "connect flaky_net (Suc n) (min (initialBackoff * 2 ^ k) maxBackoff) \<lparr>connected = False, link = (n, ws)\<rparr> =
     (Inr (), \<lparr>connected = True, link = (0, ws @ map (\<lambda>i. min (initialBackoff * 2 ^ i) maxBackoff) [k..<k + n])\<rparr>)"
proof (induction n arbitrary: k ws)
  case 0
  then show ?case by (simp add: flaky_net_def)
next
  case (Suc n)
  have b: "(if min (initialBackoff * 2 ^ k) maxBackoff * 2 > maxBackoff then maxBackoff else min (initialBackoff * 2 ^ k) maxBackoff * 2) =
      min (initialBackoff * 2 ^ Suc k) maxBackoff"
    by (auto simp: min_def maxBackoff_def)
  have up: "[k..<k + Suc n] = k # [Suc k..<Suc k + n]" by (simp add: upt_rec del: upt_Suc)
  have "connect flaky_net (Suc (Suc n)) (min (initialBackoff * 2 ^ k) maxBackoff) \<lparr>connected = False, link = (Suc n, ws)\<rparr> =
      connect flaky_net (Suc n) (min (initialBackoff * 2 ^ Suc k) maxBackoff)
        \<lparr>connected = False, link = (n, ws @ [min (initialBackoff * 2 ^ k) maxBackoff])\<rparr>"
    by (subst connect.simps(2)) (simp add: flaky_net_def Let_def b del: connect.simps power_Suc)
  then show ?case unfolding Suc.IH up by simp
qed

subsection \<open>Properties\<close>

text \<open>
  Property C38: when reading a response panics. On the payload of any frame, \<open>parseDataResponse\<close> returns data or an error except when the length it announces is one of the
  last four of 32 bits: then the bound of the slice wraps around to less than its start, the check passes, and the slice panics.
\<close>

theorem data_response_panics:
  assumes "length payload < 2 ^ 32"
  shows "parseDataResponse payload = Inl Panic \<longleftrightarrow> 4 \<le> length payload \<and> 2 ^ 32 - 4 \<le> Uint32 payload"
proof (cases "length payload < 4")
  case True
  then show ?thesis by (simp add: parseDataResponse_def)
next
  case False
  have u: "Uint32 (take 4 payload) = Uint32 payload" by (simp add: Uint32_def)
  have r: "0 \<le> Uint32 payload" "Uint32 payload < 2 ^ 32" using be_get_range [of "take 4 payload"] False by (simp_all add: Uint32_def)
  show ?thesis
  proof (cases "2 ^ 32 - 4 \<le> Uint32 payload")
    case True
    have "(4 + Uint32 payload) mod 2 ^ 32 = 4 + Uint32 payload - 2 ^ 32"
      using True r by (intro int_mod_pos_eq [of _ _ 1]) simp_all
    then have "uint32_of (4 + Uint32 payload) < 4" "uint32_of (4 + Uint32 payload) \<le> int (length payload)"
      using r False by (simp_all add: uint32_of_def)
    then show ?thesis using False True assms by (simp add: parseDataResponse_def Let_def u)
  next
    case small: False
    then have "uint32_of (4 + Uint32 payload) = 4 + Uint32 payload" using r by simp
    then show ?thesis using False small assms r by (auto simp: parseDataResponse_def Let_def u)
  qed
qed

theorem data_response_panics_witness: "parseDataResponse [0xFF, 0xFF, 0xFF, 0xFD] = (Inl Panic :: unit client_error + bytes option)"
  using data_response_panics [of "[0xFF, 0xFF, 0xFF, 0xFD]"] by (simp add: Uint32_def)

text \<open>
  Property C39: a chunk never counts as loaded. The flag of an \<open>IS_CHUNK_LOADED\<close> response follows a length of four bytes; the client takes the first byte of the
  response for the flag, so it reports that the chunk is not loaded even when the peer says that it is.
\<close>

theorem chunk_never_loaded:
  "block_peer opIsChunkLoad payload b = ((opData, PutUint32 1 @ [0x01]), b) \<and>
   IsChunkLoaded (peer_hal fuel) cx cz (on b) = (Inr False, on b)"
proof -
  have peer: "block_peer opIsChunkLoad payload b = ((opData, PutUint32 1 @ [0x01]), b)" for payload
    by (simp add: block_peer_def data_response_def slice_bytes_def)
  have "(PutUint32 1 @ [0x01]) ! 0 = (0 :: byte)" by (simp add: PutUint32_def numeral_eq_Suc)
  then have "IsChunkLoaded (peer_hal fuel) cx cz (on b) = (Inr False, on b)"
    using peer
    by (simp add: client_hal_def client_IsChunkLoaded_def encodeInt32s_def request_peer [where peer = block_peer and op = opIsChunkLoad and p = b])
  with peer show ?thesis by blast
qed

text \<open>
  Property C37: reconnecting ends as soon as a dial succeeds. When the first \<open>n\<close> dials fail and the context is never done, connecting succeeds at the next one, and the client has
  waited 100 ms before the second dial, twice as long before each further one, and never more than 30 s.
\<close>

theorem connect_backs_off:
  "connect flaky_net (Suc n) initialBackoff \<lparr>connected = False, link = (n, [])\<rparr> =
     (Inr (), \<lparr>connected = True, link = (0, map (\<lambda>i. min (100000000 * 2 ^ i) 30000000000) [0..<n])\<rparr>)"
proof -
  have b: "min (initialBackoff * 2 ^ 0) maxBackoff = initialBackoff" by (simp add: initialBackoff_def maxBackoff_def)
  show ?thesis using connect_flaky [of n 0 "[]"] unfolding b by (simp add: initialBackoff_def maxBackoff_def)
qed

end
