(* ===== verification/Process.thy ===== *)
theory Process
  imports Storage
begin

text \<open>
  The operations of the storage layer as processes, for goroutines that run at the same time. A process is
  what a goroutine still has to do: the next call of the storage interface with what follows it for every answer, or
  a section under a mutex, which reads and updates the shared state in one step. Other goroutines may run between any two
  of these actions. \<open>run\<close> executes a process without interruption; the lemmas at the end show that the processes of
  \<open>Append\<close>, \<open>Commit\<close>, \<open>InsertRow\<close>, \<open>MarkDeleted\<close> and of a row of a scan run like these operations.
\<close>

datatype ('e, 'r) process =
    Return 'r
  | CallRead int int int "'e + bytes option \<Rightarrow> ('e, 'r) process"
  | CallWrite int int int byte bytes "'e + unit \<Rightarrow> ('e, 'r) process"
  | CallBatchRead "BlockPos list" "'e + bytes option list \<Rightarrow> ('e, 'r) process"
  | CallBatchWrite "BlockWrite list" "'e + unit \<Rightarrow> ('e, 'r) process"
  | CallForceLoad int int "'e + unit \<Rightarrow> ('e, 'r) process"
  | Locked "Storage \<Rightarrow> Storage" "Storage \<Rightarrow> ('e, 'r) process"

text \<open>The next action of a process. What follows a locked section depends on the state before its update.\<close>

fun advance :: "('w, 'e) hal \<Rightarrow> ('e, 'r) process \<Rightarrow> Storage \<Rightarrow> 'w \<Rightarrow> ('e, 'r) process \<times> Storage \<times> 'w" where
  "advance h (Return r) s w = (Return r, s, w)"
| "advance h (CallRead x y z k) s w = (case ReadBlock h x y z w of (r, w) \<Rightarrow> (k r, s, w))"
| "advance h (CallWrite x y z t d k) s w = (case WriteBlock h x y z t d w of (r, w) \<Rightarrow> (k r, s, w))"
| "advance h (CallBatchRead ps k) s w = (case BatchRead h ps w of (r, w) \<Rightarrow> (k r, s, w))"
| "advance h (CallBatchWrite ws k) s w = (case BatchWrite h ws w of (r, w) \<Rightarrow> (k r, s, w))"
| "advance h (CallForceLoad cx cz k) s w = (case ForceLoadChunk h cx cz w of (r, w) \<Rightarrow> (k r, s, w))"
| "advance h (Locked f k) s w = (k s, f s, w)"

primrec run :: "('w, 'e) hal \<Rightarrow> ('e, 'r) process \<Rightarrow> Storage \<Rightarrow> 'w \<Rightarrow> 'r \<times> Storage \<times> 'w" where
  "run h (Return r) s w = (r, s, w)"
| "run h (CallRead x y z k) s w = (case ReadBlock h x y z w of (r, w) \<Rightarrow> run h (k r) s w)"
| "run h (CallWrite x y z t d k) s w = (case WriteBlock h x y z t d w of (r, w) \<Rightarrow> run h (k r) s w)"
| "run h (CallBatchRead ps k) s w = (case BatchRead h ps w of (r, w) \<Rightarrow> run h (k r) s w)"
| "run h (CallBatchWrite ws k) s w = (case BatchWrite h ws w of (r, w) \<Rightarrow> run h (k r) s w)"
| "run h (CallForceLoad cx cz k) s w = (case ForceLoadChunk h cx cz w of (r, w) \<Rightarrow> run h (k r) s w)"
| "run h (Locked f k) s w = run h (k s) (f s) w"

text \<open>A process followed by another that takes its result.\<close>

primrec bind_process :: "('e, 'a) process \<Rightarrow> ('a \<Rightarrow> ('e, 'b) process) \<Rightarrow> ('e, 'b) process" where
  "bind_process (Return r) f = f r"
| "bind_process (CallRead x y z k) f = CallRead x y z (\<lambda>r. bind_process (k r) f)"
| "bind_process (CallWrite x y z t d k) f = CallWrite x y z t d (\<lambda>r. bind_process (k r) f)"
| "bind_process (CallBatchRead ps k) f = CallBatchRead ps (\<lambda>r. bind_process (k r) f)"
| "bind_process (CallBatchWrite ws k) f = CallBatchWrite ws (\<lambda>r. bind_process (k r) f)"
| "bind_process (CallForceLoad cx cz k) f = CallForceLoad cx cz (\<lambda>r. bind_process (k r) f)"
| "bind_process (Locked g k) f = Locked g (\<lambda>s. bind_process (k s) f)"

subsection \<open>The log\<close>

definition bump_lsn :: "Storage \<Rightarrow> Storage" where
  "bump_lsn s = s\<lparr>wal := (wal s)\<lparr>nextLSN := wrap64 (nextLSN (wal s) + 1)\<rparr>\<rparr>"

definition append_write :: "int \<Rightarrow> string \<Rightarrow> ('e, 'e wal_error + int) process" where
  "append_write lsn book =
     CallWrite 0 walY (wrap64 (- lsn)) BlockTypeLectern (bytes_of_string book)
       (\<lambda>r. case r of Inl err \<Rightarrow> Return (Inl (AppendWrite lsn err)) | Inr _ \<Rightarrow> Return (Inr lsn))"

definition append_load :: "int \<Rightarrow> string \<Rightarrow> ('e, 'e wal_error + int) process" where
  "append_load lsn book =
     CallForceLoad 0 (go_quot (wrap64 (- lsn)) 16)
       (\<lambda>r. case r of Inl err \<Rightarrow> Return (Inl (AppendForceload lsn err)) | Inr _ \<Rightarrow> append_write lsn book)"

definition Append_process ::
  "int \<Rightarrow> string \<Rightarrow> int \<Rightarrow> int \<Rightarrow> int \<Rightarrow> int \<Rightarrow> string \<Rightarrow> ('e, 'e wal_error + int) process" where
  "Append_process txid op tableID x y z newValue =
     Locked bump_lsn
       (\<lambda>s. append_load (nextLSN (wal s)) (serializeEntry (nextLSN (wal s)) txid ''PENDING'' op tableID x y z newValue))"

definition commit_write :: "int \<Rightarrow> Entry \<Rightarrow> ('e, 'e wal_error + unit) process" where
  "commit_write lsn entry =
     CallWrite 0 walY (wrap64 (- lsn)) BlockTypeLectern (bytes_of_string (book_of entry ''COMMITTED''))
       (\<lambda>r. case r of Inl err \<Rightarrow> Return (Inl (CommitWrite lsn err)) | Inr _ \<Rightarrow> Return (Inr ()))"

definition Commit_process :: "int \<Rightarrow> ('e, 'e wal_error + unit) process" where
  "Commit_process lsn =
     CallRead 0 walY (wrap64 (- lsn))
       (\<lambda>r. case r of
          Inl err \<Rightarrow> Return (Inl (CommitRead lsn err))
        | Inr data \<Rightarrow>
            if slice_len data = 0 then Return (Inl (CommitNotFound lsn (wrap64 (- lsn))))
            else
              (case deserializeEntry (slice_string data) of
                 Inl err \<Rightarrow> Return (Inl (CommitParse lsn err))
               | Inr entry \<Rightarrow>
                   if Status entry \<noteq> ''PENDING'' then Return (Inl (CommitAlready lsn (Status entry)))
                   else commit_write lsn entry))"

subsection \<open>Rows\<close>

text \<open>
  The part that inserting and deleting share: the entry is logged, the blocks are written, the entry is committed. The log
  entry comes without its LSN; \<open>werr\<close> wraps an error of the batch.
\<close>

definition logged_commit :: "'r \<Rightarrow> 'e wal_error + unit \<Rightarrow> ('e, 'e storage_error + 'r) process" where
  "logged_commit res r = (case r of Inl err \<Rightarrow> Return (Inl (WalCommit err)) | Inr _ \<Rightarrow> Return (Inr res))"

definition logged_write ::
  "BlockWrite list \<Rightarrow> ('e \<Rightarrow> 'e storage_error) \<Rightarrow> 'r \<Rightarrow> 'e wal_error + int \<Rightarrow> ('e, 'e storage_error + 'r) process" where
  "logged_write writes werr res r =
     (case r of
        Inl err \<Rightarrow> Return (Inl (WalAppend err))
      | Inr lsn \<Rightarrow>
          CallBatchWrite writes
            (\<lambda>r. case r of
                   Inl err \<Rightarrow> Return (Inl (werr err))
                 | Inr _ \<Rightarrow> bind_process (Commit_process lsn) (logged_commit res)))"

definition logged :: "Entry \<Rightarrow> BlockWrite list \<Rightarrow> ('e \<Rightarrow> 'e storage_error) \<Rightarrow> 'r \<Rightarrow> ('e, 'e storage_error + 'r) process" where
  "logged e writes werr res =
     bind_process (Append_process (TXID e) (Op e) (TableID e) (TargetX e) (TargetY e) (TargetZ e) (NewValue e))
       (logged_write writes werr res)"

definition insert_entry :: "int \<Rightarrow> int \<Rightarrow> int \<Rightarrow> int \<Rightarrow> string \<Rightarrow> Entry" where
  "insert_entry txid tableID y z newValue =
     empty_entry\<lparr>TXID := txid, Op := ''INSERT'', TableID := tableID, TargetX := 0, TargetY := y, TargetZ := z, NewValue := newValue\<rparr>"

definition insert_load ::
  "int \<Rightarrow> int \<Rightarrow> ColumnDef list \<Rightarrow> goval gomap \<Rightarrow> int \<Rightarrow> int \<Rightarrow> ('e, 'e storage_error + BlockPos) process" where
  "insert_load tableID stripY cols values txid z =
     CallForceLoad 0 (go_quot z 16)
       (\<lambda>r. case r of
          Inl err \<Rightarrow> Return (Inl (ForceloadChunk err))
        | Inr _ \<Rightarrow>
            (case Marshal (VMap values) of
               Inl err \<Rightarrow> Return (Inl (MarshalValues err))
             | Inr newValueJSON \<Rightarrow>
                 logged (insert_entry txid tableID stripY z newValueJSON) (row_writes cols values txid stripY z)
                   BatchWriteRow (mk_pos 0 stripY z)))"

definition InsertRow_process :: "nat \<Rightarrow> goval gomap \<Rightarrow> int \<Rightarrow> ('e, 'e storage_error + BlockPos) process" where
  "InsertRow_process p values txid =
     Locked (bump_rows p)
       (\<lambda>s. let table = metas s ! p
            in insert_load (ID table) (YLevel table) (Columns table) values txid (wrap64 (ZStart table + RowCount table)))"

definition delete_entry :: "BlockPos \<Rightarrow> int \<Rightarrow> Entry" where
  "delete_entry pos txid =
     empty_entry\<lparr>TXID := txid, Op := ''UPDATE_XMAX'', TableID := wrap64 (go_quot (PosZ pos) tableZSpacing + 1),
       TargetX := PosX pos, TargetY := PosY pos, TargetZ := PosZ pos, NewValue := fmt_d txid\<rparr>"

definition delete_writes :: "BlockPos \<Rightarrow> int \<Rightarrow> BlockWrite list" where
  "delete_writes pos txid =
     (let (s1New, s2New) = EncodeInt64 txid
      in [banner_write 2 (PosY pos) (PosZ pos) s1New, banner_write 3 (PosY pos) (PosZ pos) s2New])"

definition delete_check :: "BlockPos \<Rightarrow> int \<Rightarrow> bytes option \<Rightarrow> ('e, 'e storage_error + unit) process" where
  "delete_check pos txid xmax0Banner =
     CallRead 3 (PosY pos) (PosZ pos)
       (\<lambda>r. case r of
          Inl err \<Rightarrow> Return (Inl (ReadXmax1 err))
        | Inr xmax1Banner \<Rightarrow>
            if xmax0Banner = None \<or> xmax1Banner = None then Return (Inl (NoRowAt pos))
            else if slice_string xmax0Banner = [] then Return (Inl (EmptyXmaxAt pos))
            else logged (delete_entry pos txid) (delete_writes pos txid) WriteDeleteMarker ())"

definition MarkDeleted_process :: "BlockPos \<Rightarrow> int \<Rightarrow> ('e, 'e storage_error + unit) process" where
  "MarkDeleted_process pos txid =
     CallRead 2 (PosY pos) (PosZ pos)
       (\<lambda>r. case r of Inl err \<Rightarrow> Return (Inl (ReadXmax0 err)) | Inr xmax0Banner \<Rightarrow> delete_check pos txid xmax0Banner)"

text \<open>One row of a scan.\<close>

definition scan_decode :: "TableMeta \<Rightarrow> int \<Rightarrow> int \<Rightarrow> bytes option list \<Rightarrow> Row option" where
  "scan_decode table txid z data =
     (if isEmptyStrip data then None
      else
        (case decodeStrip data table of
           Inl _ \<Rightarrow> None
         | Inr row \<Rightarrow>
             if isVisible row txid
             then Some (AList.update ''_z'' (VInt z) (AList.update ''_y'' (VInt (YLevel table)) (AList.update ''_x'' (VInt 0) row)))
             else None))"

definition scan_read :: "TableMeta \<Rightarrow> int \<Rightarrow> int \<Rightarrow> ('e, 'e ScanResult option) process" where
  "scan_read table txid z =
     CallBatchRead (map (\<lambda>ox. mk_pos ox (YLevel table) z) [0..StripWidth table - 1])
       (\<lambda>r. case r of
          Inl err \<Rightarrow> Return (Some (ScanErr (ScanBatchRead z err)))
        | Inr data \<Rightarrow> Return (map_option ScanRow (scan_decode table txid z data)))"

definition scan_process :: "TableMeta \<Rightarrow> int \<Rightarrow> int \<Rightarrow> ('e, 'e ScanResult option) process" where
  "scan_process table txid ri =
     (let z = wrap64 (ZStart table + ri)
      in CallForceLoad 0 (go_quot z 16)
           (\<lambda>r. case r of
              Inl err \<Rightarrow> Return (Some (ScanErr (ScanForceload 0 (go_quot z 16) err)))
            | Inr _ \<Rightarrow> scan_read table txid z))"

subsection \<open>Without interruption\<close>

lemma run_advance: "run h p s w = (case advance h p s w of (q, s', w') \<Rightarrow> run h q s' w')"
  by (cases p) (simp_all split: prod.splits)

lemma run_bind: "run h (bind_process p f) s w = (case run h p s w of (r, s', w') \<Rightarrow> run h (f r) s' w')"
  by (induction p arbitrary: s w) (simp_all split: prod.splits)

lemma advance_bind:
  assumes "\<And>r. p \<noteq> Return r"
  shows "advance h (bind_process p f) s w = (case advance h p s w of (q, s', w') \<Rightarrow> (bind_process q f, s', w'))"
  using assms by (cases p) (auto split: prod.splits)

lemma advance_map:
  "advance h (map_process f p) s w = (case advance h p s w of (q, s', w') \<Rightarrow> (map_process f q, s', w'))"
  by (cases p) (simp_all split: prod.splits)

lemma Append_process_run:
  "run h (Append_process txid op t x y z v) s w =
     (case Append h txid op t x y z v (wal s) w of (r, wl, w') \<Rightarrow> (r, s\<lparr>wal := wl\<rparr>, w'))"
  by (auto simp: Append_process_def append_load_def append_write_def bump_lsn_def Append_def Let_def split: prod.splits sum.splits)

lemma Commit_process_run:
  "run h (Commit_process lsn) s w = (case Commit h lsn (wal s) w of (r, wl, w') \<Rightarrow> (r, s\<lparr>wal := wl\<rparr>, w'))"
  by (auto simp: Commit_process_def commit_write_def Commit_def Let_def split: prod.splits sum.splits)

lemma logged_run:
  "run h (logged e ws werr res) s w =
     (case Append h (TXID e) (Op e) (TableID e) (TargetX e) (TargetY e) (TargetZ e) (NewValue e) (wal s) w of
        (Inl err, wl, w) \<Rightarrow> (Inl (WalAppend err), s\<lparr>wal := wl\<rparr>, w)
      | (Inr lsn, wl, w) \<Rightarrow>
          (case BatchWrite h ws w of
             (Inl err, w) \<Rightarrow> (Inl (werr err), s\<lparr>wal := wl\<rparr>, w)
           | (Inr _, w) \<Rightarrow>
               (case Commit h lsn wl w of
                  (Inl err, wl, w) \<Rightarrow> (Inl (WalCommit err), s\<lparr>wal := wl\<rparr>, w)
                | (Inr _, wl, w) \<Rightarrow> (Inr res, s\<lparr>wal := wl\<rparr>, w))))"
  by (auto simp: logged_def run_bind Append_process_run Commit_process_run logged_write_def logged_commit_def split: prod.splits sum.splits)

lemma InsertRow_process_run: "run h (InsertRow_process p vs txid) s w = InsertRow h p vs txid s w"
  by (auto simp: InsertRow_process_def insert_load_def logged_run insert_entry_def empty_entry_def InsertRow_def Let_def
      split: prod.splits sum.splits)

lemma MarkDeleted_process_run: "run h (MarkDeleted_process pos txid) s w = MarkDeleted h pos txid s w"
  by (auto simp: MarkDeleted_process_def delete_check_def delete_writes_def logged_run delete_entry_def empty_entry_def MarkDeleted_def Let_def
      split: prod.splits sum.splits)

lemma scan_process_run:
  "run h (scan_process table txid ri) s w = (case scan_step h table txid ri w of (r, w') \<Rightarrow> (r, s, w'))"
  by (auto simp: scan_process_def scan_read_def scan_decode_def scan_step_def Let_def split: prod.splits sum.splits)

end
