(* ===== verification/Concurrent.thy ===== *)
theory Concurrent
  imports Process Database "HOL-Library.Multiset"
begin

text \<open>
  Connections that insert and delete at the same time. Each operation is a process of theory \<open>Process\<close>; a
  schedule is a list that names the process to make each next action. The state of a system of processes is described by
  the phase every operation is in, and an invariant over the phases shows that, whatever the schedule, the final
  state is the one of the operations executed one after the other in some order.
\<close>

fun run_schedule ::
  "('w, 'e) hal \<Rightarrow> nat list \<Rightarrow> ('e, 'r) process list \<Rightarrow> Storage \<Rightarrow> 'w \<Rightarrow> ('e, 'r) process list \<times> Storage \<times> 'w" where
  "run_schedule h [] ps s w = (ps, s, w)"
| "run_schedule h (i # sched) ps s w =
     (if i < length ps
      then (case advance h (ps ! i) s w of (q, s, w) \<Rightarrow> run_schedule h sched (ps[i := q]) s w)
      else run_schedule h sched ps s w)"

datatype operation = Inserting nat "goval gomap" int | Deleting nat nat int

fun operation_process :: "TableMeta list \<Rightarrow> operation \<Rightarrow> ('e, 'e storage_error + unit) process" where
  "operation_process ms (Inserting p vs txid) = map_process (map_sum id (\<lambda>_. ())) (InsertRow_process p vs txid)"
| "operation_process ms (Deleting p i txid) = MarkDeleted_process (row_pos (ms ! p) i) txid"

fun apply_operation :: "operation \<Rightarrow> version list list \<Rightarrow> version list list" where
  "apply_operation (Inserting p vs txid) db = db[p := db ! p @ [new_version txid vs]]"
| "apply_operation (Deleting p i txid) db = db[p := (db ! p)[i := delete_version txid (db ! p ! i)]]"

subsection \<open>Processes over the blocks\<close>

text \<open>An action on a store that does not fail, as a client sees it.\<close>

fun advance_blocks :: "('e, 'r) process \<Rightarrow> Storage \<Rightarrow> blocks \<Rightarrow> ('e, 'r) process \<times> Storage \<times> blocks" where
  "advance_blocks (Return r) s b = (Return r, s, b)"
| "advance_blocks (CallRead x y z k) s b = (k (Inr (b (x, y, z))), s, b)"
| "advance_blocks (CallWrite x y z t d k) s b = (k (Inr ()), s, put_block (x, y, z) d b)"
| "advance_blocks (CallBatchRead ps k) s b = (k (Inr (map (b \<circ> pos_key) ps)), s, b)"
| "advance_blocks (CallBatchWrite ws k) s b = (k (Inr ()), s, put_writes ws b)"
| "advance_blocks (CallForceLoad cx cz k) s b = (k (Inr ()), s, b)"
| "advance_blocks (Locked f k) s b = (k s, f s, b)"

context hal_reliable
begin

lemma advance_run:
  assumes "world_ok w"
  obtains w' where "advance h p s w = (fst (advance_blocks p s (blocks w)), fst (snd (advance_blocks p s (blocks w))), w')"
    "world_ok w'" "blocks w' = snd (snd (advance_blocks p s (blocks w)))"
proof (cases p)
  case (CallRead x y z k)
  obtain w' where "ReadBlock h x y z w = (Inr (blocks w (x, y, z)), w')" "world_ok w'" "blocks w' = blocks w"
    by (rule read_run [OF assms])
  then show ?thesis using that [of w'] CallRead by simp
next
  case (CallWrite x y z t d k)
  obtain w' where "WriteBlock h x y z t d w = (Inr (), w')" "world_ok w'" "blocks w' = put_block (x, y, z) d (blocks w)"
    by (rule write_run [OF assms])
  then show ?thesis using that [of w'] CallWrite by simp
next
  case (CallBatchRead ps k)
  obtain w' where "BatchRead h ps w = (Inr (map (blocks w \<circ> pos_key) ps), w')" "world_ok w'" "blocks w' = blocks w"
    by (rule batch_read_run [OF assms])
  then show ?thesis using that [of w'] CallBatchRead by simp
next
  case (CallBatchWrite ws k)
  obtain w' where "BatchWrite h ws w = (Inr (), w')" "world_ok w'" "blocks w' = put_writes ws (blocks w)"
    by (rule batch_write_run [OF assms])
  then show ?thesis using that [of w'] CallBatchWrite by simp
next
  case (CallForceLoad cx cz k)
  obtain w' where "ForceLoadChunk h cx cz w = (Inr (), w')" "world_ok w'" "blocks w' = blocks w"
    by (rule force_run [OF assms])
  then show ?thesis using that [of w'] CallForceLoad by simp
qed (use that assms in simp_all)

end

lemma map_bind_process: "map_process f (bind_process p g) = bind_process p (\<lambda>r. map_process f (g r))"
  by (induction p) auto

lemma map_logged: "map_process (map_sum id f) (logged e ws werr res) = logged e ws werr (f res)"
  by (auto simp: logged_def map_bind_process logged_write_def logged_commit_def fun_eq_iff intro!: arg_cong [of _ _ "bind_process _"]
      split: sum.splits)

lemma advance_blocks_bind:
  assumes "\<And>r. p \<noteq> Return r"
  shows "advance_blocks (bind_process p f) s b =
    (bind_process (fst (advance_blocks p s b)) f, fst (snd (advance_blocks p s b)), snd (snd (advance_blocks p s b)))"
  using assms by (cases p) auto

lemma advance_blocks_map:
  "advance_blocks (map_process f p) s b =
    (map_process f (fst (advance_blocks p s b)), fst (snd (advance_blocks p s b)), snd (snd (advance_blocks p s b)))"
  by (cases p) auto

subsection \<open>Phases\<close>

text \<open>
  Where an operation stands: before its first action, with the row it has reserved (\<open>z\<close>), with the banner it has
  read, ready to log, with its LSN, and after each of the calls that follow.
\<close>

datatype phase =
    Begin
  | Slotted int
  | Looked "bytes option"
  | Ready int
  | Numbered int int
  | Placed int int
  | Appended int int
  | Written int int
  | Closing int int
  | Finished

definition json_of_values :: "goval gomap \<Rightarrow> string" where
  "json_of_values vs = (case Marshal (VMap vs) of Inl _ \<Rightarrow> [] | Inr js \<Rightarrow> js)"

fun op_entry :: "TableMeta list \<Rightarrow> operation \<Rightarrow> int \<Rightarrow> Entry" where
  "op_entry ms (Inserting p vs txid) z = insert_entry txid (ID (ms ! p)) (YLevel (ms ! p)) z (json_of_values vs)"
| "op_entry ms (Deleting p i txid) z = delete_entry (row_pos (ms ! p) i) txid"

fun op_writes :: "TableMeta list \<Rightarrow> operation \<Rightarrow> int \<Rightarrow> BlockWrite list" where
  "op_writes ms (Inserting p vs txid) z = row_writes (Columns (ms ! p)) vs txid (YLevel (ms ! p)) z"
| "op_writes ms (Deleting p i txid) z = delete_writes (row_pos (ms ! p) i) txid"

fun op_err :: "operation \<Rightarrow> 'e \<Rightarrow> 'e storage_error" where
  "op_err (Inserting p vs txid) = BatchWriteRow"
| "op_err (Deleting p i txid) = WriteDeleteMarker"

definition numbered :: "Entry \<Rightarrow> int \<Rightarrow> Entry" where
  "numbered e l = e\<lparr>LSN := l, Status := ''PENDING''\<rparr>"

fun proc_at :: "TableMeta list \<Rightarrow> operation \<Rightarrow> phase \<Rightarrow> ('e, 'e storage_error + unit) process" where
  "proc_at ms op Begin = operation_process ms op"
| "proc_at ms (Inserting p vs txid) (Slotted z) =
     map_process (map_sum id (\<lambda>_. ())) (insert_load (ID (ms ! p)) (YLevel (ms ! p)) (Columns (ms ! p)) vs txid z)"
| "proc_at ms (Deleting p i txid) (Looked d) = delete_check (row_pos (ms ! p) i) txid d"
| "proc_at ms op (Ready z) = logged (op_entry ms op z) (op_writes ms op z) (op_err op) ()"
| "proc_at ms op (Numbered z l) =
     bind_process (append_load l (book_of (numbered (op_entry ms op z) l) ''PENDING'')) (logged_write (op_writes ms op z) (op_err op) ())"
| "proc_at ms op (Placed z l) =
     bind_process (append_write l (book_of (numbered (op_entry ms op z) l) ''PENDING'')) (logged_write (op_writes ms op z) (op_err op) ())"
| "proc_at ms op (Appended z l) = logged_write (op_writes ms op z) (op_err op) () (Inr l)"
| "proc_at ms op (Written z l) = bind_process (Commit_process l) (logged_commit ())"
| "proc_at ms op (Closing z l) = bind_process (commit_write l (numbered (op_entry ms op z) l)) (logged_commit ())"
| "proc_at ms op ph = Return (Inr ())"

fun next_phase :: "TableMeta list \<Rightarrow> operation \<Rightarrow> phase \<Rightarrow> Storage \<Rightarrow> blocks \<Rightarrow> phase \<times> Storage \<times> blocks" where
  "next_phase ms (Inserting p vs txid) Begin s b =
     (Slotted (wrap64 (ZStart (metas s ! p) + RowCount (metas s ! p))), bump_rows p s, b)"
| "next_phase ms (Deleting p i txid) Begin s b = (Looked (b (2, PosY (row_pos (ms ! p) i), PosZ (row_pos (ms ! p) i))), s, b)"
| "next_phase ms op (Slotted z) s b = (Ready z, s, b)"
| "next_phase ms (Deleting p i txid) (Looked d) s b = (Ready (PosZ (row_pos (ms ! p) i)), s, b)"
| "next_phase ms op (Ready z) s b = (Numbered z (nextLSN (wal s)), bump_lsn s, b)"
| "next_phase ms op (Numbered z l) s b = (Placed z l, s, b)"
| "next_phase ms op (Placed z l) s b =
     (Appended z l, s, put_block (wal_pos l) (bytes_of_string (book_of (numbered (op_entry ms op z) l) ''PENDING'')) b)"
| "next_phase ms op (Appended z l) s b = (Written z l, s, put_writes (op_writes ms op z) b)"
| "next_phase ms op (Written z l) s b = (Closing z l, s, b)"
| "next_phase ms op (Closing z l) s b =
     (Finished, s, put_block (wal_pos l) (bytes_of_string (book_of (numbered (op_entry ms op z) l) ''COMMITTED'')) b)"
| "next_phase ms op ph s b = (Finished, s, b)"

text \<open>What an operation relies on in each phase.\<close>

fun phase_ready :: "TableMeta list \<Rightarrow> operation \<Rightarrow> phase \<Rightarrow> Storage \<Rightarrow> blocks \<Rightarrow> bool" where
  "phase_ready ms (Inserting p vs txid) Begin s b \<longleftrightarrow> (\<exists>n. metas s ! p = (ms ! p)\<lparr>RowCount := n\<rparr>)"
| "phase_ready ms (Inserting p vs txid) (Slotted z) s b \<longleftrightarrow> (\<exists>js. Marshal (VMap vs) = Inr js)"
| "phase_ready ms (Inserting p vs txid) (Looked d) s b \<longleftrightarrow> False"
| "phase_ready ms (Deleting p i txid) (Slotted z) s b \<longleftrightarrow> False"
| "phase_ready ms (Deleting p i txid) (Looked d) s b \<longleftrightarrow>
     d \<noteq> None \<and> slice_string d \<noteq> [] \<and> b (3, PosY (row_pos (ms ! p) i), PosZ (row_pos (ms ! p) i)) \<noteq> None"
| "phase_ready ms op (Written z l) s b \<longleftrightarrow>
     b (wal_pos l) = Some (bytes_of_string (book_of (numbered (op_entry ms op z) l) ''PENDING'')) \<and> entry_ok (numbered (op_entry ms op z) l)"
| "phase_ready ms op ph s b \<longleftrightarrow> True"

lemma book_numbered:
  "book_of (numbered e l) status = serializeEntry l (TXID e) status (Op e) (TableID e) (TargetX e) (TargetY e) (TargetZ e) (NewValue e)"
  by (simp add: book_of_def numbered_def)

lemma deserialize_numbered:
  assumes "entry_ok (numbered e l)"
  shows "deserializeEntry (string_of_bytes (bytes_of_string (book_of (numbered e l) ''PENDING''))) = Inr (numbered e l)"
  using deserialize_book [OF assms, of "''PENDING''"] by (simp add: numbered_def)

lemma advance_phase:
  assumes "phase_ready ms op ph s b"
  shows "advance_blocks (proc_at ms op ph) s b =
    (proc_at ms op (fst (next_phase ms op ph s b)), snd (next_phase ms op ph s b))"
proof (cases ph)
  case Begin
  then show ?thesis
    using assms
    by (cases op) (auto simp: InsertRow_process_def advance_blocks_map MarkDeleted_process_def Let_def)
next
  case (Slotted z)
  then show ?thesis
    using assms by (cases op) (auto simp: advance_blocks_map insert_load_def json_of_values_def map_logged)
next
  case (Looked d)
  then show ?thesis
    using assms by (cases op) (auto simp: delete_check_def)
next
  case (Ready z)
  then show ?thesis
    by (cases op) (auto simp: logged_def advance_blocks_bind Append_process_def book_numbered)
next
  case (Numbered z l)
  then show ?thesis by (cases op) (auto simp: advance_blocks_bind append_load_def)
next
  case (Placed z l)
  then show ?thesis by (cases op) (auto simp: advance_blocks_bind append_write_def wal_pos_def)
next
  case (Appended z l)
  then show ?thesis by (cases op) (auto simp: logged_write_def)
next
  case (Written z l)
  then have "b (wal_pos l) = Some (bytes_of_string (book_of (numbered (op_entry ms op z) l) ''PENDING''))" "entry_ok (numbered (op_entry ms op z) l)"
    using assms by (cases op; simp)+
  then show ?thesis
    using Written deserialize_numbered [of "op_entry ms op z" l]
    by (cases op) (auto simp: advance_blocks_bind Commit_process_def wal_pos_def slice_len_def slice_string_def slice_bytes_def numbered_def)
next
  case (Closing z l)
  then show ?thesis by (cases op) (auto simp: advance_blocks_bind commit_write_def logged_commit_def wal_pos_def)
next
  case Finished
  then show ?thesis by (cases op) auto
qed

subsection \<open>The invariant\<close>

fun phase_row :: "phase \<Rightarrow> int option" where
  "phase_row (Slotted z) = Some z"
| "phase_row (Ready z) = Some z"
| "phase_row (Numbered z l) = Some z"
| "phase_row (Placed z l) = Some z"
| "phase_row (Appended z l) = Some z"
| "phase_row ph = None"

fun phase_lsn :: "phase \<Rightarrow> int option" where
  "phase_lsn (Numbered z l) = Some l"
| "phase_lsn (Placed z l) = Some l"
| "phase_lsn (Appended z l) = Some l"
| "phase_lsn (Written z l) = Some l"
| "phase_lsn (Closing z l) = Some l"
| "phase_lsn ph = None"

text \<open>The row an insert has reserved and not written, the LSN an operation holds, and what it has still to take.\<close>

fun hole :: "operation \<times> phase \<Rightarrow> int option" where
  "hole (Inserting p vs txid, ph) = phase_row ph"
| "hole (Deleting p i txid, ph) = None"

definition holds_lsn :: "operation \<times> phase \<Rightarrow> int option" where
  "holds_lsn t = phase_lsn (snd t)"

fun waiting :: "nat \<Rightarrow> operation \<times> phase \<Rightarrow> bool" where
  "waiting q (Inserting p vs txid, Begin) = (p = q)"
| "waiting q t = False"

fun unnumbered :: "operation \<times> phase \<Rightarrow> bool" where
  "unnumbered (op, Begin) = True"
| "unnumbered (op, Slotted z) = True"
| "unnumbered (op, Looked d) = True"
| "unnumbered (op, Ready z) = True"
| "unnumbered t = False"

text \<open>An operation has taken effect: an insert once it has its row, a delete once it has written.\<close>

fun effective :: "operation \<times> phase \<Rightarrow> bool" where
  "effective (Inserting p vs txid, ph) = (ph \<noteq> Begin)"
| "effective (Deleting p i txid, Written z l) = True"
| "effective (Deleting p i txid, Closing z l) = True"
| "effective (Deleting p i txid, Finished) = True"
| "effective (Deleting p i txid, ph) = False"

definition separate :: "('a \<Rightarrow> int option) \<Rightarrow> 'a list \<Rightarrow> bool" where
  "separate f ts \<longleftrightarrow> (\<forall>i < length ts. \<forall>j < length ts. i \<noteq> j \<longrightarrow> f (ts ! i) \<noteq> None \<longrightarrow> f (ts ! i) \<noteq> f (ts ! j))"

lemma separate_update:
  assumes "separate f ts" "i < length ts" "f x = None \<or> f x = f (ts ! i) \<or> (\<forall>t \<in> set ts. f t \<noteq> f x)"
  shows "separate f (ts[i := x])"
  using assms unfolding separate_def by (auto simp: nth_list_update) (metis nth_mem)+

lemma filter_update:
  assumes "i < length ts"
  shows "length (filter P (ts[i := x])) + (if P (ts ! i) then 1 else 0) = length (filter P ts) + (if P x then 1 else 0)"
    "mset (map f (filter P (ts[i := x]))) + (if P (ts ! i) then {#f (ts ! i)#} else {#}) =
       mset (map f (filter P ts)) + (if P x then {#f x#} else {#})"
proof -
  have ts: "ts = take i ts @ ts ! i # drop (Suc i) ts" "ts[i := x] = take i ts @ x # drop (Suc i) ts"
    using assms by (simp_all add: id_take_nth_drop [symmetric] upd_conv_take_nth_drop)
  show "length (filter P (ts[i := x])) + (if P (ts ! i) then 1 else 0) = length (filter P ts) + (if P x then 1 else 0)"
    unfolding ts(2) by (subst (2) ts(1)) simp
  show "mset (map f (filter P (ts[i := x]))) + (if P (ts ! i) then {#f (ts ! i)#} else {#}) =
       mset (map f (filter P ts)) + (if P x then {#f x#} else {#})"
    unfolding ts(2) by (subst (2) ts(1)) simp
qed

fun op_ok :: "TableMeta list \<Rightarrow> version list list \<Rightarrow> operation \<Rightarrow> bool" where
  "op_ok ms db (Inserting p vs txid) \<longleftrightarrow>
     p < length ms \<and> row_storable (Columns (ms ! p)) vs \<and> in_i64 txid \<and> (\<exists>js. Marshal (VMap vs) = Inr js)"
| "op_ok ms db (Deleting p i txid) \<longleftrightarrow> p < length ms \<and> i < length (db ! p) \<and> in_i64 txid"

text \<open>What the other operations leave alone for an operation in some phase.\<close>

fun phase_kept :: "TableMeta list \<Rightarrow> operation \<Rightarrow> phase \<Rightarrow> blocks \<Rightarrow> bool" where
  "phase_kept ms (Inserting p vs txid) (Looked d) b \<longleftrightarrow> False"
| "phase_kept ms (Deleting p i txid) (Slotted z) b \<longleftrightarrow> False"
| "phase_kept ms (Deleting p i txid) (Looked d) b \<longleftrightarrow> d \<noteq> None \<and> slice_string d \<noteq> []"
| "phase_kept ms op (Appended z l) b \<longleftrightarrow>
     b (0, walY, - l) = Some (bytes_of_string (book_of (numbered (op_entry ms op z) l) ''PENDING'')) \<and> entry_ok (numbered (op_entry ms op z) l)"
| "phase_kept ms op (Written z l) b \<longleftrightarrow>
     b (0, walY, - l) = Some (bytes_of_string (book_of (numbered (op_entry ms op z) l) ''PENDING'')) \<and> entry_ok (numbered (op_entry ms op z) l)"
| "phase_kept ms op ph b \<longleftrightarrow> True"

fun hole_ok :: "TableMeta list \<Rightarrow> version list list \<Rightarrow> version list list \<Rightarrow> operation \<Rightarrow> int \<Rightarrow> bool" where
  "hole_ok ms db0 db (Inserting p vs txid) z \<longleftrightarrow>
     (\<exists>j. z = ZStart (ms ! p) + int j \<and> length (db0 ! p) \<le> j \<and> j < length (db ! p) \<and> db ! p ! j = new_version txid vs)"
| "hole_ok ms db0 db (Deleting p i txid) z \<longleftrightarrow> True"

definition thread_ok :: "TableMeta list \<Rightarrow> version list list \<Rightarrow> version list list \<Rightarrow> Storage \<Rightarrow> blocks \<Rightarrow> operation \<times> phase \<Rightarrow> bool" where
  "thread_ok ms db0 db s b t \<longleftrightarrow>
     op_ok ms db0 (fst t) \<and> phase_kept ms (fst t) (snd t) b \<and>
     (\<forall>z. hole t = Some z \<longrightarrow> hole_ok ms db0 db (fst t) z) \<and>
     (\<forall>l. holds_lsn t = Some l \<longrightarrow> 1 \<le> l \<and> l < nextLSN (wal s))"

text \<open>A row is written, or reserved by an insert that has not written it yet.\<close>

definition row_ok :: "TableMeta list \<Rightarrow> (operation \<times> phase) list \<Rightarrow> blocks \<Rightarrow> nat \<Rightarrow> nat \<Rightarrow> version \<Rightarrow> bool" where
  "row_ok ms ts b p j v \<longleftrightarrow>
     version_ok (Columns (ms ! p)) v \<and>
     (strip b (ms ! p) (ZStart (ms ! p) + int j) = version_strip (Columns (ms ! p)) v \<or>
      (\<exists>t \<in> set ts. hole t = Some (ZStart (ms ! p) + int j)))"

definition same_tables :: "TableMeta list \<Rightarrow> Storage \<Rightarrow> bool" where
  "same_tables ms s \<longleftrightarrow> length (metas s) = length ms \<and> (\<forall>p < length ms. \<exists>n. metas s ! p = (ms ! p)\<lparr>RowCount := n\<rparr>)"

definition system_inv ::
  "TableMeta list \<Rightarrow> version list list \<Rightarrow> version list list \<Rightarrow> (operation \<times> phase) list \<Rightarrow> Storage \<Rightarrow> blocks \<Rightarrow> bool" where
  "system_inv ms db0 db ts s b \<longleftrightarrow>
     storage_ok b s \<and> air_behind b s \<and> same_tables ms s \<and> length db = length ms \<and>
     (\<forall>p < length ms. RowCount (metas s ! p) = int (length (db ! p)) \<and> length (db0 ! p) \<le> length (db ! p)) \<and>
     (\<forall>p < length ms. \<forall>j < length (db ! p). row_ok ms ts b p j (db ! p ! j)) \<and>
     (\<forall>t \<in> set ts. thread_ok ms db0 db s b t) \<and> separate hole ts \<and> separate holds_lsn ts \<and>
     nextLSN (wal s) + int (length (filter unnumbered ts)) < 2 ^ 62 \<and>
     (\<forall>p < length ms. int (length (db ! p) + length (filter (waiting p) ts)) \<le> tableZSpacing)"

lemma system_invD:
  assumes "system_inv ms db0 db ts s b"
  shows "storage_ok b s" "air_behind b s" "length (metas s) = length ms" "length db = length ms"
    "separate hole ts" "separate holds_lsn ts" "nextLSN (wal s) + int (length (filter unnumbered ts)) < 2 ^ 62"
    "\<forall>t \<in> set ts. thread_ok ms db0 db s b t"
  using assms by (simp_all add: system_inv_def same_tables_def)

lemma system_inv_table:
  assumes "system_inv ms db0 db ts s b" "p < length ms"
  shows "\<exists>n. metas s ! p = (ms ! p)\<lparr>RowCount := n\<rparr>" "RowCount (metas s ! p) = int (length (db ! p))" "length (db0 ! p) \<le> length (db ! p)"
    "\<And>j. j < length (db ! p) \<Longrightarrow> row_ok ms ts b p j (db ! p ! j)"
    "int (length (db ! p) + length (filter (waiting p) ts)) \<le> tableZSpacing"
  using assms by (simp_all add: system_inv_def same_tables_def)

text \<open>The planes of the tables, by the metadata the system started with.\<close>

lemma system_inv_meta:
  assumes "system_inv ms db0 db ts s b" "p < length ms"
  shows "1 \<le> ID (ms ! p)" "ID (ms ! p) < 2 ^ 48" "YLevel (ms ! p) = tableY" "ZStart (ms ! p) = int p * tableZSpacing"
    "StripWidth (ms ! p) = stripWidth (Columns (ms ! p))" "length (db ! p) \<le> 10000"
proof -
  obtain n where n: "metas s ! p = (ms ! p)\<lparr>RowCount := n\<rparr>" using system_inv_table(1) [OF assms] by blast
  have m: "meta_ok (metas s ! p)" "ID (metas s ! p) = int p + 1"
    using storage_okD [OF system_invD(1) [OF assms(1)], of p] system_invD(3) [OF assms(1)] assms(2) by simp_all
  then show "1 \<le> ID (ms ! p)" "ID (ms ! p) < 2 ^ 48" "YLevel (ms ! p) = tableY" "ZStart (ms ! p) = int p * tableZSpacing"
    "StripWidth (ms ! p) = stripWidth (Columns (ms ! p))"
    by (simp_all add: n meta_ok_def)
  show "length (db ! p) \<le> 10000"
    using system_inv_table(2) [OF assms] m(1) by (simp add: meta_ok_def tableZSpacing_def)
qed

lemma plane_inject:
  assumes "system_inv ms db0 db ts s b" "p < length ms" "q < length ms" "j < 10000" "k < 10000"
  shows "ZStart (ms ! p) + int j = ZStart (ms ! q) + int k \<longleftrightarrow> p = q \<and> j = k"
proof -
  have z: "ZStart (ms ! p) = int p * 10000" "ZStart (ms ! q) = int q * 10000"
    using system_inv_meta(4) [OF assms(1,2)] system_inv_meta(4) [OF assms(1,3)] by (simp_all add: tableZSpacing_def)
  have "p = q \<and> j = k" if "p * 10000 + j = q * 10000 + k"
    using arg_cong [OF that, of "\<lambda>n. n div 10000"] arg_cong [OF that, of "\<lambda>n. n mod 10000"] assms(4,5) by simp
  moreover have "ZStart (ms ! p) + int j = int (p * 10000 + j)" "ZStart (ms ! q) + int k = int (q * 10000 + k)" by (simp_all add: z)
  ultimately show ?thesis by (metis of_nat_eq_iff)
qed

lemma hole_vanishes:
  assumes "row_ok ms ts b p j v" "strip b' (ms ! p) (ZStart (ms ! p) + int j) = strip b (ms ! p) (ZStart (ms ! p) + int j)"
    "i < length ts" "hole (ts ! i) \<noteq> Some (ZStart (ms ! p) + int j) \<or> hole x = hole (ts ! i)"
  shows "row_ok ms (ts[i := x]) b' p j v"
proof -
  have "\<exists>t \<in> set (ts[i := x]). hole t = Some (ZStart (ms ! p) + int j)"
    if t: "t \<in> set ts" "hole t = Some (ZStart (ms ! p) + int j)" for t
  proof -
    obtain k where k: "k < length ts" "t = ts ! k" using t(1) by (metis in_set_conv_nth)
    show ?thesis
    proof (cases "k = i")
      case True
      then have "hole x = Some (ZStart (ms ! p) + int j)" using assms(4) t(2) k(2) by auto
      then show ?thesis using set_update_memI [OF assms(3)] by fastforce
    next
      case False
      then have "(ts[i := x]) ! k = t" "k < length (ts[i := x])" using k by simp_all
      then show ?thesis using t(2) nth_mem by metis
    qed
  qed
  then show ?thesis using assms(1,2) unfolding row_ok_def by metis
qed

subsection \<open>The actions keep the invariant\<close>

lemma phase_kept_mono:
  "phase_kept ms op ph b \<Longrightarrow> (\<And>l. phase_lsn ph = Some l \<Longrightarrow> b' (0, walY, - l) = b (0, walY, - l)) \<Longrightarrow> phase_kept ms op ph b'"
  by (cases op; cases ph) simp_all

lemma hole_ok_mono:
  assumes "hole_ok ms db0 db op z" "op_ok ms db0 op"
    "\<And>p j. p < length ms \<Longrightarrow> length (db0 ! p) \<le> j \<Longrightarrow> j < length (db ! p) \<Longrightarrow> j < length (db' ! p) \<and> db' ! p ! j = db ! p ! j"
  shows "hole_ok ms db0 db' op z"
proof (cases op)
  case (Inserting p vs txid)
  then show ?thesis using assms by auto
qed simp

lemma thread_ok_mono:
  assumes "thread_ok ms db0 db s b t" "nextLSN (wal s) \<le> nextLSN (wal s')"
    "\<And>p j. p < length ms \<Longrightarrow> length (db0 ! p) \<le> j \<Longrightarrow> j < length (db ! p) \<Longrightarrow> j < length (db' ! p) \<and> db' ! p ! j = db ! p ! j"
    "\<And>l. holds_lsn t = Some l \<Longrightarrow> 1 \<le> l \<Longrightarrow> b' (0, walY, - l) = b (0, walY, - l)"
  shows "thread_ok ms db0 db' s' b' t"
  unfolding thread_ok_def
proof (intro conjI allI impI)
  show "op_ok ms db0 (fst t)" using assms(1) by (simp add: thread_ok_def)
  show "phase_kept ms (fst t) (snd t) b'"
    using assms(1,4) by (auto simp: thread_ok_def holds_lsn_def intro: phase_kept_mono [of ms "fst t" "snd t" b])
  show "hole_ok ms db0 db' (fst t) z" if "hole t = Some z" for z
    using assms(1) that by (intro hole_ok_mono [OF _ _ assms(3)]) (auto simp: thread_ok_def)
  fix l
  assume "holds_lsn t = Some l"
  then have "1 \<le> l \<and> l < nextLSN (wal s)" using assms(1) by (simp add: thread_ok_def)
  then show "1 \<le> l" "l < nextLSN (wal s')" using assms(2) by simp_all
qed

lemma threads_update:
  assumes inv: "system_inv ms db0 db ts s b" and i: "i < length ts" and x: "thread_ok ms db0 db' s' b' x"
    and lsn: "nextLSN (wal s) \<le> nextLSN (wal s')"
    and db: "\<And>p j. p < length ms \<Longrightarrow> length (db0 ! p) \<le> j \<Longrightarrow> j < length (db ! p) \<Longrightarrow> j < length (db' ! p) \<and> db' ! p ! j = db ! p ! j"
    and b: "\<And>l. holds_lsn (ts ! i) \<noteq> Some l \<Longrightarrow> 1 \<le> l \<Longrightarrow> b' (0, walY, - l) = b (0, walY, - l)"
  shows "\<forall>t \<in> set (ts[i := x]). thread_ok ms db0 db' s' b' t"
proof
  fix t
  assume "t \<in> set (ts[i := x])"
  then obtain k where k: "k < length ts" "t = (ts[i := x]) ! k" by (metis in_set_conv_nth length_list_update)
  show "thread_ok ms db0 db' s' b' t"
  proof (cases "k = i")
    case True
    then show ?thesis using x k by simp
  next
    case False
    then have t: "t = ts ! k" using k by simp
    then have "thread_ok ms db0 db s b t" using system_invD(8) [OF inv] k(1) by simp
    moreover have "holds_lsn (ts ! i) \<noteq> Some l" if "holds_lsn t = Some l" for l
      using system_invD(6) [OF inv, unfolded separate_def, rule_format, OF k(1) i False] t that by auto
    ultimately show ?thesis using thread_ok_mono [OF _ lsn db] b by blast
  qed
qed

text \<open>Blocks at the level of the catalog and on planes of rows.\<close>

lemma frame_catalog:
  assumes "storage_ok b s" "air_behind b s" "\<And>z. b' (0, catalogY, z) = b (0, catalogY, z)"
  shows "storage_ok b' s" "air_behind b' s"
proof -
  have "meta_ok (metas s ! q) \<and> (\<exists>n. metas s ! q = (metas s ! q)\<lparr>RowCount := n\<rparr>)" if "q < length (metas s)" for q
    using storage_okD(1) [OF assms(1) that] by (auto intro: exI [of _ "RowCount (metas s ! q)"])
  then show "storage_ok b' s"
    using storage_ok_parts(5) [OF assms(1)] assms(3) by (intro storage_ok_update [OF assms(1)]) simp_all
  show "air_behind b' s" using assms(2,3) by (simp add: air_behind_def)
qed

lemma strip_planes: "(\<And>x. b' (x, YLevel t, z) = b (x, YLevel t, z)) \<Longrightarrow> strip b' t z = strip b t z"
  by (simp add: strip_def)

text \<open>An action that takes nothing and writes at most the operation's own lectern.\<close>

lemma quiet_step:
  assumes inv: "system_inv ms db0 db ts s b" and i: "i < length ts" "ts ! i = (op, ph)"
    and same: "hole (op, ph') = hole (op, ph)" "phase_lsn ph' = None \<or> phase_lsn ph' = phase_lsn ph"
      "unnumbered (op, ph') = unnumbered (op, ph)" "\<And>p. waiting p (op, ph') = waiting p (op, ph)"
    and kept: "phase_kept ms op ph' b'"
    and b: "\<And>x y z. 0 \<le> z \<or> y = catalogY \<Longrightarrow> b' (x, y, z) = b (x, y, z)"
      "\<And>l. phase_lsn ph \<noteq> Some l \<Longrightarrow> b' (0, walY, - l) = b (0, walY, - l)"
  shows "system_inv ms db0 db (ts[i := (op, ph')]) s b'"
  unfolding system_inv_def
proof (intro conjI allI impI)
  let ?ts = "ts[i := (op, ph')]"
  show "storage_ok b' s" "air_behind b' s"
    using frame_catalog [OF system_invD(1,2) [OF inv]] b(1) by simp_all
  show "same_tables ms s" "length db = length ms" using inv by (simp_all add: system_inv_def)
  show "separate hole ?ts" using same(1) i by (intro separate_update system_invD(5) [OF inv]) simp_all
  show "separate holds_lsn ?ts"
    using same(2) i by (intro separate_update system_invD(6) [OF inv]) (auto simp: holds_lsn_def)
  have "thread_ok ms db0 db s b (op, ph)" using system_invD(8) [OF inv] i by (metis nth_mem)
  then have "thread_ok ms db0 db s b' (op, ph')"
    using same(1,2) kept by (auto simp: thread_ok_def holds_lsn_def)
  then show "\<forall>t \<in> set ?ts. thread_ok ms db0 db s b' t"
    using b(2) i by (intro threads_update [OF inv i(1)]) (auto simp: holds_lsn_def)
  show "nextLSN (wal s) + int (length (filter unnumbered ?ts)) < 2 ^ 62"
    using system_invD(7) [OF inv] filter_update(1) [OF i(1), of unnumbered "(op, ph')"] same(3) i(2) by simp
  fix p
  assume p: "p < length ms"
  show "RowCount (metas s ! p) = int (length (db ! p))" "length (db0 ! p) \<le> length (db ! p)"
    using system_inv_table(2,3) [OF inv p] by simp_all
  show "int (length (db ! p) + length (filter (waiting p) ?ts)) \<le> tableZSpacing"
    using system_inv_table(5) [OF inv p] filter_update(1) [OF i(1), of "waiting p" "(op, ph')"] same(4) i(2) by simp
  fix j
  assume j: "j < length (db ! p)"
  have "strip b' (ms ! p) (ZStart (ms ! p) + int j) = strip b (ms ! p) (ZStart (ms ! p) + int j)"
    using system_inv_meta(4) [OF inv p] b(1) by (intro strip_planes) (simp add: tableZSpacing_def)
  then show "row_ok ms ?ts b' p j (db ! p ! j)"
    using system_inv_table(4) [OF inv p j] i same(1) by (intro hole_vanishes [where b = b]) simp_all
qed

lemma number_step:
  assumes inv: "system_inv ms db0 db ts s b" and i: "i < length ts" "ts ! i = (op, Ready z)"
  shows "system_inv ms db0 db (ts[i := (op, Numbered z (nextLSN (wal s)))]) (bump_lsn s) b"
  unfolding system_inv_def
proof (intro conjI allI impI)
  let ?x = "(op, Numbered z (nextLSN (wal s)))"
  let ?ts = "ts[i := ?x]"
  have cnt: "length (filter unnumbered ?ts) + 1 = length (filter unnumbered ts)"
    using filter_update(1) [OF i(1), of unnumbered ?x] i(2) by simp
  have lsn: "1 \<le> nextLSN (wal s)" "nextLSN (wal s) + 1 < 2 ^ 62"
    using storage_ok_parts(5) [OF system_invD(1) [OF inv]] system_invD(7) [OF inv] cnt by (simp_all add: lsn_ok_def)
  then have next1: "nextLSN (wal (bump_lsn s)) = nextLSN (wal s) + 1" by (auto simp: bump_lsn_def in_i64_def)
  have st: "metas (bump_lsn s) = metas s" "tables (bump_lsn s) = tables s" "nextCatalogZ (bump_lsn s) = nextCatalogZ s"
    "nextTableID (bump_lsn s) = nextTableID s" by (simp_all add: bump_lsn_def)
  have "meta_ok (metas s ! q) \<and> (\<exists>n. metas s ! q = (metas s ! q)\<lparr>RowCount := n\<rparr>)" if "q < length (metas s)" for q
    using storage_okD(1) [OF system_invD(1) [OF inv] that] by (auto intro: exI [of _ "RowCount (metas s ! q)"])
  then show "storage_ok b (bump_lsn s)"
    using lsn next1 by (intro storage_ok_update [OF system_invD(1) [OF inv]]) (simp_all add: st lsn_ok_def)
  show "air_behind b (bump_lsn s)" using system_invD(2) [OF inv] by (simp add: air_behind_def st)
  show "same_tables ms (bump_lsn s)" "length db = length ms" using inv by (simp_all add: system_inv_def same_tables_def st)
  show "separate hole ?ts" using i by (intro separate_update system_invD(5) [OF inv]) (cases op; simp)+
  have "holds_lsn t \<noteq> holds_lsn ?x" if "t \<in> set ts" for t
    using system_invD(8) [OF inv] that by (auto simp: thread_ok_def holds_lsn_def)
  then show "separate holds_lsn ?ts" using i by (intro separate_update system_invD(6) [OF inv]) simp_all
  have "thread_ok ms db0 db s b (op, Ready z)" using system_invD(8) [OF inv] i by (metis nth_mem)
  then have "thread_ok ms db0 db (bump_lsn s) b ?x"
    using lsn(1) next1 by (cases op) (auto simp: thread_ok_def holds_lsn_def)
  then show "\<forall>t \<in> set ?ts. thread_ok ms db0 db (bump_lsn s) b t"
    using next1 i by (intro threads_update [OF inv i(1)]) simp_all
  show "nextLSN (wal (bump_lsn s)) + int (length (filter unnumbered ?ts)) < 2 ^ 62"
    using system_invD(7) [OF inv] cnt next1 by simp
  fix p
  assume p: "p < length ms"
  show "RowCount (metas (bump_lsn s) ! p) = int (length (db ! p))" "length (db0 ! p) \<le> length (db ! p)"
    using system_inv_table(2,3) [OF inv p] by (simp_all add: st)
  show "int (length (db ! p) + length (filter (waiting p) ?ts)) \<le> tableZSpacing"
    using system_inv_table(5) [OF inv p] filter_update(1) [OF i(1), of "waiting p" ?x] i(2) by (cases op) simp_all
  fix j
  assume j: "j < length (db ! p)"
  show "row_ok ms ?ts b p j (db ! p ! j)"
    using system_inv_table(4) [OF inv p j] i by (intro hole_vanishes [where b = b]) (cases op; simp)+
qed

lemma reserve_step:
  assumes inv: "system_inv ms db0 db ts s b" and i: "i < length ts" "ts ! i = (Inserting p vs txid, Begin)"
    and z: "z = wrap64 (ZStart (metas s ! p) + RowCount (metas s ! p))" and db': "db' = db[p := db ! p @ [new_version txid vs]]"
  shows "system_inv ms db0 db' (ts[i := (Inserting p vs txid, Slotted z)]) (bump_rows p s) b"
  unfolding system_inv_def
proof (intro conjI allI impI)
  let ?x = "(Inserting p vs txid, Slotted z)" and ?n = "length (db ! p)" and ?s = "bump_rows p s"
  let ?ts = "ts[i := ?x]"
  have ok: "op_ok ms db0 (Inserting p vs txid)" using system_invD(8) [OF inv] i by (metis fst_conv nth_mem thread_ok_def)
  then have p: "p < length ms" "p < length db" "p < length (metas s)" using system_invD(3,4) [OF inv] by simp_all
  have cnt: "length (filter (waiting p) ?ts) + 1 = length (filter (waiting p) ts)"
    using filter_update(1) [OF i(1), of "waiting p" ?x] i(2) by simp
  have n: "?n < 10000" "RowCount (metas s ! p) = int ?n"
    using system_inv_table(2,5) [OF inv p(1)] cnt by (simp_all add: tableZSpacing_def)
  obtain k where k: "metas s ! p = (ms ! p)\<lparr>RowCount := k\<rparr>" using system_inv_table(1) [OF inv p(1)] by blast
  note meta = storage_okD(1) [OF system_invD(1) [OF inv] p(3)]
  have zn: "z = ZStart (ms ! p) + int ?n"
    using meta_z_range(1) [OF meta, of "int ?n"] n k by (simp add: z tableZSpacing_def)
  have bump: "metas ?s ! q = (if q = p then (metas s ! p)\<lparr>RowCount := int ?n + 1\<rparr> else metas s ! q)" if "q < length ms" for q
    using bump_rows_sel(2) [of q s p] that system_invD(3) [OF inv] n by (auto simp: in_i64_def)
  have len: "length (metas ?s) = length (metas s)" by (simp add: bump_rows_def)
  have sel: "tables ?s = tables s" "nextCatalogZ ?s = nextCatalogZ s" "nextTableID ?s = nextTableID s" "wal ?s = wal s"
    by (simp_all add: bump_rows_def)
  have upd: "meta_ok (metas ?s ! q) \<and> (\<exists>n. metas ?s ! q = (metas s ! q)\<lparr>RowCount := n\<rparr>)" if "q < length (metas s)" for q
    using storage_okD(1) [OF system_invD(1) [OF inv] that] bump [of q] that system_invD(3) [OF inv] n
    by (auto simp: meta_ok_def tableZSpacing_def intro: exI [of _ "RowCount (metas s ! q)"])
  show "storage_ok b ?s"
    using storage_ok_parts(5) [OF system_invD(1) [OF inv]] upd len
    by (intro storage_ok_update [OF system_invD(1) [OF inv]]) (simp_all add: sel)
  show "air_behind b ?s" using system_invD(2) [OF inv] by (simp add: air_behind_def sel)
  show "same_tables ms ?s"
    using system_inv_table(1) [OF inv] system_invD(3) [OF inv] bump len k by (auto simp: same_tables_def)
  show "length db' = length ms" using system_invD(4) [OF inv] by (simp add: db')
  have "hole t \<noteq> Some z" if t: "t \<in> set ts" for t
  proof
    assume h: "hole t = Some z"
    have "hole_ok ms db0 db (fst t) z" "op_ok ms db0 (fst t)" using system_invD(8) [OF inv] t h by (simp_all add: thread_ok_def)
    then obtain q j where j: "q < length ms" "z = ZStart (ms ! q) + int j" "j < length (db ! q)"
      using h by (cases t; cases "fst t") auto
    have "j < 10000" using system_inv_meta(6) [OF inv j(1)] j(3) by simp
    then show False using plane_inject [OF inv j(1) p(1) _ n(1)] zn j by auto
  qed
  then show "separate hole ?ts" using i by (intro separate_update system_invD(5) [OF inv]) simp_all
  show "separate holds_lsn ?ts" using i by (intro separate_update system_invD(6) [OF inv]) (simp_all add: holds_lsn_def)
  have grow: "j < length (db' ! q) \<and> db' ! q ! j = db ! q ! j" if "q < length ms" "j < length (db ! q)" for q j
    using that p by (simp add: db' nth_list_update nth_append)
  have "db' ! p ! ?n = new_version txid vs" "?n < length (db' ! p)" using p by (simp_all add: db')
  then have "thread_ok ms db0 db' ?s b ?x"
    using ok zn system_inv_table(3) [OF inv p(1)] by (auto simp: thread_ok_def holds_lsn_def)
  then show "\<forall>t \<in> set ?ts. thread_ok ms db0 db' ?s b t"
    using grow i by (intro threads_update [OF inv i(1)]) (auto simp: sel)
  show "nextLSN (wal ?s) + int (length (filter unnumbered ?ts)) < 2 ^ 62"
    using system_invD(7) [OF inv] filter_update(1) [OF i(1), of unnumbered ?x] i(2) by (simp add: sel)
  fix q
  assume q: "q < length ms"
  show "RowCount (metas ?s ! q) = int (length (db' ! q))" "length (db0 ! q) \<le> length (db' ! q)"
    using system_inv_table(2,3) [OF inv q] bump [OF q] p by (auto simp: db' nth_list_update)
  show "int (length (db' ! q) + length (filter (waiting q) ?ts)) \<le> tableZSpacing"
    using system_inv_table(5) [OF inv q] filter_update(1) [OF i(1), of "waiting q" ?x] i(2) p by (auto simp: db' nth_list_update)
  fix j
  assume j: "j < length (db' ! q)"
  show "row_ok ms ?ts b q j (db' ! q ! j)"
  proof (cases "j < length (db ! q)")
    case True
    then show ?thesis
      using system_inv_table(4) [OF inv q True] grow [OF q True] i by (intro hole_vanishes [where b = b]) simp_all
  next
    case False
    then have "q = p" "j = ?n" using j p by (auto simp: db' nth_list_update split: if_splits)
    moreover have "?x \<in> set ?ts" using i(1) by (rule set_update_memI)
    ultimately show ?thesis
      using ok p zn version_ok_new [of txid "Columns (ms ! p)" vs] unfolding row_ok_def by (force simp: db')
  qed
qed

text \<open>A batch on the plane of one row, which the operation has not written yet or wants to change.\<close>

lemma write_step:
  assumes inv: "system_inv ms db0 db ts s b" and i: "i < length ts" "ts ! i = (op, Appended z l)"
    and p: "p < length ms" "k < length (db ! p)" "z' = ZStart (ms ! p) + int k" and hole: "hole (op, Appended z l) = None \<or> z' = z"
    and b': "\<And>x y z. z \<noteq> z' \<or> y \<noteq> tableY \<Longrightarrow> b' (x, y, z) = b (x, y, z)"
    and row: "version_ok (Columns (ms ! p)) v" "strip b' (ms ! p) z' = version_strip (Columns (ms ! p)) v"
    and keep: "length (db0 ! p) \<le> k \<Longrightarrow> v = db ! p ! k"
  shows "system_inv ms db0 (db[p := (db ! p)[k := v]]) (ts[i := (op, Written z l)]) s b'"
  unfolding system_inv_def
proof (intro conjI allI impI)
  let ?x = "(op, Written z l)" and ?db = "db[p := (db ! p)[k := v]]"
  let ?ts = "ts[i := ?x]"
  have z'0: "0 \<le> z'" using system_inv_meta(4) [OF inv p(1)] by (simp add: p(3) tableZSpacing_def)
  show "storage_ok b' s" "air_behind b' s" using frame_catalog [OF system_invD(1,2) [OF inv]] b' by simp_all
  show "same_tables ms s" "length ?db = length ms" using inv by (simp_all add: system_inv_def)
  have no_hole: "hole ?x = None" by (cases op) simp_all
  then show "separate hole ?ts" using i by (intro separate_update system_invD(5) [OF inv]) simp_all
  show "separate holds_lsn ?ts" using i by (intro separate_update system_invD(6) [OF inv]) (simp_all add: holds_lsn_def)
  have lectern: "b' (0, walY, - l) = b (0, walY, - l)" if "1 \<le> l" for l using that z'0 by (intro b') simp
  have old: "thread_ok ms db0 db s b (op, Appended z l)" using system_invD(8) [OF inv] i by (metis nth_mem)
  then have "thread_ok ms db0 ?db s b' ?x"
    using no_hole lectern [of l] by (auto simp: thread_ok_def holds_lsn_def)
  moreover have "j < length (?db ! q) \<and> ?db ! q ! j = db ! q ! j" if "length (db0 ! q) \<le> j" "j < length (db ! q)" "q < length ms" for q j
    by (cases "q = p"; cases "j = k") (use that keep system_invD(4) [OF inv] in simp_all)
  ultimately show "\<forall>t \<in> set ?ts. thread_ok ms db0 ?db s b' t"
    using lectern by (intro threads_update [OF inv i(1)]) simp_all
  show "nextLSN (wal s) + int (length (filter unnumbered ?ts)) < 2 ^ 62"
    using system_invD(7) [OF inv] filter_update(1) [OF i(1), of unnumbered ?x] i(2) by simp
  fix q
  assume q: "q < length ms"
  have len: "length (?db ! q) = length (db ! q)" by (cases "q = p") (use q system_invD(4) [OF inv] in simp_all)
  show "RowCount (metas s ! q) = int (length (?db ! q))" "length (db0 ! q) \<le> length (?db ! q)"
    using system_inv_table(2,3) [OF inv q] len by simp_all
  show "int (length (?db ! q) + length (filter (waiting q) ?ts)) \<le> tableZSpacing"
    using system_inv_table(5) [OF inv q] filter_update(1) [OF i(1), of "waiting q" ?x] i(2) len by (cases op) simp_all
  fix j
  assume "j < length (?db ! q)"
  then have j: "j < length (db ! q)" using len by simp
  show "row_ok ms ?ts b' q j (?db ! q ! j)"
  proof (cases "q = p \<and> j = k")
    case True
    then show ?thesis using row p system_invD(4) [OF inv] by (simp add: row_ok_def)
  next
    case False
    have "j < 10000" "k < 10000" using j p(2) system_inv_meta(6) [OF inv q] system_inv_meta(6) [OF inv p(1)] by simp_all
    then have ne: "ZStart (ms ! q) + int j \<noteq> z'" using plane_inject [OF inv q p(1)] False p(3) by simp
    have "?db ! q ! j = db ! q ! j" by (cases "q = p") (use False p(1) system_invD(4) [OF inv] in simp_all)
    moreover have "strip b' (ms ! q) (ZStart (ms ! q) + int j) = strip b (ms ! q) (ZStart (ms ! q) + int j)"
      using ne b' by (intro strip_planes) simp
    moreover have "hole (ts ! i) \<noteq> Some (ZStart (ms ! q) + int j)" using hole i(2) ne by (cases op) auto
    ultimately show ?thesis
      using system_inv_table(4) [OF inv q j] i(1) by (intro hole_vanishes [where b = b]) simp_all
  qed
qed

text \<open>The row of a delete exists before any of the operations starts, so it is not reserved.\<close>

lemma delete_row_strip:
  assumes inv: "system_inv ms db0 db ts s b" and ok: "op_ok ms db0 (Deleting p i txid)"
  shows "strip b (ms ! p) (ZStart (ms ! p) + int i) = version_strip (Columns (ms ! p)) (db ! p ! i)"
    "version_ok (Columns (ms ! p)) (db ! p ! i)" "i < length (db ! p)"
proof -
  have p: "p < length ms" "i < length (db0 ! p)" using ok by simp_all
  then show il: "i < length (db ! p)" using system_inv_table(3) [OF inv p(1)] by simp
  note row = system_inv_table(4) [OF inv p(1) il]
  then show "version_ok (Columns (ms ! p)) (db ! p ! i)" by (simp add: row_ok_def)
  have "hole t \<noteq> Some (ZStart (ms ! p) + int i)" if t: "t \<in> set ts" for t
  proof
    assume h: "hole t = Some (ZStart (ms ! p) + int i)"
    have "hole_ok ms db0 db (fst t) (ZStart (ms ! p) + int i)" "op_ok ms db0 (fst t)"
      using system_invD(8) [OF inv] t h by (simp_all add: thread_ok_def)
    then obtain q j where j: "q < length ms" "ZStart (ms ! p) + int i = ZStart (ms ! q) + int j" "length (db0 ! q) \<le> j" "j < length (db ! q)"
      using h by (cases t; cases "fst t") auto
    have "j < 10000" "i < 10000" using system_inv_meta(6) [OF inv j(1)] system_inv_meta(6) [OF inv p(1)] j(4) il by simp_all
    then show False using plane_inject [OF inv p(1) j(1)] j p(2) by auto
  qed
  then show "strip b (ms ! p) (ZStart (ms ! p) + int i) = version_strip (Columns (ms ! p)) (db ! p ! i)"
    using row by (auto simp: row_ok_def)
qed

lemma delete_row_blocks:
  assumes inv: "system_inv ms db0 db ts s b" and ok: "op_ok ms db0 (Deleting p i txid)"
  shows "\<exists>d. b (2, PosY (row_pos (ms ! p) i), PosZ (row_pos (ms ! p) i)) = Some d \<and> d \<noteq> []"
    "b (3, PosY (row_pos (ms ! p) i), PosZ (row_pos (ms ! p) i)) \<noteq> None"
proof -
  have "4 \<le> StripWidth (ms ! p)"
    using system_inv_meta(5) [OF inv] ok stripWidth_ge [of "Columns (ms ! p)"] by simp
  then have "b (2, PosY (row_pos (ms ! p) i), PosZ (row_pos (ms ! p) i)) = version_strip (Columns (ms ! p)) (db ! p ! i) ! 2"
    "b (3, PosY (row_pos (ms ! p) i), PosZ (row_pos (ms ! p) i)) = version_strip (Columns (ms ! p)) (db ! p ! i) ! 3"
    using delete_row_strip(1) [OF inv ok, symmetric] nth_strip [of 2 "ms ! p" b] nth_strip [of 3 "ms ! p" b] by (simp_all add: row_pos_def)
  then show "\<exists>d. b (2, PosY (row_pos (ms ! p) i), PosZ (row_pos (ms ! p) i)) = Some d \<and> d \<noteq> []"
    "b (3, PosY (row_pos (ms ! p) i), PosZ (row_pos (ms ! p) i)) \<noteq> None"
    by (simp_all add: version_strip_def xmax_data_def EncodeNull_def split: option.splits)
qed

lemma numbered_entry_ok:
  assumes inv: "system_inv ms db0 db ts s b" and t: "thread_ok ms db0 db s b (op, Placed z l)"
  shows "entry_ok (numbered (op_entry ms op z) l)"
proof -
  have l: "in_i64 l"
    using t storage_ok_parts(5) [OF system_invD(1) [OF inv]] by (auto simp: thread_ok_def holds_lsn_def lsn_ok_def in_i64_def)
  have plane: "in_i64 (ZStart (ms ! p) + int j)" "in_i64 (ID (ms ! p))" "in_i64 (YLevel (ms ! p))"
    if p: "p < length ms" "j < length (db ! p)" for p j
  proof -
    obtain n where "metas s ! p = (ms ! p)\<lparr>RowCount := n\<rparr>" using system_inv_table(1) [OF inv p(1)] by blast
    moreover have "meta_ok (metas s ! p)" using storage_okD(1) [OF system_invD(1) [OF inv]] system_invD(3) [OF inv] p(1) by simp
    ultimately show "in_i64 (ZStart (ms ! p) + int j)"
      using meta_z_range(2,3) [of "metas s ! p" "int j"] system_inv_meta(6) [OF inv p(1)] p(2) by (auto simp: in_i64_def tableZSpacing_def)
    show "in_i64 (ID (ms ! p))" "in_i64 (YLevel (ms ! p))"
      using system_inv_meta(1-3) [OF inv p(1)] by (simp_all add: in_i64_def tableY_def)
  qed
  show ?thesis
  proof (cases op)
    case (Inserting p vs txid)
    then obtain j js where "z = ZStart (ms ! p) + int j" "j < length (db ! p)" "p < length ms" "in_i64 txid" "Marshal (VMap vs) = Inr js"
      using t by (auto simp: thread_ok_def)
    then show ?thesis
      using Inserting l plane [of p j] Marshal_text [of "VMap vs" js]
      by (simp add: entry_ok_def numbered_def insert_entry_def json_of_values_def empty_entry_def in_i64_def)
  next
    case (Deleting p i txid)
    then have "op_ok ms db0 (Deleting p i txid)" using t by (simp add: thread_ok_def)
    then show ?thesis
      using Deleting l plane [of p i] delete_row_strip(3) [OF inv]
      by (simp add: entry_ok_def numbered_def delete_entry_def row_pos_def empty_entry_def) (simp add: in_i64_def)
  qed
qed

lemma inv_phase_ready:
  assumes inv: "system_inv ms db0 db ts s b" and t: "(op, ph) \<in> set ts"
  shows "phase_ready ms op ph s b"
proof -
  have ok: "thread_ok ms db0 db s b (op, ph)" using system_invD(8) [OF inv] t by blast
  then have parts: "op_ok ms db0 op" "phase_kept ms op ph b" by (simp_all add: thread_ok_def)
  show ?thesis
  proof (cases op)
    case (Inserting p vs txid)
    have "wal_pos l = (0, walY, - l)" if "phase_lsn ph = Some l" for l
      using ok that storage_ok_parts(5) [OF system_invD(1) [OF inv]] by (intro wal_pos_eq) (auto simp: thread_ok_def holds_lsn_def lsn_ok_def)
    then show ?thesis using Inserting parts system_inv_table(1) [OF inv, of p] by (cases ph) simp_all
  next
    case (Deleting p i txid)
    have "wal_pos l = (0, walY, - l)" if "phase_lsn ph = Some l" for l
      using ok that storage_ok_parts(5) [OF system_invD(1) [OF inv]] by (intro wal_pos_eq) (auto simp: thread_ok_def holds_lsn_def lsn_ok_def)
    then show ?thesis using Deleting parts delete_row_blocks(2) [OF inv] by (cases ph) simp_all
  qed
qed

subsection \<open>Schedules\<close>

fun steps_left :: "phase \<Rightarrow> nat" where
  "steps_left Begin = 8"
| "steps_left (Slotted z) = 7"
| "steps_left (Looked d) = 7"
| "steps_left (Ready z) = 6"
| "steps_left (Numbered z l) = 5"
| "steps_left (Placed z l) = 4"
| "steps_left (Appended z l) = 3"
| "steps_left (Written z l) = 2"
| "steps_left (Closing z l) = 1"
| "steps_left Finished = 0"

text \<open>The operations that have taken effect, in the order in which they did, make the database.\<close>

definition system_state :: "TableMeta list \<Rightarrow> version list list \<Rightarrow> (operation \<times> phase) list \<Rightarrow> Storage \<Rightarrow> blocks \<Rightarrow> bool" where
  "system_state ms db0 ts s b \<longleftrightarrow>
     (\<exists>hist. mset hist = mset (map fst (filter effective ts)) \<and> system_inv ms db0 (fold apply_operation hist db0) ts s b)"

lemma system_stateI:
  assumes "system_inv ms db0 db' (ts[i := (op, ph')]) s' b'" "mset hist = mset (map fst (filter effective ts))"
    "i < length ts" "ts ! i = (op, ph)"
    "db' = fold apply_operation hist db0 \<and> effective (op, ph') = effective (op, ph) \<or>
     db' = apply_operation op (fold apply_operation hist db0) \<and> effective (op, ph') \<and> \<not> effective (op, ph)"
  shows "system_state ms db0 (ts[i := (op, ph')]) s' b'"
  using assms(5)
proof
  note upd = filter_update(2) [OF assms(3), of fst effective "(op, ph')"]
  { assume h: "db' = fold apply_operation hist db0 \<and> effective (op, ph') = effective (op, ph)"
    then have "mset hist = mset (map fst (filter effective (ts[i := (op, ph')])))" using upd assms(2,4) by (simp split: if_splits)
    then show ?thesis using h assms(1) unfolding system_state_def by blast }
  assume h: "db' = apply_operation op (fold apply_operation hist db0) \<and> effective (op, ph') \<and> \<not> effective (op, ph)"
  then have "mset (hist @ [op]) = mset (map fst (filter effective (ts[i := (op, ph')])))" using upd assms(2,4) by simp
  moreover have "fold apply_operation (hist @ [op]) db0 = db'" using h by simp
  ultimately show ?thesis using assms(1) unfolding system_state_def by metis
qed

lemma put_delete_writes: "put_writes (delete_writes pos txid) b = xmax_banners (PosY pos) (PosZ pos) txid b"
  by (simp add: delete_writes_def xmax_banners_def banner_write_def split: prod.splits)

lemma insert_write_step:
  assumes inv: "system_inv ms db0 db ts s b" and i: "i < length ts" "ts ! i = (Inserting p vs txid, Appended z l)"
  shows "system_inv ms db0 db (ts[i := (Inserting p vs txid, Written z l)]) s (put_writes (row_writes (Columns (ms ! p)) vs txid (YLevel (ms ! p)) z) b)"
proof -
  have "thread_ok ms db0 db s b (Inserting p vs txid, Appended z l)" using system_invD(8) [OF inv] i by (metis nth_mem)
  then obtain k where k: "p < length ms" "k < length (db ! p)" "z = ZStart (ms ! p) + int k" "db ! p ! k = new_version txid vs"
    by (auto simp: thread_ok_def)
  note t = system_inv_meta(3,5) [OF inv k(1)]
  have "version_ok (Columns (ms ! p)) (db ! p ! k)" using system_inv_table(4) [OF inv k(1,2)] by (simp add: row_ok_def)
  moreover have "db[p := (db ! p)[k := new_version txid vs]] = db" using k(4) by (metis list_update_id)
  ultimately show ?thesis
    using write_step [OF inv i k(1-3), of "put_writes (row_writes (Columns (ms ! p)) vs txid (YLevel (ms ! p)) z) b" "db ! p ! k"]
      strip_row_writes [OF t(2)] put_row_frame t(1) k(4) by simp
qed

lemma delete_write_step:
  assumes inv: "system_inv ms db0 db ts s b" and i: "i < length ts" "ts ! i = (Deleting p k txid, Appended z l)"
  shows "system_inv ms db0 (apply_operation (Deleting p k txid) db) (ts[i := (Deleting p k txid, Written z l)]) s
    (put_writes (delete_writes (row_pos (ms ! p) k) txid) b)"
proof -
  have "thread_ok ms db0 db s b (Deleting p k txid, Appended z l)" using system_invD(8) [OF inv] i by (metis nth_mem)
  then have ok: "op_ok ms db0 (Deleting p k txid)" by (simp add: thread_ok_def)
  note row = delete_row_strip [OF inv ok]
  have p: "p < length ms" "in_i64 txid" "k < length (db0 ! p)" using ok by simp_all
  note t = system_inv_meta(3,5) [OF inv p(1)]
  have "version_ok (Columns (ms ! p)) (delete_version txid (db ! p ! k))"
    using row(2) p(2) by (simp add: version_ok_def delete_version_def)
  moreover have "put_writes (delete_writes (row_pos (ms ! p) k) txid) b (x, y, z) = b (x, y, z)"
    if "z \<noteq> ZStart (ms ! p) + int k \<or> y \<noteq> tableY" for x y z
    using that t(1) by (auto simp: put_delete_writes row_pos_def xmax_banners_apply)
  moreover have "strip (put_writes (delete_writes (row_pos (ms ! p) k) txid) b) (ms ! p) (ZStart (ms ! p) + int k) =
      version_strip (Columns (ms ! p)) (delete_version txid (db ! p ! k))"
    using strip_xmax_banners [OF t(2) row(1), of txid] by (simp add: put_delete_writes row_pos_def)
  ultimately show ?thesis
    unfolding apply_operation.simps using p(3) by (intro write_step [OF inv i p(1) row(3) refl]) simp_all
qed

lemma system_step:
  assumes st: "system_state ms db0 ts s b" and i: "i < length ts" "ts ! i = (op, ph)" and nx: "next_phase ms op ph s b = (ph', s', b')"
  shows "system_state ms db0 (ts[i := (op, ph')]) s' b'" "steps_left ph' = steps_left ph - 1"
proof -
  obtain hist where hist: "mset hist = mset (map fst (filter effective ts))" and inv: "system_inv ms db0 (fold apply_operation hist db0) ts s b"
    (is "system_inv ms db0 ?db ts s b") using st by (auto simp: system_state_def)
  have t: "thread_ok ms db0 ?db s b (op, ph)" using system_invD(8) [OF inv] i by (metis nth_mem)
  then have kept: "phase_kept ms op ph b" "op_ok ms db0 op" by (simp_all add: thread_ok_def)
  have pos: "wal_pos l = (0, walY, - l)" if "phase_lsn ph = Some l" for l
    using t that storage_ok_parts(5) [OF system_invD(1) [OF inv]] by (intro wal_pos_eq) (auto simp: thread_ok_def holds_lsn_def lsn_ok_def)
  have quiet: "system_state ms db0 (ts[i := (op, ph')]) s' b'"
    if "s' = s" "hole (op, ph') = hole (op, ph)" "phase_lsn ph' = None \<or> phase_lsn ph' = phase_lsn ph" "unnumbered (op, ph') = unnumbered (op, ph)"
      "\<And>p. waiting p (op, ph') = waiting p (op, ph)" "effective (op, ph') = effective (op, ph)" "phase_kept ms op ph' b'"
      "\<And>x y z. 0 \<le> z \<or> y = catalogY \<Longrightarrow> b' (x, y, z) = b (x, y, z)" "\<And>l. phase_lsn ph \<noteq> Some l \<Longrightarrow> b' (0, walY, - l) = b (0, walY, - l)"
    using system_stateI [OF quiet_step [OF inv i that(2-5,7-9)] hist i] that(1,6) by simp
  have lsn: "1 \<le> l" if "phase_lsn ph = Some l" for l using t that by (simp add: thread_ok_def holds_lsn_def)
  show "steps_left ph' = steps_left ph - 1" using nx kept(1) by (cases op; cases ph) auto
  show "system_state ms db0 (ts[i := (op, ph')]) s' b'"
  proof (cases ph)
    case Begin
    show ?thesis
    proof (cases op)
      case (Inserting p vs txid)
      note i' = i(2) [unfolded Inserting Begin]
      show ?thesis using system_stateI [OF reserve_step [OF inv i(1) i' refl refl] hist i(1) i'] Inserting Begin nx by simp
    next
      case (Deleting p k txid)
      then obtain d where "b (2, PosY (row_pos (ms ! p) k), PosZ (row_pos (ms ! p) k)) = Some d" "d \<noteq> []"
        using delete_row_blocks(1) [OF inv] kept(2) by blast
      then have "ph' = Looked (Some d)" "s' = s" "b' = b" "d \<noteq> []" using Deleting Begin nx by auto
      then show ?thesis
        using Deleting Begin by (intro quiet) (simp_all add: slice_string_def slice_bytes_def string_of_bytes_def)
    qed
  next
    case (Slotted z)
    then have "ph' = Ready z" "s' = s" "b' = b" using nx by (cases op; simp)+
    then show ?thesis using Slotted kept by (intro quiet; cases op; simp)
  next
    case (Looked d)
    then have "\<exists>z. ph' = Ready z" "s' = s" "b' = b" using nx kept by (cases op; auto)+
    then obtain z where "ph' = Ready z" "s' = s" "b' = b" by blast
    then show ?thesis using Looked kept by (intro quiet; cases op; simp)
  next
    case (Ready z)
    note i' = i(2) [unfolded Ready]
    show ?thesis using system_stateI [OF number_step [OF inv i(1) i'] hist i(1) i'] Ready nx by (cases op) simp_all
  next
    case (Numbered z l)
    then have "ph' = Placed z l" "s' = s" "b' = b" using nx by (cases op; simp)+
    then show ?thesis using Numbered by (intro quiet; cases op; simp)
  next
    case (Placed z l)
    then have eq: "ph' = Appended z l" "s' = s"
      "b' = put_block (0, walY, - l) (bytes_of_string (book_of (numbered (op_entry ms op z) l) ''PENDING'')) b"
      using nx pos [of l] by (cases op; simp)+
    have e: "entry_ok (numbered (op_entry ms op z) l)" using numbered_entry_ok [OF inv] t Placed by simp
    have "phase_kept ms op (Appended z l) b'" using e eq(3) by (cases op) simp_all
    then show ?thesis
      using eq Placed lsn [of l] by (intro quiet; cases op; auto simp: put_block_apply)
  next
    case (Appended z l)
    show ?thesis
    proof (cases op)
      case (Inserting p vs txid)
      note i' = i(2) [unfolded Inserting Appended]
      show ?thesis using system_stateI [OF insert_write_step [OF inv i(1) i'] hist i(1) i'] Inserting Appended nx by simp
    next
      case (Deleting p k txid)
      note i' = i(2) [unfolded Deleting Appended]
      show ?thesis using system_stateI [OF delete_write_step [OF inv i(1) i'] hist i(1) i'] Deleting Appended nx by simp
    qed
  next
    case (Written z l)
    then have "ph' = Closing z l" "s' = s" "b' = b" using nx by (cases op; simp)+
    then show ?thesis using Written by (intro quiet; cases op; simp)
  next
    case (Closing z l)
    then have eq: "ph' = Finished" "s' = s"
      "b' = put_block (0, walY, - l) (bytes_of_string (book_of (numbered (op_entry ms op z) l) ''COMMITTED'')) b"
      using nx pos [of l] by (cases op; simp)+
    then show ?thesis using Closing lsn [of l] by (intro quiet; cases op; auto simp: put_block_apply)
  next
    case Finished
    then have "ph' = Finished" "s' = s" "b' = b" using nx by (cases op; simp)+
    then show ?thesis using Finished by (intro quiet; cases op; simp)
  qed
qed

abbreviation processes :: "TableMeta list \<Rightarrow> (operation \<times> phase) list \<Rightarrow> ('e, 'e storage_error + unit) process list" where
  "processes ms ts \<equiv> map (\<lambda>(op, ph). proc_at ms op ph) ts"

context hal_reliable
begin

lemma schedule_run:
  "system_state ms db0 ts s (blocks w) \<Longrightarrow> world_ok w \<Longrightarrow>
   \<exists>ts' s' w'. run_schedule h sched (processes ms ts) s w = (processes ms ts', s', w') \<and> world_ok w' \<and>
     system_state ms db0 ts' s' (blocks w') \<and> map fst ts' = map fst ts \<and>
     (\<forall>i < length ts. steps_left (snd (ts' ! i)) = steps_left (snd (ts ! i)) - count_list sched i)"
proof (induction sched arbitrary: ts s w)
  case (Cons i sched)
  show ?case
  proof (cases "i < length ts")
    case True
    obtain op ph where t: "ts ! i = (op, ph)" by fastforce
    obtain ph' s1 b1 where nx: "next_phase ms op ph s (blocks w) = (ph', s1, b1)" using prod_cases3 by blast
    note st = system_step [OF Cons.prems(1) True t nx]
    obtain hist where "system_inv ms db0 (fold apply_operation hist db0) ts s (blocks w)"
      using Cons.prems(1) by (auto simp: system_state_def)
    then have "phase_ready ms op ph s (blocks w)" using True t by (metis inv_phase_ready nth_mem)
    then have adv: "advance_blocks (proc_at ms op ph) s (blocks w) = (proc_at ms op ph', s1, b1)" by (simp add: advance_phase nx)
    obtain w1 where w1: "advance h (proc_at ms op ph) s w = (proc_at ms op ph', s1, w1)" "world_ok w1" "blocks w1 = b1"
      by (rule advance_run [OF Cons.prems(2), of "proc_at ms op ph" s]) (simp add: adv)
    let ?ts = "ts[i := (op, ph')]"
    obtain ts' s' w' where r: "run_schedule h sched (processes ms ?ts) s1 w1 = (processes ms ts', s', w')" "world_ok w'"
      "system_state ms db0 ts' s' (blocks w')" "map fst ts' = map fst ?ts"
      "\<forall>i < length ?ts. steps_left (snd (ts' ! i)) = steps_left (snd (?ts ! i)) - count_list sched i"
      using Cons.IH [of ?ts s1 w1] st(1) w1(2,3) by auto
    have "run_schedule h (i # sched) (processes ms ts) s w = (processes ms ts', s', w')"
      using True t w1(1) r(1) by (simp add: map_update)
    moreover have "map fst ts' = map fst ts" using r(4) True t by (simp add: map_update) (metis fst_conv list_update_id map_update nth_map)
    moreover have "steps_left (snd (ts' ! k)) = steps_left (snd (ts ! k)) - count_list (i # sched) k" if "k < length ts" for k
      using r(5) st(2) t that by (auto simp: nth_list_update)
    ultimately show ?thesis using r(2,3) by blast
  next
    case False
    moreover obtain ts' s' w' where r: "run_schedule h sched (processes ms ts) s w = (processes ms ts', s', w')" "world_ok w'"
      "system_state ms db0 ts' s' (blocks w')" "map fst ts' = map fst ts"
      "\<forall>i < length ts. steps_left (snd (ts' ! i)) = steps_left (snd (ts ! i)) - count_list sched i"
      using Cons.IH [OF Cons.prems] by blast
    ultimately show ?thesis by (intro exI [of _ ts'] exI [of _ s'] exI [of _ w']) auto
  qed
qed auto

end

text \<open>How many of the operations insert into a table.\<close>

fun inserts_into :: "nat \<Rightarrow> operation \<Rightarrow> bool" where
  "inserts_into q (Inserting p vs txid) = (p = q)"
| "inserts_into q (Deleting p i txid) = False"

lemma system_start:
  assumes rel: "state_rel b db s" and ops: "\<And>op. op \<in> set ops \<Longrightarrow> op_ok (metas s) db op"
    and room: "\<And>p. p < length db \<Longrightarrow> length (db ! p) + length (filter (inserts_into p) ops) \<le> 10000"
    and lsn: "nextLSN (wal s) + int (length ops) < 2 ^ 62"
  shows "system_state (metas s) db (map (\<lambda>op. (op, Begin)) ops) s b"
proof -
  let ?ts = "map (\<lambda>op. (op, Begin)) ops"
  have r: "storage_ok b s" "air_behind b s" "length db = length (metas s)"
    "\<And>p. p < length db \<Longrightarrow> table_repr b (metas s ! p) (db ! p)"
    using rel by (simp_all add: state_rel_def db_repr_def)
  have none: "hole (op, Begin) = None" "holds_lsn (op, Begin) = None" "\<not> effective (op, Begin)" "unnumbered (op, Begin)" for op
    by (cases op; simp add: holds_lsn_def)+
  have "waiting p (op, Begin) = inserts_into p op" for p op by (cases op) simp_all
  then have wait: "length (filter (waiting p) ?ts) = length (filter (inserts_into p) ops)" for p
    by (induction ops) simp_all
  have full: "int (length (db ! p) + length (filter (waiting p) ?ts)) \<le> tableZSpacing" if "p < length db" for p
    unfolding wait tableZSpacing_def using room [OF that] by linarith
  have "thread_ok (metas s) db db s b t" if t: "t \<in> set ?ts" for t
  proof -
    obtain op where op: "t = (op, Begin)" "op \<in> set ops" using t by auto
    then show ?thesis using ops [OF op(2)] none(1,2) by (cases op) (auto simp: thread_ok_def)
  qed
  moreover have "row_ok (metas s) ?ts b p j (db ! p ! j)" if "p < length db" "j < length (db ! p)" for p j
    using r(4) [OF that(1)] that(2) by (simp add: row_ok_def table_repr_def)
  moreover have "separate hole ?ts" "separate holds_lsn ?ts" using none by (simp_all add: separate_def)
  moreover have "filter unnumbered ?ts = ?ts" by (induction ops) simp_all
  moreover have "\<exists>n. t = t\<lparr>RowCount := n\<rparr>" for t :: TableMeta by (rule exI [of _ "RowCount t"]) simp
  then have "same_tables (metas s) s" by (simp add: same_tables_def)
  ultimately have "system_inv (metas s) db db ?ts s b"
    using r full lsn unfolding system_inv_def by (auto simp: table_repr_def)
  moreover have "filter effective ?ts = []" using none by (induction ops) simp_all
  ultimately show ?thesis unfolding system_state_def by (intro exI [of _ "[]"]) simp
qed

lemma system_finish:
  assumes "system_state ms db ts s b" "\<And>t. t \<in> set ts \<Longrightarrow> snd t = Finished"
  shows "\<exists>order. mset order = mset (map fst ts) \<and> state_rel b (fold apply_operation order db) s"
proof -
  obtain order where order: "mset order = mset (map fst (filter effective ts))"
    and inv: "system_inv ms db (fold apply_operation order db) ts s b" (is "system_inv ms db ?db ts s b")
    using assms(1) by (auto simp: system_state_def)
  have "effective t" if "t \<in> set ts" for t
    using assms(2) [OF that] by (cases t; cases "fst t") auto
  then have "filter effective ts = ts" by simp
  moreover have "table_repr b (metas s ! p) (?db ! p)" if p: "p < length ms" for p
  proof -
    have "hole t = None" if "t \<in> set ts" for t using assms(2) [OF that] by (cases t; cases "fst t") auto
    then have row: "row_ok ms [] b p j (?db ! p ! j)" if "j < length (?db ! p)" for j
      using system_inv_table(4) [OF inv p that] unfolding row_ok_def by auto
    obtain n where "metas s ! p = (ms ! p)\<lparr>RowCount := n\<rparr>" using system_inv_table(1) [OF inv p] by blast
    then show ?thesis
      using system_inv_table(2) [OF inv p] row by (simp add: table_repr_def row_ok_def strip_def)
  qed
  ultimately show ?thesis
    using order system_invD(1-4) [OF inv] by (intro exI [of _ order]) (simp add: state_rel_def db_repr_def)
qed

subsection \<open>Properties\<close>

text \<open>
  Property C4: operations of several connections at the same time are serializable. Take a
  state that represents a database, any number of inserts (into tables with room) and deletes of rows of the
  database, and any interleaving of their calls and locked sections that lets each of them finish (eight actions
  each are enough). Then every operation succeeds, and the final state represents the database that the operations make when they
  are executed one after the other in some order: no row is lost, overwritten or torn.
\<close>

theorem concurrent_operations_serialize:
  assumes "hal_reliable h blocks ok" "ok w" "state_rel (blocks w) db s"
    "list_all (op_ok (metas s) db) ops" "nextLSN (wal s) + int (length ops) < 2 ^ 62"
    "\<And>p. p < length db \<Longrightarrow> length (db ! p) + length (filter (inserts_into p) ops) \<le> 10000"
    "\<And>i. i < length ops \<Longrightarrow> 8 \<le> count_list sched i"
  shows "\<exists>order s' w'. mset order = mset ops \<and>
    run_schedule h sched (map (operation_process (metas s)) ops) s w = (map (\<lambda>_. Return (Inr ())) ops, s', w') \<and>
    ok w' \<and> state_rel (blocks w') (fold apply_operation order db) s'"
proof -
  let ?ts = "map (\<lambda>op. (op, Begin)) ops"
  have start: "system_state (metas s) db ?ts s (blocks w)"
    using assms(4) by (intro system_start [OF assms(3) _ assms(6,5)]) (simp add: list_all_iff)
  obtain ts s' w' where r: "run_schedule h sched (processes (metas s) ?ts) s w = (processes (metas s) ts, s', w')" "ok w'"
    "system_state (metas s) db ts s' (blocks w')" "map fst ts = map fst ?ts"
    "\<forall>i < length ?ts. steps_left (snd (ts ! i)) = steps_left (snd (?ts ! i)) - count_list sched i"
    using hal_reliable.schedule_run [OF assms(1) start assms(2)] by blast
  have len: "length ts = length ops" using arg_cong [OF r(4), of length] by simp
  have zero: "ph = Finished" if "steps_left ph = 0" for ph using that by (cases ph) simp_all
  have fin: "snd t = Finished" if "t \<in> set ts" for t
    using that r(5) assms(7) len by (auto simp: in_set_conv_nth intro!: zero)
  then have "processes (metas s) ts = map (\<lambda>_. Return (Inr ())) ops"
    by (intro nth_equalityI) (auto simp: len case_prod_unfold)
  moreover have "processes (metas s) ?ts = map (operation_process (metas s)) ops" by simp
  moreover have "map fst ts = ops" using r(4) by (simp add: comp_def)
  ultimately show ?thesis using r(1,2) system_finish [OF r(3) fin] by metis
qed

theorem concurrent_operations_serialize_witness:
  "\<exists>s w order s' w'. mset order = {#Inserting 0 sample_values 2, Deleting 0 0 3, Inserting 0 sample_values 4#} \<and>
    run_schedule (mock_hal :: (mock, unit) hal) (concat (replicate 8 [2, 1, 0]))
      (map (operation_process (metas s)) [Inserting 0 sample_values 2, Deleting 0 0 3, Inserting 0 sample_values 4]) s w =
      ([Return (Inr ()), Return (Inr ()), Return (Inr ())], s', w') \<and>
    state_rel (mock_blocks w') (fold apply_operation order [[new_version 1 sample_values]]) s'"
proof -
  obtain s w where t: "mock_ok w" "state_rel (mock_blocks w) [[new_version 1 sample_values]] s"
    "nextLSN (wal s) = 2" "length (metas s) = 1" "Columns (metas s ! 0) = sample_columns"
    by (rule sample_row) blast
  obtain js where js: "Marshal (VMap sample_values) = Inr js"
    using sample_marshal by (cases "Marshal (VMap sample_values)") auto
  let ?ops = "[Inserting 0 sample_values 2, Deleting 0 0 3, Inserting 0 sample_values 4]"
  have ok: "list_all (op_ok (metas s) [[new_version 1 sample_values]]) ?ops"
    using t js sample_storable by (simp add: in_i64_def)
  have cnt: "8 \<le> count_list (concat (replicate 8 [2, 1, 0])) i" if i: "i < length ?ops" for i :: nat
  proof -
    consider "i = 0" | "i = 1" | "i = 2" using i by (auto simp: less_Suc_eq)
    then show ?thesis by cases (simp_all add: numeral_eq_Suc)
  qed
  have "\<exists>order s' w'. mset order = mset ?ops \<and>
      run_schedule (mock_hal :: (mock, unit) hal) (concat (replicate 8 [2, 1, 0])) (map (operation_process (metas s)) ?ops) s w =
        (map (\<lambda>_. Return (Inr ())) ?ops, s', w') \<and> mock_ok w' \<and>
      state_rel (mock_blocks w') (fold apply_operation order [[new_version 1 sample_values]]) s'"
    by (rule concurrent_operations_serialize [OF mock.hal_reliable_axioms t(1,2) ok _ _ cnt]) (use t(3) in simp_all)
  then show ?thesis by (simp add: add_mset_commute) blast
qed

end
