(* ===== verification/Schedule.thy ===== *)
theory Schedule
  imports Sql Concurrent
begin

text \<open>
  A \<open>DELETE\<close> runs two goroutines: the one \<open>SeqScan\<close> starts sends the visible rows on a channel of capacity 100, and the loop
  of \<open>executeDelete\<close> takes them from the channel and marks those that satisfy the conditions. This theory models
  both as they are, with the channel, down to single calls of the storage interface, and a schedule that says which of the two moves next. A goroutine
  that cannot move (the channel is full, or empty and still open) stays where it is.
\<close>

datatype 'e scanner =
    Scanning int "('e, 'e ScanResult option) process"
  | Sending int "'e ScanResult"
  | Closed

datatype 'e consumer =
    Receiving int
  | Marking int "('e, 'e storage_error + unit) process"
  | Answered "'e storage_error + int"

record ('w, 'e) delete_state =
  scanner :: "'e scanner"
  channel :: "'e ScanResult list"
  consumer :: "'e consumer"
  store :: Storage
  world :: 'w

definition channelCapacity :: nat where
  "channelCapacity = 100"

definition scan_from :: "(int \<Rightarrow> bool) \<Rightarrow> TableMeta \<Rightarrow> int \<Rightarrow> int \<Rightarrow> int \<Rightarrow> 'e scanner" where
  "scan_from halt table txid rowCount ri =
     (if ri < rowCount then if halt ri then Closed else Scanning ri (scan_process table txid ri) else Closed)"

definition scanner_step ::
  "('w, 'e) hal \<Rightarrow> (int \<Rightarrow> bool) \<Rightarrow> TableMeta \<Rightarrow> int \<Rightarrow> int \<Rightarrow> ('w, 'e) delete_state \<Rightarrow> ('w, 'e) delete_state" where
  "scanner_step h halt table txid rowCount d =
     (case scanner d of
        Scanning ri (Return None) \<Rightarrow> d\<lparr>scanner := scan_from halt table txid rowCount (ri + 1)\<rparr>
      | Scanning ri (Return (Some r)) \<Rightarrow> d\<lparr>scanner := Sending ri r\<rparr>
      | Scanning ri p \<Rightarrow>
          (case advance h p (store d) (world d) of (q, s, w) \<Rightarrow> d\<lparr>scanner := Scanning ri q, store := s, world := w\<rparr>)
      | Sending ri r \<Rightarrow>
          if length (channel d) < channelCapacity
          then d\<lparr>channel := channel d @ [r],
                 scanner := (case r of ScanErr _ \<Rightarrow> Closed | ScanRow _ \<Rightarrow> scan_from halt table txid rowCount (ri + 1))\<rparr>
          else d
      | Closed \<Rightarrow> d)"

definition consumer_step ::
  "('w, 'e) hal \<Rightarrow> Condition list \<Rightarrow> int gomap \<Rightarrow> int \<Rightarrow> ('w, 'e) delete_state \<Rightarrow> ('w, 'e) delete_state" where
  "consumer_step h conds colMap txid d =
     (case consumer d of
        Receiving deleted \<Rightarrow>
          (case channel d of
             [] \<Rightarrow> if scanner d = Closed then d\<lparr>consumer := Answered (Inr deleted)\<rparr> else d
           | ScanErr err # rs \<Rightarrow> d\<lparr>channel := rs, consumer := Answered (Inl err)\<rparr>
           | ScanRow row # rs \<Rightarrow>
               d\<lparr>channel := rs,
                 consumer :=
                   (if \<not> evaluateWhere row conds colMap then Receiving deleted
                    else
                      (case rowBlockPos row of
                         None \<Rightarrow> Receiving deleted
                       | Some pos \<Rightarrow> Marking deleted (MarkDeleted_process pos txid)))\<rparr>)
      | Marking deleted (Return (Inl err)) \<Rightarrow> d\<lparr>consumer := Answered (Inl err)\<rparr>
      | Marking deleted (Return (Inr _)) \<Rightarrow> d\<lparr>consumer := Receiving (deleted + 1)\<rparr>
      | Marking deleted p \<Rightarrow>
          (case advance h p (store d) (world d) of (q, s, w) \<Rightarrow> d\<lparr>consumer := Marking deleted q, store := s, world := w\<rparr>)
      | Answered _ \<Rightarrow> d)"

definition delete_start :: "(int \<Rightarrow> bool) \<Rightarrow> TableMeta \<Rightarrow> int \<Rightarrow> int \<Rightarrow> Storage \<Rightarrow> 'w \<Rightarrow> ('w, 'e) delete_state" where
  "delete_start halt table txid rowCount s w =
     \<lparr>scanner = scan_from halt table txid rowCount 0, channel = [], consumer = Receiving 0, store = s, world = w\<rparr>"

text \<open>\<open>True\<close> lets the scanning goroutine move, \<open>False\<close> the loop over the channel.\<close>

fun delete_schedule ::
  "('w, 'e) hal \<Rightarrow> (int \<Rightarrow> bool) \<Rightarrow> TableMeta \<Rightarrow> Condition list \<Rightarrow> int gomap \<Rightarrow> int \<Rightarrow> int \<Rightarrow> bool list \<Rightarrow> ('w, 'e) delete_state
     \<Rightarrow> ('w, 'e) delete_state" where
  "delete_schedule h halt table conds colMap txid rowCount [] d = d"
| "delete_schedule h halt table conds colMap txid rowCount (m # sched) d =
     delete_schedule h halt table conds colMap txid rowCount sched
       (if m then scanner_step h halt table txid rowCount d else consumer_step h conds colMap txid d)"

subsection \<open>Rows seen and rows marked\<close>

definition seen :: "int \<Rightarrow> version list \<Rightarrow> nat \<Rightarrow> nat list" where
  "seen txid vs k = filter (\<lambda>i. visible txid (vs ! i)) [0..<k]"

lemma seen_Suc: "seen txid vs (Suc k) = seen txid vs k @ (if visible txid (vs ! k) then [k] else [])"
  by (simp add: seen_def)

lemma seen_0 [simp]: "seen txid vs 0 = []"
  by (simp add: seen_def)

lemma seen_facts: "distinct (seen txid vs k)" "i \<in> set (seen txid vs k) \<longleftrightarrow> i < k \<and> visible txid (vs ! i)" "length (seen txid vs k) \<le> k"
  using length_filter_le [of "\<lambda>i. visible txid (vs ! i)" "[0..<k]"] by (auto simp: seen_def)

definition mark_rows :: "int \<Rightarrow> ColumnDef list \<Rightarrow> Condition list \<Rightarrow> nat list \<Rightarrow> version list \<Rightarrow> version list" where
  "mark_rows txid cols conds is vs =
     map (\<lambda>j. if j \<in> set is \<and> satisfies cols conds (vs ! j) then delete_version txid (vs ! j) else vs ! j) [0..<length vs]"

lemma mark_rows_simps [simp]:
  "length (mark_rows txid cols conds is vs) = length vs" "mark_rows txid cols conds [] vs = vs"
  "j < length vs \<Longrightarrow> j \<notin> set is \<Longrightarrow> mark_rows txid cols conds is vs ! j = vs ! j"
  by (simp_all add: mark_rows_def map_nth)

lemma mark_rows_snoc:
  assumes "i < length vs" "i \<notin> set is"
  shows "mark_rows txid cols conds (is @ [i]) vs =
    (if satisfies cols conds (vs ! i) then (mark_rows txid cols conds is vs)[i := delete_version txid (vs ! i)] else mark_rows txid cols conds is vs)"
  using assms by (intro nth_equalityI) (auto simp: mark_rows_def nth_list_update)

lemma mark_rows_seen: "mark_rows txid cols conds (seen txid vs (length vs)) vs = map (delete_matching txid cols conds) vs"
  by (intro nth_equalityI) (simp_all add: mark_rows_def seen_facts delete_matching_def)

definition hits :: "ColumnDef list \<Rightarrow> Condition list \<Rightarrow> version list \<Rightarrow> nat list \<Rightarrow> int" where
  "hits cols conds vs is = int (length (filter (\<lambda>i. satisfies cols conds (vs ! i)) is))"

lemma hits_seen: "hits cols conds vs (seen txid vs (length vs)) = int (matching txid cols conds vs)"
proof -
  have "length (filter (\<lambda>v. visible txid v \<and> satisfies cols conds v) vs) =
      length (filter ((\<lambda>v. visible txid v \<and> satisfies cols conds v) \<circ> (!) vs) [0..<length vs])"
    by (metis length_map filter_map map_nth)
  then show ?thesis by (simp add: hits_def matching_def seen_def filter_filter comp_def conj_commute)
qed

definition row_msg :: "TableMeta \<Rightarrow> version list \<Rightarrow> nat \<Rightarrow> 'e ScanResult" where
  "row_msg t vs i = ScanRow (located t (ZStart t + int i) (version_row (Columns t) (vs ! i)))"

lemma scan_decode_version:
  assumes "version_ok (Columns t) v"
  shows "scan_decode t txid z (version_strip (Columns t) v) =
    (if visible txid v then Some (located t z (version_row (Columns t) v)) else None)"
  using assms by (simp add: scan_decode_def decodeStrip_version located_def)

subsection \<open>The invariant\<close>

text \<open>
  The scanning goroutine at row \<open>k\<close>: about to load the chunk (4), about to read the row (3), with what it has to send (2),
  and sending (1).
\<close>

definition scanner_at :: "TableMeta \<Rightarrow> int \<Rightarrow> version list \<Rightarrow> nat \<Rightarrow> nat \<Rightarrow> 'e scanner" where
  "scanner_at t txid vs k j =
     (if length vs \<le> k then Closed
      else if j = 4 then Scanning (int k) (scan_process t txid (int k))
      else if j = 3 then Scanning (int k) (scan_read t txid (ZStart t + int k))
      else if j = 2 then Scanning (int k) (Return (if visible txid (vs ! k) then Some (row_msg t vs k) else None))
      else Sending (int k) (row_msg t vs k))"

text \<open>
  The loop over the channel while it marks row \<open>i\<close>, with the rows \<open>rs\<close> behind it and at most \<open>q\<close> more to come; the last argument bounds the
  moves it can still make.
\<close>

definition marking_at ::
  "TableMeta list \<Rightarrow> version list list \<Rightarrow> nat \<Rightarrow> int \<Rightarrow> Condition list \<Rightarrow> nat list \<Rightarrow> nat \<Rightarrow> nat \<Rightarrow> int
     \<Rightarrow> ('e, 'e storage_error + unit) process \<Rightarrow> Storage \<Rightarrow> blocks \<Rightarrow> nat \<Rightarrow> bool" where
  "marking_at ms db p txid conds rs i q c pr s b r \<longleftrightarrow>
     satisfies (Columns (ms ! p)) conds (db ! p ! i) \<and> c = hits (Columns (ms ! p)) conds (db ! p) rs \<and> metas s = ms \<and>
     (\<exists>ph. pr = proc_at ms (Deleting p i txid) ph \<and>
        system_state ms (db[p := mark_rows txid (Columns (ms ! p)) conds rs (db ! p)]) [(Deleting p i txid, ph)] s b \<and>
        nextLSN (wal s) + (if unnumbered (Deleting p i txid, ph) then 1 else 0) + int q < 2 ^ 62 \<and> r = 10 * q + 2 + steps_left ph)"

text \<open>The loop after \<open>m\<close> of the rows \<open>is\<close> sent so far.\<close>

fun consumer_ok ::
  "TableMeta list \<Rightarrow> version list list \<Rightarrow> nat \<Rightarrow> int \<Rightarrow> Condition list \<Rightarrow> nat list \<Rightarrow> nat \<Rightarrow> 'e consumer \<Rightarrow> Storage \<Rightarrow> blocks \<Rightarrow> nat \<Rightarrow> bool" where
  "consumer_ok ms db p txid conds is m (Receiving c) s b r \<longleftrightarrow>
     c = hits (Columns (ms ! p)) conds (db ! p) (take m is) \<and>
     state_rel b (db[p := mark_rows txid (Columns (ms ! p)) conds (take m is) (db ! p)]) s \<and> metas s = ms \<and>
     nextLSN (wal s) + int (length (db ! p) - m) < 2 ^ 62 \<and> r = 10 * (length (db ! p) - m) + 1"
| "consumer_ok ms db p txid conds is m (Marking c pr) s b r \<longleftrightarrow>
     0 < m \<and> m \<le> length is \<and> marking_at ms db p txid conds (take (m - 1) is) (is ! (m - 1)) (length (db ! p) - m) c pr s b r"
| "consumer_ok ms db p txid conds is m (Answered a) s b r \<longleftrightarrow>
     a = Inr (hits (Columns (ms ! p)) conds (db ! p) is) \<and> m = length is \<and>
     state_rel b (db[p := mark_rows txid (Columns (ms ! p)) conds is (db ! p)]) s \<and> r = 0"

definition answered :: "('w, 'e) delete_state \<Rightarrow> bool" where
  "answered d \<longleftrightarrow> (\<exists>a. consumer d = Answered a)"

definition delete_inv ::
  "TableMeta list \<Rightarrow> version list list \<Rightarrow> nat \<Rightarrow> int \<Rightarrow> Condition list \<Rightarrow> ('w \<Rightarrow> blocks) \<Rightarrow> ('w \<Rightarrow> bool) \<Rightarrow> nat \<Rightarrow> ('w, 'e) delete_state \<Rightarrow> bool" where
  "delete_inv ms db p txid conds blocks ok r d \<longleftrightarrow>
     (\<exists>k j m rc. k \<le> length (db ! p) \<and> j \<in> {1..4} \<and> (j = 1 \<longrightarrow> k < length (db ! p) \<longrightarrow> visible txid (db ! p ! k)) \<and>
        scanner d = scanner_at (ms ! p) txid (db ! p) k j \<and> m \<le> length (seen txid (db ! p) k) \<and>
        channel d = map (row_msg (ms ! p) (db ! p)) (drop m (seen txid (db ! p) k)) \<and>
        consumer_ok ms db p txid conds (seen txid (db ! p) k) m (consumer d) (store d) (blocks (world d)) rc \<and>
        (answered d \<longrightarrow> k = length (db ! p)) \<and> ok (world d) \<and>
        r = (if k < length (db ! p) then 4 * (length (db ! p) - k - 1) + j else 0) + rc)"

lemma state_rel_table:
  assumes "state_rel b db s" "p < length db"
  shows "meta_ok (metas s ! p)" "table_repr b (metas s ! p) (db ! p)" "p < length (metas s)" "length (db ! p) \<le> 10000"
proof -
  show p: "p < length (metas s)" using assms by (auto simp: state_rel_def db_repr_def)
  show m: "meta_ok (metas s ! p)" using assms(1) p storage_okD(1) by (auto simp: state_rel_def)
  show t: "table_repr b (metas s ! p) (db ! p)" using assms by (auto simp: state_rel_def db_repr_def)
  show "length (db ! p) \<le> 10000" using m t by (simp add: meta_ok_def table_repr_def tableZSpacing_def)
qed

text \<open>A single delete in progress: what it has made of the rows, and the rows it has nothing to do with.\<close>

lemma single_delete:
  assumes "system_state ms db [(Deleting p i txid, ph)] s b"
  obtains db' where "system_inv ms db db' [(Deleting p i txid, ph)] s b" "db' = db \<or> db' = apply_operation (Deleting p i txid) db"
proof -
  obtain hist where h: "mset hist = mset (map fst (filter effective [(Deleting p i txid, ph)]))"
    "system_inv ms db (fold apply_operation hist db) [(Deleting p i txid, ph)] s b" using assms by (auto simp: system_state_def)
  then have "hist = [] \<or> hist = [Deleting p i txid]" by (cases "effective (Deleting p i txid, ph)") simp_all
  with h(2) that show thesis by auto
qed

lemma consumer_row:
  assumes co: "consumer_ok ms db p txid conds (seen txid (db ! p) k) m co s b rc" "\<And>a. co \<noteq> Answered a" and k: "k < length (db ! p)" and p: "p < length db"
  shows "strip b (ms ! p) (ZStart (ms ! p) + int k) = version_strip (Columns (ms ! p)) (db ! p ! k)" "version_ok (Columns (ms ! p)) (db ! p ! k)"
    "wrap64 (ZStart (ms ! p) + int k) = ZStart (ms ! p) + int k"
proof -
  have fresh: "k \<notin> set (take n (seen txid (db ! p) k))" for n by (meson in_set_takeD less_irrefl seen_facts(2))
  have "strip b (ms ! p) (ZStart (ms ! p) + int k) = version_strip (Columns (ms ! p)) (db ! p ! k) \<and> version_ok (Columns (ms ! p)) (db ! p ! k) \<and>
    meta_ok (ms ! p) \<and> k < 10000"
  proof (cases co)
    case (Receiving c)
    let ?db = "db[p := mark_rows txid (Columns (ms ! p)) conds (take m (seen txid (db ! p) k)) (db ! p)]"
    have "state_rel b ?db s" "metas s = ms" using co(1) Receiving by simp_all
    from state_rel_table [OF this(1), of p] this(2) show ?thesis using p k fresh by (auto simp: table_repr_def dest!: spec [of _ k])
  next
    case (Marking c pr)
    let ?i = "seen txid (db ! p) k ! (m - 1)" and ?db = "db[p := mark_rows txid (Columns (ms ! p)) conds (take (m - 1) (seen txid (db ! p) k)) (db ! p)]"
    obtain ph where m: "0 < m" "m - 1 < length (seen txid (db ! p) k)" "metas s = ms" "system_state ms ?db [(Deleting p ?i txid, ph)] s b"
      using co(1) Marking by (auto simp: marking_at_def)
    obtain db' where d: "system_inv ms ?db db' [(Deleting p ?i txid, ph)] s b" "db' = ?db \<or> db' = apply_operation (Deleting p ?i txid) ?db"
      by (rule single_delete [OF m(4)])
    have i: "?i \<noteq> k" using seen_facts(2) [of ?i txid "db ! p" k] nth_mem [OF m(2)] by auto
    have pm: "p < length ms" "p < length (metas s)" using system_invD(3,4) [OF d(1)] d(2) p by auto
    have "length (db' ! p) = length (db ! p)" "db' ! p ! k = db ! p ! k" using d(2) i p k fresh by auto
    moreover have "row_ok ms [(Deleting p ?i txid, ph)] b p k (db' ! p ! k)"
      using system_inv_table(4) [OF d(1) pm(1)] k calculation(1) by simp
    moreover have "meta_ok (ms ! p)" using storage_okD(1) [OF system_invD(1) [OF d(1)] pm(2)] m(3) by simp
    moreover have "k < 10000" using system_inv_meta(6) [OF d(1) pm(1)] calculation(1) k by simp
    ultimately show ?thesis by (simp add: row_ok_def)
  qed (use co(2) in simp)
  then show "strip b (ms ! p) (ZStart (ms ! p) + int k) = version_strip (Columns (ms ! p)) (db ! p ! k)" "version_ok (Columns (ms ! p)) (db ! p ! k)"
    "wrap64 (ZStart (ms ! p) + int k) = ZStart (ms ! p) + int k"
    using meta_z_range(1) [of "ms ! p" "int k"] by (simp_all add: tableZSpacing_def)
qed

lemma consumer_ok_snoc:
  "consumer_ok ms db p txid conds is m co s b r \<Longrightarrow> m \<le> length is \<Longrightarrow> (\<And>a. co \<noteq> Answered a) \<Longrightarrow> consumer_ok ms db p txid conds (is @ js) m co s b r"
  by (cases co) (auto simp: nth_append)

subsection \<open>Moves of the scanning goroutine\<close>

lemma scanner_step_call:
  assumes "scanner d = Scanning ri pr" "\<And>x. pr \<noteq> Return x"
  shows "scanner_step h halt table txid rowCount d =
    (case advance h pr (store d) (world d) of (q, s, w) \<Rightarrow> d\<lparr>scanner := Scanning ri q, store := s, world := w\<rparr>)"
  using assms by (cases pr) (auto simp: scanner_step_def)

lemma scan_from_at: "scan_from (\<lambda>_. False) t txid (int (length vs)) (int k) = scanner_at t txid vs k 4"
  by (simp add: scan_from_def scanner_at_def)

lemma scanner_at_Suc: "scan_from (\<lambda>_. False) t txid (int (length vs)) (int k + 1) = scanner_at t txid vs (Suc k) 4"
  using scan_from_at [of t txid vs "Suc k"] by (simp add: add.commute)

context hal_reliable
begin

lemma scanner_step_inv:
  assumes inv: "delete_inv ms db p txid conds blocks world_ok r d" and p: "p < length db"
  defines "d' \<equiv> scanner_step h (\<lambda>_. False) (ms ! p) txid (int (length (db ! p))) d"
  shows "\<exists>r'. delete_inv ms db p txid conds blocks world_ok r' d' \<and>
    (r' < r \<or> r' = r \<and> d' = d \<and> (scanner d = Closed \<or> channelCapacity \<le> length (channel d)))"
proof -
  let ?t = "ms ! p" and ?vs = "db ! p"
  let ?is = "seen txid ?vs" and ?n = "length (db ! p)"
  obtain k j m rc where k: "k \<le> ?n" "j \<in> {1..4}" "j = 1 \<Longrightarrow> k < ?n \<Longrightarrow> visible txid (?vs ! k)"
    and sc: "scanner d = scanner_at ?t txid ?vs k j" and m: "m \<le> length (?is k)" "channel d = map (row_msg ?t ?vs) (drop m (?is k))"
    and co: "consumer_ok ms db p txid conds (?is k) m (consumer d) (store d) (blocks (world d)) rc"
    and an: "answered d \<Longrightarrow> k = ?n" and ok: "world_ok (world d)"
    and r: "r = (if k < ?n then 4 * (?n - k - 1) + j else 0) + rc"
    using inv unfolding delete_inv_def by blast
  show ?thesis
  proof (cases "k < ?n")
    case False
    then have "scanner d = Closed" "d' = d" using sc by (simp_all add: scanner_at_def d'_def scanner_step_def)
    then show ?thesis using inv by blast
  next
    case True
    then have na: "consumer d \<noteq> Answered a" for a using an by (auto simp: answered_def)
    note row = consumer_row [OF co na True p]
    have next_row: "delete_inv ms db p txid conds blocks world_ok (r - j) (d\<lparr>scanner := scanner_at ?t txid ?vs (Suc k) 4, channel := ch\<rparr>)"
      if "ch = channel d @ (if visible txid (?vs ! k) then [row_msg ?t ?vs k] else [])" for ch
      unfolding delete_inv_def
      by (rule exI [of _ "Suc k"], rule exI [of _ 4], rule exI [of _ m], rule exI [of _ rc])
        (use True that m co na consumer_ok_snoc [OF co m(1)] ok k r in \<open>auto simp: seen_Suc answered_def\<close>)
    have same_row: "delete_inv ms db p txid conds blocks world_ok (r - 1) (d\<lparr>scanner := scanner_at ?t txid ?vs k j', world := w\<rparr>)"
      if "j = Suc j'" "1 \<le> j'" "j' = 1 \<Longrightarrow> visible txid (?vs ! k)" "world_ok w" "blocks w = blocks (world d)" for j' w
      unfolding delete_inv_def
      by (rule exI [of _ k], rule exI [of _ j'], rule exI [of _ m], rule exI [of _ rc])
        (use True that m co na k r in \<open>auto simp: answered_def\<close>)
    consider "j = 4" | "j = 3" | "j = 2" | "j = 1" using k(2) by fastforce
    then show ?thesis
    proof cases
      case 1
      then have s4: "scanner d = Scanning (int k) (scan_process ?t txid (int k))" using sc True by (simp add: scanner_at_def)
      obtain w where w: "ForceLoadChunk h 0 (go_quot (ZStart ?t + int k) 16) (world d) = (Inr (), w)" "world_ok w" "blocks w = blocks (world d)"
        by (rule force_run [OF ok])
      have "d' = d\<lparr>scanner := scanner_at ?t txid ?vs k 3, world := w\<rparr>"
        unfolding d'_def by (subst scanner_step_call [OF s4]) (use True w row(3) in \<open>simp_all add: scan_process_def scanner_at_def Let_def\<close>)
      then show ?thesis using same_row [of 3 w] w 1 r True by (intro exI [of _ "r - 1"]) auto
    next
      case 2
      then have s3: "scanner d = Scanning (int k) (scan_read ?t txid (ZStart ?t + int k))" using sc True by (simp add: scanner_at_def)
      let ?ps = "map (\<lambda>ox. mk_pos ox (YLevel ?t) (ZStart ?t + int k)) [0..StripWidth ?t - 1]"
      obtain w where w: "BatchRead h ?ps (world d) = (Inr (map (blocks (world d) \<circ> pos_key) ?ps), w)" "world_ok w" "blocks w = blocks (world d)"
        by (rule batch_read_run [OF ok])
      have "map (blocks (world d) \<circ> pos_key) ?ps = version_strip (Columns ?t) (?vs ! k)" using row(1) by (simp add: strip_def comp_def)
      then have "d' = d\<lparr>scanner := scanner_at ?t txid ?vs k 2, world := w\<rparr>"
        unfolding d'_def
        by (subst scanner_step_call [OF s3]) (use True w(1) row(2) in \<open>auto simp: scan_read_def scanner_at_def scan_decode_version row_msg_def\<close>)
      then show ?thesis using same_row [of 2 w] w 2 r True by (intro exI [of _ "r - 1"]) auto
    next
      case 3
      show ?thesis
      proof (cases "visible txid (?vs ! k)")
        case vis: True
        then have "d' = d\<lparr>scanner := scanner_at ?t txid ?vs k 1, world := world d\<rparr>"
          using 3 sc True by (simp add: d'_def scanner_step_def scanner_at_def)
        then show ?thesis using same_row [of 1 "world d"] ok vis 3 r True by (intro exI [of _ "r - 1"]) auto
      next
        case inv: False
        then have "d' = d\<lparr>scanner := scanner_at ?t txid ?vs (Suc k) 4, channel := channel d\<rparr>"
          using 3 sc True by (simp add: d'_def scanner_step_def scanner_at_Suc) (simp add: scanner_at_def scanner_at_Suc)
        then show ?thesis using next_row [of "channel d"] inv 3 r True by (intro exI [of _ "r - 2"]) auto
      qed
    next
      case 4
      then have s1: "scanner d = Sending (int k) (row_msg ?t ?vs k)" "visible txid (?vs ! k)" using sc True k(3) by (simp_all add: scanner_at_def)
      show ?thesis
      proof (cases "length (channel d) < channelCapacity")
        case room: True
        then have "d' = d\<lparr>scanner := scanner_at ?t txid ?vs (Suc k) 4, channel := channel d @ [row_msg ?t ?vs k]\<rparr>"
          using s1 by (simp add: d'_def scanner_step_def row_msg_def scanner_at_Suc)
        then show ?thesis using next_row [of "channel d @ [row_msg ?t ?vs k]"] s1(2) 4 r True by (intro exI [of _ "r - 1"]) auto
      next
        case False
        then have "d' = d" using s1 by (simp add: d'_def scanner_step_def)
        then show ?thesis using False inv by auto
      qed
    qed
  qed
qed

end

subsection \<open>Moves of the loop over the channel\<close>

lemma consumer_step_call:
  assumes "consumer d = Marking c pr" "\<And>x. pr \<noteq> Return x"
  shows "consumer_step h conds colMap txid d =
    (case advance h pr (store d) (world d) of (q, s, w) \<Rightarrow> d\<lparr>consumer := Marking c q, store := s, world := w\<rparr>)"
  using assms by (cases pr) (auto simp: consumer_step_def)

lemma proc_at_active:
  "phase_kept ms (Deleting p i txid) ph b \<Longrightarrow> ph \<noteq> Finished \<Longrightarrow> proc_at ms (Deleting p i txid) ph \<noteq> Return x"
  by (cases ph)
    (simp_all add: MarkDeleted_process_def delete_check_def logged_def Append_process_def append_load_def append_write_def logged_write_def
      Commit_process_def commit_write_def)

lemma next_phase_delete:
  assumes "next_phase ms (Deleting p i txid) ph s b = (ph', s', b')" "1 \<le> nextLSN (wal s)" "nextLSN (wal s) < 2 ^ 62"
  shows "metas s' = metas s"
    "nextLSN (wal s') + (if unnumbered (Deleting p i txid, ph') then 1 else 0) \<le> nextLSN (wal s) + (if unnumbered (Deleting p i txid, ph) then 1 else 0)"
  using assms by (cases ph; auto simp: bump_lsn_def in_i64_def)+

text \<open>Starting and finishing the delete of a row.\<close>

lemma marking_start:
  assumes rel: "state_rel b (db[p := mark_rows txid (Columns (ms ! p)) conds rs (db ! p)]) s" and s: "metas s = ms" and p: "p < length db"
    and i: "i < length (db ! p)" "satisfies (Columns (ms ! p)) conds (db ! p ! i)" and tx: "in_i64 txid"
    and lsn: "nextLSN (wal s) + 1 + int q < 2 ^ 62" and c: "c = hits (Columns (ms ! p)) conds (db ! p) rs"
  shows "marking_at ms db p txid conds rs i q c (MarkDeleted_process (row_pos (ms ! p) i) txid) s b (10 * q + 10)"
proof -
  let ?db = "db[p := mark_rows txid (Columns (ms ! p)) conds rs (db ! p)]"
  have "p < length ms" using state_rel_table(3) [OF rel, of p] p s by simp
  then have "op_ok (metas s) ?db op" if "op \<in> set [Deleting p i txid]" for op using that s p i tx by simp
  moreover have "length (?db ! q) + length (filter (inserts_into q) [Deleting p i txid]) \<le> 10000" if "q < length ?db" for q
    using state_rel_table(4) [OF rel that] by simp
  ultimately have "system_state (metas s) ?db (map (\<lambda>op. (op, Begin)) [Deleting p i txid]) s b"
    using lsn by (intro system_start [OF rel]) simp_all
  then show ?thesis using s i c lsn unfolding marking_at_def by (auto intro!: exI [of _ Begin])
qed

lemma marking_finish:
  assumes st: "system_state ms (db[p := mark_rows txid (Columns (ms ! p)) conds rs (db ! p)]) [(Deleting p i txid, Finished)] s b"
    and p: "p < length db" and i: "i < length (db ! p)" "i \<notin> set rs" "satisfies (Columns (ms ! p)) conds (db ! p ! i)"
  shows "state_rel b (db[p := mark_rows txid (Columns (ms ! p)) conds (rs @ [i]) (db ! p)]) s"
    "hits (Columns (ms ! p)) conds (db ! p) (rs @ [i]) = hits (Columns (ms ! p)) conds (db ! p) rs + 1"
proof -
  let ?db = "db[p := mark_rows txid (Columns (ms ! p)) conds rs (db ! p)]"
  obtain order where o: "mset order = {#Deleting p i txid#}" "state_rel b (fold apply_operation order ?db) s"
    using system_finish [OF st] by auto
  then have "order = [Deleting p i txid]" by simp
  then show "state_rel b (db[p := mark_rows txid (Columns (ms ! p)) conds (rs @ [i]) (db ! p)]) s"
    using o(2) p i by (simp add: mark_rows_snoc)
  show "hits (Columns (ms ! p)) conds (db ! p) (rs @ [i]) = hits (Columns (ms ! p)) conds (db ! p) rs + 1" using i by (simp add: hits_def)
qed

lemma marking_done:
  assumes mk: "marking_at ms db p txid conds rs i q c pr s b r" "pr = Return (Inr ())"
    and p: "p < length db" and i: "i < length (db ! p)" "i \<notin> set rs"
  shows "state_rel b (db[p := mark_rows txid (Columns (ms ! p)) conds (rs @ [i]) (db ! p)]) s"
    "c + 1 = hits (Columns (ms ! p)) conds (db ! p) (rs @ [i])" "metas s = ms" "nextLSN (wal s) + int q < 2 ^ 62" "10 * q + 1 < r"
proof -
  obtain ph where ph: "pr = proc_at ms (Deleting p i txid) ph" "satisfies (Columns (ms ! p)) conds (db ! p ! i)"
    "system_state ms (db[p := mark_rows txid (Columns (ms ! p)) conds rs (db ! p)]) [(Deleting p i txid, ph)] s b" (is "system_state ms ?db _ s b")
    "nextLSN (wal s) + (if unnumbered (Deleting p i txid, ph) then 1 else 0) + int q < 2 ^ 62"
    "c = hits (Columns (ms ! p)) conds (db ! p) rs" "r = 10 * q + 2 + steps_left ph" "metas s = ms"
    using mk(1) by (auto simp: marking_at_def)
  obtain db' where inv: "system_inv ms ?db db' [(Deleting p i txid, ph)] s b" using ph(3) by (auto simp: system_state_def)
  then have kept: "phase_kept ms (Deleting p i txid) ph b" using system_invD(8) [OF inv] by (simp add: thread_ok_def)
  have fin: "ph = Finished"
  proof (rule ccontr)
    assume "ph \<noteq> Finished"
    from proc_at_active [OF kept this] ph(1) mk(2) show False by metis
  qed
  note f = marking_finish [OF ph(3) [unfolded fin] p i ph(2)]
  show "state_rel b (db[p := mark_rows txid (Columns (ms ! p)) conds (rs @ [i]) (db ! p)]) s" by (rule f(1))
  show "c + 1 = hits (Columns (ms ! p)) conds (db ! p) (rs @ [i])" "metas s = ms" "nextLSN (wal s) + int q < 2 ^ 62" "10 * q + 1 < r"
    using ph fin f(2) by (simp_all split: if_splits)
qed

context hal_reliable
begin

lemma marking_step:
  assumes mk: "marking_at ms db p txid conds rs i q c pr s (blocks w) r" and w: "world_ok w" and pr: "pr \<noteq> Return (Inr ())"
  obtains pr' s' w' where "\<forall>x. pr \<noteq> Return x" "advance h pr s w = (pr', s', w')" "world_ok w'"
    "marking_at ms db p txid conds rs i q c pr' s' (blocks w') (r - 1)" "0 < r"
proof -
  let ?db = "db[p := mark_rows txid (Columns (ms ! p)) conds rs (db ! p)]" and ?op = "Deleting p i txid"
  obtain ph where ph: "pr = proc_at ms ?op ph" "system_state ms ?db [(?op, ph)] s (blocks w)"
    "nextLSN (wal s) + (if unnumbered (?op, ph) then 1 else 0) + int q < 2 ^ 62" "r = 10 * q + 2 + steps_left ph"
    and sat: "satisfies (Columns (ms ! p)) conds (db ! p ! i)" "c = hits (Columns (ms ! p)) conds (db ! p) rs" "metas s = ms"
    using mk by (auto simp: marking_at_def)
  obtain db' where inv: "system_inv ms ?db db' [(?op, ph)] s (blocks w)" using ph(2) by (auto simp: system_state_def)
  then have kept: "phase_kept ms ?op ph (blocks w)" using system_invD(8) [OF inv] by (simp add: thread_ok_def)
  have fin: "ph \<noteq> Finished" using pr ph(1) by auto
  obtain ph' s' b' where nx: "next_phase ms ?op ph s (blocks w) = (ph', s', b')" using prod_cases3 by blast
  have st: "system_state ms ?db [(?op, ph')] s' b'" "steps_left ph' = steps_left ph - 1"
    using system_step [OF ph(2), of 0 ?op ph ph' s' b'] nx by simp_all
  have "advance_blocks pr s (blocks w) = (proc_at ms ?op ph', s', b')"
    using inv_phase_ready [OF inv] by (simp add: ph(1) advance_phase nx)
  then obtain w' where w': "advance h pr s w = (proc_at ms ?op ph', s', w')" "world_ok w'" "blocks w' = b'"
    by (rule_tac advance_run [OF w, of pr s]) simp
  have l: "1 \<le> nextLSN (wal s)" "nextLSN (wal s) < 2 ^ 62" using storage_ok_parts(5) [OF system_invD(1) [OF inv]] by (simp_all add: lsn_ok_def)
  note nd = next_phase_delete [OF nx l]
  have "0 < steps_left ph" using fin by (cases ph) simp_all
  then have "marking_at ms db p txid conds rs i q c (proc_at ms ?op ph') s' (blocks w') (r - 1)"
    unfolding marking_at_def using sat nd ph(3,4) st w'(3) by (intro conjI exI [of _ ph']) auto
  moreover have "\<forall>x. pr \<noteq> Return x" unfolding ph(1) by (intro allI proc_at_active [OF kept fin])
  moreover have "0 < r" using ph(4) by simp
  ultimately show thesis using that w'(1,2) by blast
qed

lemma consumer_step_inv:
  assumes inv: "delete_inv ms db p txid conds blocks world_ok r d" and p: "p < length db"
    and cols: "columns_distinct (Columns (ms ! p))" and tx: "in_i64 txid"
  defines "d' \<equiv> consumer_step h conds (buildColumnMap (Columns (ms ! p))) txid d"
  shows "\<exists>r'. delete_inv ms db p txid conds blocks world_ok r' d' \<and>
    (r' < r \<or> r' = r \<and> d' = d \<and> (answered d \<or> channel d = [] \<and> scanner d \<noteq> Closed))"
proof -
  let ?t = "ms ! p" and ?vs = "db ! p"
  let ?is = "seen txid ?vs" and ?n = "length (db ! p)"
  obtain k j m rc where k: "k \<le> ?n" "j \<in> {1..4}" "j = 1 \<Longrightarrow> k < ?n \<Longrightarrow> visible txid (?vs ! k)"
    and sc: "scanner d = scanner_at ?t txid ?vs k j" and m: "m \<le> length (?is k)" "channel d = map (row_msg ?t ?vs) (drop m (?is k))"
    and co: "consumer_ok ms db p txid conds (?is k) m (consumer d) (store d) (blocks (world d)) rc"
    and an: "answered d \<Longrightarrow> k = ?n" and ok: "world_ok (world d)"
    and r: "r = (if k < ?n then 4 * (?n - k - 1) + j else 0) + rc"
    using inv unfolding delete_inv_def by blast
  have mn: "m \<le> ?n" using m(1) seen_facts(3) [of txid ?vs k] k(1) by linarith
  have moved: ?thesis
    if "scanner d' = scanner d" "m' \<le> length (?is k)" "channel d' = map (row_msg ?t ?vs) (drop m' (?is k))"
      "consumer_ok ms db p txid conds (?is k) m' (consumer d') (store d') (blocks (world d')) rc'" "answered d' \<Longrightarrow> k = ?n" "world_ok (world d')" "rc' < rc"
    for m' rc'
  proof -
    have "delete_inv ms db p txid conds blocks world_ok ((if k < ?n then 4 * (?n - k - 1) + j else 0) + rc') d'"
      unfolding delete_inv_def by (rule exI [of _ k], rule exI [of _ j], rule exI [of _ m'], rule exI [of _ rc']) (use that k sc in auto)
    moreover have "(if k < ?n then 4 * (?n - k - 1) + j else 0) + rc' < r" using r that(7) by simp
    ultimately show ?thesis by blast
  qed
  show ?thesis
  proof (cases "consumer d")
    case (Answered a)
    then have "d' = d" by (simp add: d'_def consumer_step_def)
    then show ?thesis using inv Answered by (auto simp: answered_def)
  next
    case (Marking c pr)
    then have mk: "0 < m" "marking_at ms db p txid conds (take (m - 1) (?is k)) (?is k ! (m - 1)) (?n - m) c pr (store d) (blocks (world d)) rc"
      using co by simp_all
    show ?thesis
    proof (cases "pr = Return (Inr ())")
      case True
      let ?i = "?is k ! (m - 1)"
      have im: "m - 1 < length (?is k)" "take (m - 1) (?is k) @ [?i] = take m (?is k)"
        using m(1) mk(1) take_Suc_conv_app_nth [of "m - 1" "?is k"] by auto
      have i: "?i < ?n" using nth_mem [OF im(1)] k(1) by (simp add: seen_facts(2))
      have "?i \<notin> set (take (m - 1) (?is k))"
        using seen_facts(1) [of txid ?vs k] im by (metis distinct_take not_distinct_conv_prefix)
      note fin = marking_done [OF mk(2) True p i this, unfolded im(2)]
      have "d' = d\<lparr>consumer := Receiving (c + 1)\<rparr>" using Marking True by (simp add: d'_def consumer_step_def)
      then show ?thesis by (intro moved [of m "10 * (?n - m) + 1"]) (use m fin ok in \<open>simp_all add: answered_def\<close>)
    next
      case False
      obtain pr' s' w' where st: "\<forall>x. pr \<noteq> Return x" "advance h pr (store d) (world d) = (pr', s', w')" "world_ok w'"
        "marking_at ms db p txid conds (take (m - 1) (?is k)) (?is k ! (m - 1)) (?n - m) c pr' s' (blocks w') (rc - 1)" "0 < rc"
        by (rule marking_step [OF mk(2) ok False])
      have "d' = d\<lparr>consumer := Marking c pr', store := s', world := w'\<rparr>"
        unfolding d'_def by (subst consumer_step_call [OF Marking st(1) [rule_format]]) (simp add: st(2))
      then show ?thesis by (intro moved [of m "rc - 1"]) (use m mk(1) st in \<open>simp_all add: answered_def\<close>)
    qed
  next
    case (Receiving c)
    then have rec: "c = hits (Columns ?t) conds ?vs (take m (?is k))" "metas (store d) = ms"
      "state_rel (blocks (world d)) (db[p := mark_rows txid (Columns ?t) conds (take m (?is k)) ?vs]) (store d)"
      "nextLSN (wal (store d)) + int (?n - m) < 2 ^ 62" "rc = 10 * (?n - m) + 1" using co by simp_all
    show ?thesis
    proof (cases "m < length (?is k)")
      case False
      then have e: "channel d = []" "take m (?is k) = ?is k" "m = length (?is k)" using m by simp_all
      show ?thesis
      proof (cases "scanner d = Closed")
        case True
        then have "k = ?n" using sc k by (auto simp: scanner_at_def split: if_splits)
        moreover have "d' = d\<lparr>consumer := Answered (Inr c)\<rparr>" using Receiving e(1) True by (simp add: d'_def consumer_step_def)
        ultimately show ?thesis by (intro moved [of m 0]) (use e rec ok in simp_all)
      next
        case closed: False
        then have "d' = d" using Receiving e(1) by (simp add: d'_def consumer_step_def)
        then show ?thesis using inv e(1) closed by blast
      qed
    next
      case True
      let ?i = "?is k ! m"
      have i: "?i < ?n" using nth_mem [OF True] k(1) by (simp add: seen_facts(2))
      have fresh: "?i \<notin> set (take m (?is k))"
        using seen_facts(1) [of txid ?vs k] take_Suc_conv_app_nth [OF True] by (metis distinct_take not_distinct_conv_prefix)
      have tk: "take (Suc m) (?is k) = take m (?is k) @ [?i]" by (rule take_Suc_conv_app_nth [OF True])
      have less: "m < ?n" using True seen_facts(3) [of txid ?vs k] k(1) by linarith
      have ch: "channel d = row_msg ?t ?vs ?i # map (row_msg ?t ?vs) (drop (Suc m) (?is k))"
        using m(2) True by (simp add: Cons_nth_drop_Suc [symmetric])
      have d': "d' = d\<lparr>channel := map (row_msg ?t ?vs) (drop (Suc m) (?is k)),
          consumer := (if satisfies (Columns ?t) conds (?vs ! ?i) then Marking c (MarkDeleted_process (row_pos ?t ?i) txid) else Receiving c)\<rparr>"
        using Receiving ch by (simp add: d'_def consumer_step_def row_msg_def evaluateWhere_version [OF cols] row_pos_def)
      show ?thesis
      proof (cases "satisfies (Columns ?t) conds (?vs ! ?i)")
        case sat: True
        have "nextLSN (wal (store d)) + 1 + int (?n - Suc m) < 2 ^ 62" using rec(4) less by linarith
        note start = marking_start [OF rec(3,2) p i sat tx this rec(1)]
        show ?thesis
          by (intro moved [of "Suc m" "10 * (?n - Suc m) + 10"]) (use d' sat True ok rec(5) less start in \<open>simp_all add: answered_def\<close>)
      next
        case unsat: False
        then have "consumer_ok ms db p txid conds (?is k) (Suc m) (Receiving c) (store d) (blocks (world d)) (10 * (?n - Suc m) + 1)"
          using rec less mark_rows_snoc [OF i fresh] by (simp add: tk hits_def)
        then show ?thesis
          by (intro moved [of "Suc m" "10 * (?n - Suc m) + 1"]) (use d' unsat True ok rec(5) less in \<open>simp_all add: answered_def\<close>)
      qed
    qed
  qed
qed

subsection \<open>Schedules\<close>

lemma delete_schedule_inv:
  fixes conds
  assumes p: "p < length db" and cols: "columns_distinct (Columns (ms ! p))" and tx: "in_i64 txid"
  defines "exec \<equiv> delete_schedule h (\<lambda>_. False) (ms ! p) conds (buildColumnMap (Columns (ms ! p))) txid (int (length (db ! p)))"
  shows "delete_inv ms db p txid conds blocks world_ok r d \<Longrightarrow>
    \<exists>r'. delete_inv ms db p txid conds blocks world_ok r' (exec sched d) \<and>
      (r' < r \<or> r' = r \<and> exec sched d = d \<and>
        (True \<in> set sched \<longrightarrow> scanner d = Closed \<or> channelCapacity \<le> length (channel d)) \<and>
        (False \<in> set sched \<longrightarrow> answered d \<or> channel d = [] \<and> scanner d \<noteq> Closed))"
proof (induction sched arbitrary: d r)
  case Nil
  then show ?case by (auto simp: exec_def)
next
  case (Cons x sched)
  let ?d = "if x then scanner_step h (\<lambda>_. False) (ms ! p) txid (int (length (db ! p))) d
    else consumer_step h conds (buildColumnMap (Columns (ms ! p))) txid d"
  have exec: "exec (x # sched) d = exec sched ?d" by (simp add: exec_def)
  obtain r1 where r1: "delete_inv ms db p txid conds blocks world_ok r1 ?d"
    "r1 < r \<or> r1 = r \<and> ?d = d \<and> (x \<longrightarrow> scanner d = Closed \<or> channelCapacity \<le> length (channel d)) \<and>
      (\<not> x \<longrightarrow> answered d \<or> channel d = [] \<and> scanner d \<noteq> Closed)"
    using scanner_step_inv [OF Cons.prems p] consumer_step_inv [OF Cons.prems p cols tx] by (cases x) auto
  obtain r2 where r2: "delete_inv ms db p txid conds blocks world_ok r2 (exec sched ?d)"
    "r2 < r1 \<or> r2 = r1 \<and> exec sched ?d = ?d \<and>
        (True \<in> set sched \<longrightarrow> scanner ?d = Closed \<or> channelCapacity \<le> length (channel ?d)) \<and>
        (False \<in> set sched \<longrightarrow> answered ?d \<or> channel ?d = [] \<and> scanner ?d \<noteq> Closed)"
    using Cons.IH [OF r1(1)] by blast
  show ?case
  proof (cases "r2 < r")
    case True
    then show ?thesis using r2(1) unfolding exec by blast
  next
    case False
    then have e: "r1 = r" "?d = d" "r2 = r" using r1(2) r2(2) by auto
    define full where "full \<longleftrightarrow> scanner d = Closed \<or> channelCapacity \<le> length (channel d)"
    define idle where "idle \<longleftrightarrow> answered d \<or> channel d = [] \<and> scanner d \<noteq> Closed"
    have x: "(x \<longrightarrow> full) \<and> (\<not> x \<longrightarrow> idle)" using r1(2) e(1) unfolding full_def idle_def by blast
    have rest: "exec sched d = d \<and> (True \<in> set sched \<longrightarrow> full) \<and> (False \<in> set sched \<longrightarrow> idle)"
      using r2(2) [unfolded e] unfolding full_def idle_def by blast
    have run: "exec (x # sched) d = d" using exec [unfolded e(2)] rest by simp
    have "(True \<in> set (x # sched) \<longrightarrow> full) \<and> (False \<in> set (x # sched) \<longrightarrow> idle)" using x rest by (cases x) auto
    then show ?thesis
      unfolding run full_def idle_def using Cons.prems by blast
  qed
qed

lemma delete_rounds:
  fixes conds
  assumes p: "p < length db" and cols: "columns_distinct (Columns (ms ! p))" and tx: "in_i64 txid"
  defines "exec \<equiv> delete_schedule h (\<lambda>_. False) (ms ! p) conds (buildColumnMap (Columns (ms ! p))) txid (int (length (db ! p)))"
  shows "delete_inv ms db p txid conds blocks world_ok r d \<Longrightarrow> list_all (\<lambda>m. True \<in> set m \<and> False \<in> set m) rounds \<Longrightarrow>
    \<exists>r'. delete_inv ms db p txid conds blocks world_ok r' (exec (concat rounds) d) \<and> (r' + length rounds \<le> r \<or> answered (exec (concat rounds) d))"
proof (induction rounds arbitrary: d r)
  case Nil
  then show ?case by (auto simp: exec_def)
next
  case (Cons m rounds)
  have app: "exec (a @ b) e = exec b (exec a e)" for a b e unfolding exec_def by (induction a arbitrary: e) simp_all
  have m: "True \<in> set m" "False \<in> set m" using Cons.prems(2) by simp_all
  obtain r1 where r1: "delete_inv ms db p txid conds blocks world_ok r1 (exec m d)"
    "r1 < r \<or> r1 = r \<and> exec m d = d \<and> (scanner d = Closed \<or> channelCapacity \<le> length (channel d)) \<and>
        (answered d \<or> channel d = [] \<and> scanner d \<noteq> Closed)"
    using delete_schedule_inv [OF p cols tx Cons.prems(1), of m] m unfolding exec_def by blast
  obtain r2 where r2: "delete_inv ms db p txid conds blocks world_ok r2 (exec (concat rounds) (exec m d))"
    "r2 + length rounds \<le> r1 \<or> answered (exec (concat rounds) (exec m d))"
    using Cons.IH [OF r1(1)] Cons.prems(2) by auto
  show ?case
  proof (cases "r1 < r")
    case True
    then show ?thesis using r2 by (intro exI [of _ r2]) (auto simp: app)
  next
    case False
    then have d: "exec m d = d" "answered d" using r1(2) by (auto simp: channelCapacity_def)
    then have "exec sched d = d" for sched
    proof -
      have "scanner d = Closed" using Cons.prems(1) d(2) unfolding delete_inv_def by (auto simp: scanner_at_def)
      then have "scanner_step h (\<lambda>_. False) (ms ! p) txid (int (length (db ! p))) d = d"
        "consumer_step h conds (buildColumnMap (Columns (ms ! p))) txid d = d"
        using d(2) by (auto simp: scanner_step_def consumer_step_def answered_def)
      then show ?thesis unfolding exec_def by (induction sched) simp_all
    qed
    then show ?thesis using Cons.prems(1) d(2) by (intro exI [of _ r]) (simp add: app)
  qed
qed

lemma delete_started:
  assumes rel: "state_rel (blocks w) db s" "world_ok w" and p: "p < length db" and lsn: "nextLSN (wal s) + int (length (db ! p)) < 2 ^ 62"
  shows "delete_inv (metas s) db p txid conds blocks world_ok (14 * length (db ! p) + 1)
    (delete_start (\<lambda>_. False) (metas s ! p) txid (int (length (db ! p))) s w)"
proof -
  have "4 * length (db ! p) = 4 * (length (db ! p) - Suc 0) + 4" if "db ! p \<noteq> []" using that by (cases "db ! p") simp_all
  then show ?thesis
    unfolding delete_inv_def
    by (intro exI [of _ 0] exI [of _ 4] exI [of _ 0] exI [of _ "10 * length (db ! p) + 1"])
      (use assms scan_from_at [of "metas s ! p" txid "db ! p" 0] in \<open>auto simp: delete_start_def answered_def hits_def\<close>)
qed

end

lemma delete_answered:
  assumes "delete_inv ms db p txid conds blocks ok r d" "r = 0 \<or> answered d"
  shows "scanner d = Closed" "consumer d = Answered (Inr (int (matching txid (Columns (ms ! p)) conds (db ! p))))" "ok (world d)"
    "state_rel (blocks (world d)) (db[p := map (delete_matching txid (Columns (ms ! p)) conds) (db ! p)]) (store d)"
proof -
  obtain k j m rc where i: "scanner d = scanner_at (ms ! p) txid (db ! p) k j" "answered d \<longrightarrow> k = length (db ! p)" "ok (world d)"
    "consumer_ok ms db p txid conds (seen txid (db ! p) k) m (consumer d) (store d) (blocks (world d)) rc"
    "r = (if k < length (db ! p) then 4 * (length (db ! p) - k - 1) + j else 0) + rc"
    using assms(1) unfolding delete_inv_def by blast
  then have "answered d" using assms(2) by (cases "consumer d") (auto simp: answered_def marking_at_def)
  then show "scanner d = Closed" "consumer d = Answered (Inr (int (matching txid (Columns (ms ! p)) conds (db ! p))))" "ok (world d)"
    "state_rel (blocks (world d)) (db[p := map (delete_matching txid (Columns (ms ! p)) conds) (db ! p)]) (store d)"
    using i by (auto simp: answered_def scanner_at_def hits_seen mark_rows_seen)
qed

subsection \<open>Properties\<close>

text \<open>
  Property C5: a \<open>DELETE\<close> does the same under every schedule of its two goroutines. Whatever the order in which
  the scan and the loop over its channel make their calls, as long as each gets a turn in every round, neither waits forever for the other: after
  at most 14 rounds per row and one more the loop has answered, the scan has ended, and the answer and the
  database are those of the rows handled one at a time, that is, exactly the visible rows that satisfy the conditions are marked and counted.
\<close>

theorem delete_every_schedule:
  assumes "hal_reliable h blocks ok" "ok w" "state_rel (blocks w) db s" "GetTable name s = (Inr p :: 'e storage_error + nat)"
    "columns_distinct (Columns (metas s ! p))" "in_i64 txid" "nextLSN (wal s) + int (length (db ! p)) < 2 ^ 62"
    "hit = (\<lambda>v. visible txid v \<and> satisfies (Columns (metas s ! p)) conds v)"
    "list_all (\<lambda>m. True \<in> set m \<and> False \<in> set m) rounds" "14 * length (db ! p) + 1 \<le> length rounds"
    "d = delete_schedule h (\<lambda>_. False) (metas s ! p) conds (buildColumnMap (Columns (metas s ! p))) txid (RowCount (metas s ! p)) (concat rounds)
       (delete_start (\<lambda>_. False) (metas s ! p) txid (RowCount (metas s ! p)) s w)"
  shows "consumer d = Answered (Inr (int (length (filter hit (db ! p))))) \<and> scanner d = Closed \<and> ok (world d) \<and>
    state_rel (blocks (world d)) (db[p := map (\<lambda>v. if hit v then v\<lparr>vmax := Some txid\<rparr> else v) (db ! p)]) (store d)"
proof -
  have "map_of (tables s) name = Some p" using assms(4) by (simp add: GetTable_Inr)
  then have p: "p < length db" using assms(3) storage_ok_parts(1) by (auto simp: state_rel_def db_repr_def)
  have n: "RowCount (metas s ! p) = int (length (db ! p))" using state_rel_table(2) [OF assms(3) p] by (simp add: table_repr_def)
  note start = hal_reliable.delete_started [OF assms(1,3,2) p assms(7), of txid conds]
  obtain r where r: "delete_inv (metas s) db p txid conds blocks ok r d" "r + length rounds \<le> 14 * length (db ! p) + 1 \<or> answered d"
    using hal_reliable.delete_rounds [OF assms(1) p assms(5,6) start assms(9)] unfolding assms(11) n by blast
  then have "r = 0 \<or> answered d" using assms(10) by linarith
  from delete_answered [OF r(1) this] show ?thesis by (simp add: matching_def delete_matching_alt assms(8))
qed

theorem delete_every_schedule_witness:
  "\<exists>s w d. d = delete_schedule (mock_hal :: (mock, unit) hal) (\<lambda>_. False) (metas s ! 0) [] (buildColumnMap (Columns (metas s ! 0))) 1 (RowCount (metas s ! 0))
      (concat (replicate 15 [False, True])) (delete_start (\<lambda>_. False) (metas s ! 0) 1 (RowCount (metas s ! 0)) s w) \<and>
    consumer d = Answered (Inr 1) \<and> scanner d = Closed \<and>
    state_rel (mock_blocks (world d)) [[\<lparr>vmin = 1, vmax = Some 1, vals = sample_values\<rparr>]] (store d)"
proof -
  obtain s w where t: "mock_ok w" "state_rel (mock_blocks w) [[new_version 1 sample_values]] s"
    "GetTable ''t'' s = (Inr 0 :: unit storage_error + nat)" "Columns (metas s ! 0) = sample_columns" "nextLSN (wal s) = 2"
    by (rule sample_row) blast
  have d: "columns_distinct (Columns (metas s ! 0))" by (simp add: t(4) columns_distinct_def sample_columns_def)
  have v: "visible 1 (new_version 1 sample_values)" by (simp add: visible_def new_version_def)
  have b: "in_i64 1" "nextLSN (wal s) + int (length ([[new_version 1 sample_values]] ! 0)) < 2 ^ 62" using t(5) by (simp_all add: in_i64_def)
  have "list_all (\<lambda>m. True \<in> set m \<and> False \<in> set m) (replicate 15 [False, True])" "14 * length ([[new_version 1 sample_values]] ! 0) + 1 \<le> length (replicate 15 [False, True])"
    by (simp_all add: list_all_iff)
  from delete_every_schedule [OF mock.hal_reliable_axioms t(1-3) d b refl this refl, of "[]"] v show ?thesis
    by (force simp: satisfies_def new_version_def)
qed

end
