(* ===== verification/Program.thy ===== *)
theory Program
  imports Process Executor
begin

text \<open>
  Whole statements as processes: creating a table, the loop of a scan, the loop of a delete, and the four statements of the executor, each
  as the tree of its calls; and the two loops of the start, recovery and the catalog. \<open>CreateTable\<close>, \<open>Recover\<close> and \<open>LoadCatalog\<close> hold
  a mutex or run before any server, so their processes are meant to run alone. The lemmas show that running the process is executing
  the statement or the operation.
\<close>

subsection \<open>Storage\<close>

definition create_finish :: "int \<Rightarrow> string \<Rightarrow> ColumnDef list \<Rightarrow> Storage \<Rightarrow> Storage" where
  "create_finish tid name cols s =
     (let s = set_table name (new_meta tid name cols) s in s\<lparr>nextTableID := wrap64 (nextTableID s + 1)\<rparr>)"

definition create_write ::
  "int \<Rightarrow> string \<Rightarrow> ColumnDef list \<Rightarrow> int \<Rightarrow> bytes \<Rightarrow> ('e, 'e storage_error + unit) process" where
  "create_write tid name cols catalogZ rowJSON =
     CallWrite 0 catalogY catalogZ BlockTypeBarrel rowJSON
       (\<lambda>r. case r of
          Inl err \<Rightarrow> Return (Inl (WriteCatalogBlock err))
        | Inr _ \<Rightarrow> Locked (create_finish tid name cols) (\<lambda>_. Return (Inr ())))"

definition create_row :: "string \<Rightarrow> ColumnDef list \<Rightarrow> string \<Rightarrow> ('e, 'e storage_error + unit) process" where
  "create_row name cols colsJSON =
     Locked (\<lambda>s. s\<lparr>nextCatalogZ := wrap64 (nextCatalogZ s + 1)\<rparr>)
       (\<lambda>s. case serializeRow (catalog_row (nextTableID s) name colsJSON) of
          Inl err \<Rightarrow> Return (Inl (SerializeCatalogRow err))
        | Inr rowJSON \<Rightarrow> create_write (nextTableID s) name cols (nextCatalogZ s) rowJSON)"

definition CreateTable_process :: "string \<Rightarrow> ColumnDef list \<Rightarrow> ('e, 'e storage_error + unit) process" where
  "CreateTable_process name cols =
     Locked id
       (\<lambda>s. if map_of (tables s) name \<noteq> None then Return (Inl (TableExists name))
            else
              (case Marshal_columns cols of
                 Inl err \<Rightarrow> Return (Inl (MarshalColumns err))
               | Inr colsJSON \<Rightarrow> create_row name cols colsJSON))"

text \<open>The rows from \<open>ri\<close> on, \<open>n\<close> of them, for a context that is never done.\<close>

primrec scan_all :: "TableMeta \<Rightarrow> int \<Rightarrow> nat \<Rightarrow> int \<Rightarrow> ('e, 'e ScanResult list) process" where
  "scan_all table txid 0 ri = Return []"
| "scan_all table txid (Suc n) ri =
     bind_process (scan_process table txid ri)
       (\<lambda>r. case r of
          None \<Rightarrow> scan_all table txid n (ri + 1)
        | Some (ScanErr err) \<Rightarrow> Return [ScanErr err]
        | Some (ScanRow row) \<Rightarrow> bind_process (scan_all table txid n (ri + 1)) (\<lambda>rs. Return (ScanRow row # rs)))"

primrec delete_all :: "TableMeta \<Rightarrow> Condition list \<Rightarrow> int gomap \<Rightarrow> int \<Rightarrow> nat \<Rightarrow> int \<Rightarrow> int \<Rightarrow> ('e, 'e storage_error + int) process" where
  "delete_all table conds colMap txid 0 ri cnt = Return (Inr cnt)"
| "delete_all table conds colMap txid (Suc n) ri cnt =
     bind_process (scan_process table txid ri)
       (\<lambda>r. case r of
          None \<Rightarrow> delete_all table conds colMap txid n (ri + 1) cnt
        | Some (ScanErr err) \<Rightarrow> Return (Inl err)
        | Some (ScanRow row) \<Rightarrow>
            if \<not> evaluateWhere row conds colMap then delete_all table conds colMap txid n (ri + 1) cnt
            else
              (case rowBlockPos row of
                 None \<Rightarrow> delete_all table conds colMap txid n (ri + 1) cnt
               | Some pos \<Rightarrow>
                   bind_process (MarkDeleted_process pos txid)
                     (\<lambda>r. case r of
                        Inl err \<Rightarrow> Return (Inl err)
                      | Inr _ \<Rightarrow> delete_all table conds colMap txid n (ri + 1) (cnt + 1))))"

subsection \<open>Statements\<close>

text \<open>The answer of a statement without rows.\<close>

definition tagged :: "('a \<Rightarrow> string) \<Rightarrow> 'e storage_error + 'a \<Rightarrow> ('e, 'e exec_error + Result) process" where
  "tagged tag r = (case r of Inl err \<Rightarrow> Return (Inl (ExecStorage err)) | Inr x \<Rightarrow> Return (Inr (tag_result (tag x))))"

text \<open>Looking a table up: its place in the heap and its metadata at that moment.\<close>

definition with_table ::
  "string \<Rightarrow> (nat \<Rightarrow> TableMeta \<Rightarrow> ('e, 'e exec_error + Result) process) \<Rightarrow> ('e, 'e exec_error + Result) process" where
  "with_table name f =
     Locked id (\<lambda>s. case GetTable name s of Inl err \<Rightarrow> Return (Inl (ExecStorage err)) | Inr p \<Rightarrow> f p (metas s ! p))"

definition create_process :: "Statement \<Rightarrow> ('e, 'e exec_error + Result) process" where
  "create_process stmt =
     (case stmtCreateTable stmt of
        None \<Rightarrow> Return (Inl NilCreateTable)
      | Some ct \<Rightarrow>
          bind_process (CreateTable_process (ctTable ct) (table_columns (ctColumns ct))) (tagged (\<lambda>_. ''CREATE TABLE'')))"

definition insert_process :: "Statement \<Rightarrow> int \<Rightarrow> ('e, 'e exec_error + Result) process" where
  "insert_process stmt txid =
     (case stmtInsert stmt of
        None \<Rightarrow> Return (Inl NilInsert)
      | Some ins \<Rightarrow>
          with_table (insTable ins)
            (\<lambda>p meta.
               bind_process
                 (InsertRow_process p
                    (insert_values (if length (insColumns ins) = 0 then map colName (Columns meta) else insColumns ins) (insValues ins)) txid)
                 (tagged (\<lambda>_. ''INSERT 0 1''))))"

definition select_process :: "Statement \<Rightarrow> int \<Rightarrow> ('e, 'e exec_error + Result) process" where
  "select_process stmt txid =
     (case stmtSelect stmt of
        None \<Rightarrow> Return (Inl NilSelect)
      | Some sel \<Rightarrow>
          with_table (selTable sel)
            (\<lambda>p meta.
               let outCols = resolveOutputColumns (selColumns sel) (Columns meta)
               in bind_process (scan_all meta txid (nat (RowCount meta)) 0)
                    (\<lambda>ch. case select_loop (selWhere sel) (buildColumnMap (Columns meta)) outCols ch of
                       Inl err \<Rightarrow> Return (Inl (ExecStorage err))
                     | Inr rows \<Rightarrow>
                         Return (Inr \<lparr>resColumns = columnNames outCols, resColumnTypes = columnTypes outCols, resRows = rows,
                                      Tag = ''SELECT '' @ fmt_d (int (length rows))\<rparr>))))"

definition delete_process :: "Statement \<Rightarrow> int \<Rightarrow> ('e, 'e exec_error + Result) process" where
  "delete_process stmt txid =
     (case stmtDelete stmt of
        None \<Rightarrow> Return (Inl NilDelete)
      | Some del \<Rightarrow>
          with_table (delTable del)
            (\<lambda>p meta.
               bind_process (delete_all meta (delWhere del) (buildColumnMap (Columns meta)) txid (nat (RowCount meta)) 0 0)
                 (tagged (\<lambda>cnt. ''DELETE '' @ fmt_d cnt))))"

definition Execute_process :: "Statement \<Rightarrow> int \<Rightarrow> ('e, 'e exec_error + Result) process" where
  "Execute_process stmt txid =
     (if stmtType stmt = StmtCreateTable then create_process stmt
      else if stmtType stmt = StmtInsert then insert_process stmt txid
      else if stmtType stmt = StmtSelect then select_process stmt txid
      else if stmtType stmt = StmtDelete then delete_process stmt txid
      else Return (Inl UnsupportedStatement))"

subsection \<open>Without interruption\<close>

lemma CreateTable_process_run: "run h (CreateTable_process name cols) s w = CreateTable h name cols s w"
  by (auto simp: CreateTable_process_def create_row_def create_write_def create_finish_def set_table_def CreateTable_def Let_def
      split: prod.splits sum.splits)

lemma scan_all_run:
  "run h (scan_all table txid n ri) s w = (case scan_loop h (\<lambda>_. False) table txid (ri + int n) ri w of (r, w') \<Rightarrow> (r, s, w'))"
proof (induction n arbitrary: ri w)
  case 0
  show ?case by (subst scan_loop.simps) simp
next
  case (Suc n)
  show ?case
    by (subst scan_loop.simps) (simp add: run_bind scan_process_run Suc.IH add.assoc split: prod.splits option.splits ScanResult.splits)
qed

lemma delete_all_run:
  "run h (delete_all table conds colMap txid n ri cnt) s w =
     delete_loop h (\<lambda>_. False) table conds colMap txid (ri + int n) ri cnt s w"
proof (induction n arbitrary: ri cnt s w)
  case 0
  show ?case by (subst delete_loop.simps) simp
next
  case (Suc n)
  show ?case
    by (subst delete_loop.simps)
      (simp add: run_bind scan_process_run MarkDeleted_process_run Suc.IH add.assoc split: prod.splits option.splits ScanResult.splits sum.splits)
qed

lemma tagged_run:
  "run h (bind_process p (tagged tag)) s w =
     (case run h p s w of (Inl err, s, w) \<Rightarrow> (Inl (ExecStorage err), s, w) | (Inr x, s, w) \<Rightarrow> (Inr (tag_result (tag x)), s, w))"
  by (auto simp: run_bind tagged_def split: prod.splits sum.splits)

lemma SeqScan_scan_all:
  "0 \<le> RowCount (metas s ! p) \<Longrightarrow>
   run h (scan_all (metas s ! p) txid (nat (RowCount (metas s ! p))) 0) s w = (case SeqScan h (\<lambda>_. False) p txid s w of (r, w') \<Rightarrow> (r, s, w'))"
  by (auto simp: scan_all_run SeqScan_def Let_def scan_loop.simps [of _ _ _ _ 0] split: prod.splits)

text \<open>Row counts are never negative below the wrap-around.\<close>

definition counts_ok :: "Storage \<Rightarrow> bool" where
  "counts_ok s \<longleftrightarrow> (\<forall>p name. map_of (tables s) name = Some p \<longrightarrow> 0 \<le> RowCount (metas s ! p))"

lemma Execute_process_run:
  fixes h :: "('w, 'e) hal"
  assumes "counts_ok s"
  shows "run h (Execute_process stmt txid) s w = Execute h (\<lambda>_. False) stmt txid s w"
proof -
  have t: "0 \<le> RowCount (metas s ! p)" if "GetTable name s = (Inr p :: 'e storage_error + nat)" for name p
    using assms that by (auto simp: counts_ok_def GetTable_def split: option.splits)
  have "run h (create_process stmt) s w = executeCreateTable h stmt s w"
    by (auto simp: create_process_def executeCreateTable_def tagged_run CreateTable_process_run split: option.splits)
  moreover have "run h (insert_process stmt txid) s w = executeInsert h stmt txid s w"
    by (auto simp: insert_process_def executeInsert_def with_table_def tagged_run InsertRow_process_run split: option.splits sum.splits)
  moreover have "run h (select_process stmt txid) s w = executeSelect h (\<lambda>_. False) stmt txid s w"
    by (auto simp: select_process_def executeSelect_def with_table_def run_bind SeqScan_scan_all t Let_def
        split: option.splits sum.splits prod.splits)
  moreover have "run h (delete_process stmt txid) s w = executeDelete h (\<lambda>_. False) stmt txid s w"
    by (auto simp: delete_process_def executeDelete_def with_table_def tagged_run delete_all_run t Let_def
        split: option.splits sum.splits prod.splits)
  ultimately show ?thesis by (simp add: Execute_process_def Execute_def)
qed

subsection \<open>The start\<close>

definition with_wal :: "(WAL \<Rightarrow> WAL) \<Rightarrow> Storage \<Rightarrow> Storage" where
  "with_wal f s = s\<lparr>wal := f (wal s)\<rparr>"

definition xmax_process :: "Entry \<Rightarrow> bytes option \<Rightarrow> bytes option \<Rightarrow> ('e, 'e replay_error + bool) process" where
  "xmax_process entry targetXmax0 targetXmax1 =
     (case parse_int (NewValue entry) of
        Inl err \<Rightarrow> Return (Inl (ParseXmaxTxid (NewValue entry) err))
      | Inr expectedTxid \<Rightarrow>
          if decodeInt64 (slice_string targetXmax0) (slice_string targetXmax1) = Inr expectedTxid then Return (Inr False)
          else
            (let (s1, s2) = encodeInt64 expectedTxid
             in CallBatchWrite
                  [mk_write 2 (TargetY entry) (TargetZ entry) BlockTypeBanner (bytes_of_string s1),
                   mk_write 3 (TargetY entry) (TargetZ entry) BlockTypeBanner (bytes_of_string s2)]
                  (\<lambda>r. case r of Inl err \<Rightarrow> Return (Inl (WriteXmaxBanners err)) | Inr _ \<Rightarrow> Return (Inr True))))"

definition replay_process :: "Entry \<Rightarrow> ('e, 'e replay_error + bool) process" where
  "replay_process entry =
     (if Op entry = ''UPDATE_XMAX'' then
        CallRead 2 (TargetY entry) (TargetZ entry)
          (\<lambda>r. case r of
             Inl err \<Rightarrow> Return (Inl (ReadXmaxBanner0 err))
           | Inr targetXmax0 \<Rightarrow>
               CallRead 3 (TargetY entry) (TargetZ entry)
                 (\<lambda>r. case r of Inl err \<Rightarrow> Return (Inl (ReadXmaxBanner1 err)) | Inr targetXmax1 \<Rightarrow> xmax_process entry targetXmax0 targetXmax1))
      else if Op entry = ''INSERT'' then
        CallRead (TargetX entry) (TargetY entry) (TargetZ entry)
          (\<lambda>r. case r of Inl err \<Rightarrow> Return (Inl (ReadTargetBlock err)) | Inr _ \<Rightarrow> Return (Inr False))
      else Return (Inr False))"

definition recover_commit :: "int \<Rightarrow> Entry \<Rightarrow> 'e replay_error + bool \<Rightarrow> ('e, ('e wal_error + unit) option) process" where
  "recover_commit z entry r =
     (case r of
        Inl _ \<Rightarrow> Return None
      | Inr _ \<Rightarrow>
          CallWrite 0 walY z BlockTypeLectern (bytes_of_string (book_of entry ''COMMITTED''))
            (\<lambda>r. case r of
               Inl err \<Rightarrow> Return (Some (Inl (RecoverCommit (LSN entry) err)))
             | Inr _ \<Rightarrow> Locked (with_wal (raise_lsn (wrap64 (- z)) (wrap64 (wrap64 (- z) + 1)))) (\<lambda>_. Return None)))"

definition recover_entry :: "int \<Rightarrow> bytes option \<Rightarrow> ('e, ('e wal_error + unit) option) process" where
  "recover_entry z data =
     (if slice_len data = 0 then Locked (with_wal (raise_lsn (wrap64 (- z)) (wrap64 (- z)))) (\<lambda>_. Return (Some (Inr ())))
      else
        (case deserializeEntry (slice_string data) of
           Inl err \<Rightarrow> Return None
         | Inr entry \<Rightarrow>
             if Status entry = ''COMMITTED''
             then Locked (with_wal (raise_lsn (wrap64 (- z)) (wrap64 (wrap64 (- z) + 1)))) (\<lambda>_. Return None)
             else bind_process (replay_process entry) (recover_commit z entry)))"

definition recover_body :: "int \<Rightarrow> ('e, ('e wal_error + unit) option) process" where
  "recover_body z =
     CallForceLoad 0 (go_quot z 16)
       (\<lambda>r. case r of
          Inl err \<Rightarrow> Return (Some (Inl (RecoverForceload 0 (go_quot z 16) err)))
        | Inr _ \<Rightarrow>
            CallRead 0 walY z (\<lambda>r. case r of Inl err \<Rightarrow> Return (Some (Inl (RecoverRead z err))) | Inr data \<Rightarrow> recover_entry z data))"

primrec Recover_process :: "nat \<Rightarrow> int \<Rightarrow> ('e, ('e wal_error + unit) option) process" where
  "Recover_process 0 z = Return None"
| "Recover_process (Suc fuel) z =
     bind_process (recover_body z) (\<lambda>r. case r of Some x \<Rightarrow> Return (Some x) | None \<Rightarrow> Recover_process fuel (wrap64 (z - 1)))"

text \<open>The loop over \<open>n\<close> more catalog blocks from \<open>z\<close> on.\<close>

primrec load_process :: "nat \<Rightarrow> int \<Rightarrow> int \<Rightarrow> int \<Rightarrow> ('e, 'e storage_error + int \<times> int) process" where
  "load_process 0 z maxTableID lastZ = Return (Inr (maxTableID, lastZ))"
| "load_process (Suc n) z maxTableID lastZ =
     CallRead 0 catalogY z
       (\<lambda>r. case r of
          Inl err \<Rightarrow> Return (Inl (LoadCatalogRead z err))
        | Inr data \<Rightarrow>
            if slice_len data = 0 then Return (Inr (maxTableID, z))
            else
              (case deserializeRow (slice_bytes data) of
                 Inl _ \<Rightarrow> load_process n (z + 1) maxTableID lastZ
               | Inr row \<Rightarrow>
                   (case parseCatalogRow row of
                      Inl _ \<Rightarrow> load_process n (z + 1) maxTableID lastZ
                    | Inr entry \<Rightarrow>
                        Locked (set_table (entName entry) (new_meta (entTableID entry) (entName entry) (entColumns entry)))
                          (\<lambda>_. load_process n (z + 1)
                             (if entTableID entry > maxTableID then entTableID entry else maxTableID)
                             (if z + 1 > lastZ then z + 1 else lastZ)))))"

definition load_finish :: "int \<Rightarrow> int \<Rightarrow> Storage \<Rightarrow> Storage" where
  "load_finish maxTableID lastZ s =
     (let s = s\<lparr>nextCatalogZ := lastZ\<rparr>
      in if maxTableID \<ge> nextTableID s then s\<lparr>nextTableID := wrap64 (maxTableID + 1)\<rparr> else s)"

definition LoadCatalog_process :: "('e, 'e storage_error + unit) process" where
  "LoadCatalog_process =
     bind_process (load_process (nat maxCatalogZ) 0 0 0)
       (\<lambda>r. case r of
          Inl err \<Rightarrow> Return (Inl err)
        | Inr (maxTableID, lastZ) \<Rightarrow> Locked (load_finish maxTableID lastZ) (\<lambda>_. Return (Inr ())))"

lemma replay_process_run: "run h (replay_process entry) s w = (case replay h entry w of (r, w') \<Rightarrow> (r, s, w'))"
  by (auto simp: replay_process_def xmax_process_def replay_def replayUpdateXmax_def replayInsert_def Let_def split: prod.splits sum.splits)

lemma recover_body_run:
  "run h (recover_body z) s w = (case recover_iter h z (wal s) w of (r, wl, w') \<Rightarrow> (r, s\<lparr>wal := wl\<rparr>, w'))"
  by (auto simp: recover_body_def recover_entry_def recover_commit_def recover_iter_def run_bind replay_process_run with_wal_def Let_def
      split: prod.splits sum.splits)

lemma Recover_process_run:
  "(case recover_loop fuel h z (wal s) w of
      None \<Rightarrow> fst (run h (Recover_process fuel z) s w) = None
    | Some (r, wl, w') \<Rightarrow> run h (Recover_process fuel z) s w = (Some r, s\<lparr>wal := wl\<rparr>, w'))"
proof (induction fuel arbitrary: z s w)
  case (Suc fuel)
  obtain r wl w1 where 1: "recover_iter h z (wal s) w = (r, wl, w1)" by (metis prod_cases3)
  show ?case
    using Suc.IH [of "wrap64 (z - 1)" "s\<lparr>wal := wl\<rparr>" w1] 1
    by (cases r) (auto simp: run_bind recover_body_run split: option.splits)
qed simp

lemma load_process_run: "run h (load_process n z m l) s w = load_loop h z m l s w" if "z + int n = maxCatalogZ"
  using that
proof (induction n arbitrary: z m l s w)
  case 0
  then show ?case by (subst load_loop.simps) simp
next
  case (Suc n)
  have IH: "run h (load_process n (z + 1) m' l') s' w' = load_loop h (z + 1) m' l' s' w'" for m' l' s' w'
    using Suc.prems by (intro Suc.IH) simp
  have z: "z < maxCatalogZ" using Suc.prems by simp
  show ?case by (subst load_loop.simps) (simp add: z IH Let_def split: prod.splits sum.splits)
qed

lemma LoadCatalog_process_run: "run h LoadCatalog_process s w = LoadCatalog h s w"
proof -
  have "run h (load_process (nat maxCatalogZ) 0 0 0) s w = load_loop h 0 0 0 s w" by (rule load_process_run) (simp add: maxCatalogZ_def)
  then show ?thesis
    by (auto simp: LoadCatalog_process_def LoadCatalog_def run_bind load_finish_def Let_def split: prod.splits sum.splits)
qed

end
