(* ===== verification/Session.thy ===== *)
theory Session
  imports Sql
begin

text \<open>
  Statements one after the other, against an abstract database: a list of tables, each with its name, its columns and its row
  versions. \<open>sql_step\<close> is the specification of a statement, without blocks, log or catalog; the executor on any world that represents
  the database gives the same answers and goes on representing it.
\<close>

type_synonym abs_table = "string \<times> ColumnDef list \<times> version list"

definition table_index :: "string \<Rightarrow> abs_table list \<Rightarrow> nat option" where
  "table_index name db = List.find (\<lambda>p. fst (db ! p) = name) [0..<length db]"

definition columns_at :: "abs_table list \<Rightarrow> nat \<Rightarrow> ColumnDef list" where
  "columns_at db p = fst (snd (db ! p))"

definition rows_at :: "abs_table list \<Rightarrow> nat \<Rightarrow> version list" where
  "rows_at db p = snd (snd (db ! p))"

definition set_rows :: "nat \<Rightarrow> version list \<Rightarrow> abs_table list \<Rightarrow> abs_table list" where
  "set_rows p vs db = db[p := (fst (db ! p), columns_at db p, vs)]"

definition insert_row_values :: "InsertStmt \<Rightarrow> ColumnDef list \<Rightarrow> goval gomap" where
  "insert_row_values ins cols = insert_values (if insColumns ins = [] then map colName cols else insColumns ins) (insValues ins)"

definition create_step :: "CreateTableStmt \<Rightarrow> abs_table list \<Rightarrow> ('e exec_error + Result) \<times> abs_table list" where
  "create_step ct db =
     (if table_index (ctTable ct) db \<noteq> None then (Inl (ExecStorage (TableExists (ctTable ct))), db)
      else (Inr (tag_result ''CREATE TABLE''), db @ [(ctTable ct, table_columns (ctColumns ct), [])]))"

definition insert_step :: "int \<Rightarrow> InsertStmt \<Rightarrow> abs_table list \<Rightarrow> ('e exec_error + Result) \<times> abs_table list" where
  "insert_step txid ins db =
     (case table_index (insTable ins) db of
        None \<Rightarrow> (Inl (ExecStorage (TableNotFound (insTable ins))), db)
      | Some p \<Rightarrow>
          (Inr (tag_result ''INSERT 0 1''),
           set_rows p (rows_at db p @ [new_version txid (insert_row_values ins (columns_at db p))]) db))"

definition select_step :: "int \<Rightarrow> SelectStmt \<Rightarrow> abs_table list \<Rightarrow> ('e exec_error + Result) \<times> abs_table list" where
  "select_step txid sel db =
     (case table_index (selTable sel) db of
        None \<Rightarrow> (Inl (ExecStorage (TableNotFound (selTable sel))), db)
      | Some p \<Rightarrow>
          (let out = resolveOutputColumns (selColumns sel) (columns_at db p)
           in (Inr (select_result out (select_rows txid (columns_at db p) out (selWhere sel) (rows_at db p))), db)))"

definition delete_step :: "int \<Rightarrow> DeleteStmt \<Rightarrow> abs_table list \<Rightarrow> ('e exec_error + Result) \<times> abs_table list" where
  "delete_step txid del db =
     (case table_index (delTable del) db of
        None \<Rightarrow> (Inl (ExecStorage (TableNotFound (delTable del))), db)
      | Some p \<Rightarrow>
          (Inr (tag_result (''DELETE '' @ fmt_d (int (matching txid (columns_at db p) (delWhere del) (rows_at db p))))),
           set_rows p (map (delete_matching txid (columns_at db p) (delWhere del)) (rows_at db p)) db))"

definition sql_step :: "int \<Rightarrow> Statement \<Rightarrow> abs_table list \<Rightarrow> ('e exec_error + Result) \<times> abs_table list" where
  "sql_step txid stmt db =
     (if stmtType stmt = StmtCreateTable then
        (case stmtCreateTable stmt of None \<Rightarrow> (Inl NilCreateTable, db) | Some ct \<Rightarrow> create_step ct db)
      else if stmtType stmt = StmtInsert then
        (case stmtInsert stmt of None \<Rightarrow> (Inl NilInsert, db) | Some ins \<Rightarrow> insert_step txid ins db)
      else if stmtType stmt = StmtSelect then
        (case stmtSelect stmt of None \<Rightarrow> (Inl NilSelect, db) | Some sel \<Rightarrow> select_step txid sel db)
      else if stmtType stmt = StmtDelete then
        (case stmtDelete stmt of None \<Rightarrow> (Inl NilDelete, db) | Some del \<Rightarrow> delete_step txid del db)
      else (Inl UnsupportedStatement, db))"

text \<open>
  What a statement needs of the limits of the implementation: names and columns the catalog can hold, literals the
  columns can hold, distinct column names, room in the table, and \<open>lsn\<close>, the next LSN, below its bound.
\<close>

definition statement_fits :: "int \<Rightarrow> Statement \<Rightarrow> abs_table list \<Rightarrow> int \<Rightarrow> bool" where
  "statement_fits txid stmt db lsn \<longleftrightarrow> in_i64 txid \<and>
     (stmtType stmt = StmtCreateTable \<longrightarrow>
        (case stmtCreateTable stmt of
           None \<Rightarrow> True
         | Some ct \<Rightarrow> ctTable ct \<noteq> [] \<and> utf8_valid (ctTable ct) \<and> list_all column_ok (table_columns (ctColumns ct)) \<and> int (length db) < 2 ^ 40)) \<and>
     (stmtType stmt = StmtInsert \<longrightarrow>
        (case stmtInsert stmt of
           None \<Rightarrow> True
         | Some ins \<Rightarrow>
             (case table_index (insTable ins) db of
                None \<Rightarrow> True
              | Some p \<Rightarrow> list_all is_literal (insValues ins) \<and> length (rows_at db p) < 10000 \<and>
                  row_storable (columns_at db p) (insert_row_values ins (columns_at db p)) \<and> lsn + 1 < 2 ^ 62))) \<and>
     (stmtType stmt = StmtSelect \<longrightarrow>
        (case stmtSelect stmt of
           None \<Rightarrow> True
         | Some sel \<Rightarrow>
             (case table_index (selTable sel) db of None \<Rightarrow> True | Some p \<Rightarrow> columns_distinct (columns_at db p)))) \<and>
     (stmtType stmt = StmtDelete \<longrightarrow>
        (case stmtDelete stmt of
           None \<Rightarrow> True
         | Some del \<Rightarrow>
             (case table_index (delTable del) db of
                None \<Rightarrow> True
              | Some p \<Rightarrow> columns_distinct (columns_at db p) \<and> lsn + int (length (rows_at db p)) < 2 ^ 62)))"

text \<open>The log entries a statement writes.\<close>

definition entries_written :: "int \<Rightarrow> Statement \<Rightarrow> abs_table list \<Rightarrow> nat" where
  "entries_written txid stmt db =
     (if stmtType stmt = StmtInsert then
        (case stmtInsert stmt of
           None \<Rightarrow> 0
         | Some ins \<Rightarrow> (case table_index (insTable ins) db of None \<Rightarrow> 0 | Some p \<Rightarrow> 1))
      else if stmtType stmt = StmtDelete then
        (case stmtDelete stmt of
           None \<Rightarrow> 0
         | Some del \<Rightarrow>
             (case table_index (delTable del) db of
                None \<Rightarrow> 0
              | Some p \<Rightarrow> matching txid (columns_at db p) (delWhere del) (rows_at db p)))
      else 0)"

fun sql_session :: "(int \<times> Statement) list \<Rightarrow> abs_table list \<Rightarrow> ('e exec_error + Result) list \<times> abs_table list" where
  "sql_session [] db = ([], db)"
| "sql_session ((txid, stmt) # stmts) db =
     (case sql_step txid stmt db of (r, db') \<Rightarrow> (case sql_session stmts db' of (rs, db'') \<Rightarrow> (r # rs, db'')))"

fun session_fits :: "(int \<times> Statement) list \<Rightarrow> abs_table list \<Rightarrow> int \<Rightarrow> bool" where
  "session_fits [] db lsn = True"
| "session_fits ((txid, stmt) # stmts) db lsn \<longleftrightarrow>
     statement_fits txid stmt db lsn \<and>
     session_fits stmts (snd (sql_step txid stmt db :: (unit exec_error + Result) \<times> abs_table list)) (lsn + int (entries_written txid stmt db))"

fun Execute_all ::
  "('w, 'e) hal \<Rightarrow> (int \<times> Statement) list \<Rightarrow> Storage \<Rightarrow> 'w \<Rightarrow> ('e exec_error + Result) list \<times> Storage \<times> 'w" where
  "Execute_all h [] s w = ([], s, w)"
| "Execute_all h ((txid, stmt) # stmts) s w =
     (case Execute h (\<lambda>_. False) stmt txid s w of
        (r, s', w') \<Rightarrow> (case Execute_all h stmts s' w' of (rs, s'', w'') \<Rightarrow> (r # rs, s'', w'')))"

subsection \<open>The representation\<close>

definition session_rel :: "blocks \<Rightarrow> abs_table list \<Rightarrow> Storage \<Rightarrow> bool" where
  "session_rel b db s \<longleftrightarrow>
     state_rel b (map (\<lambda>t. snd (snd t)) db) s \<and> map (\<lambda>t. (tableName t, Columns t)) (metas s) = map (\<lambda>t. (fst t, fst (snd t))) db"

lemma session_relD:
  assumes "session_rel b db s"
  shows "state_rel b (map (\<lambda>t. snd (snd t)) db) s" "length (metas s) = length db"
    "p < length db \<Longrightarrow> tableName (metas s ! p) = fst (db ! p)" "p < length db \<Longrightarrow> Columns (metas s ! p) = columns_at db p"
proof -
  have m: "map (\<lambda>t. (tableName t, Columns t)) (metas s) = map (\<lambda>t. (fst t, fst (snd t))) db" using assms by (simp add: session_rel_def)
  show "state_rel b (map (\<lambda>t. snd (snd t)) db) s" using assms by (simp add: session_rel_def)
  show l: "length (metas s) = length db" using map_eq_imp_length_eq [OF m] .
  show "p < length db \<Longrightarrow> tableName (metas s ! p) = fst (db ! p)" "p < length db \<Longrightarrow> Columns (metas s ! p) = columns_at db p"
    using arg_cong [OF m, of "\<lambda>xs. xs ! p"] l by (simp_all add: columns_at_def)
qed

lemma session_index:
  assumes rel: "session_rel b db s"
  shows "map_of (tables s) name = table_index name db"
proof -
  have ok: "storage_ok b s" using session_relD(1) [OF rel] by (simp add: state_rel_def)
  have iff: "map_of (tables s) name = Some p \<longleftrightarrow> p < length db \<and> fst (db ! p) = name" for p
    using storage_ok_parts(1) [OF ok, of name p] session_relD(2,3) [OF rel] by auto
  show ?thesis
  proof (cases "table_index name db")
    case None
    then have "map_of (tables s) name \<noteq> Some p" for p using iff by (auto simp: table_index_def find_None_iff)
    then show ?thesis using None by (cases "map_of (tables s) name") auto
  next
    case (Some p)
    then have "p < length db \<and> fst (db ! p) = name" by (auto simp: table_index_def find_Some_iff)
    then show ?thesis using iff Some by simp
  qed
qed

lemma table_index_bound: "table_index name db = Some p \<Longrightarrow> p < length db"
  by (auto simp: table_index_def find_Some_iff)

lemma set_rows_map:
  "map (\<lambda>t. snd (snd t)) (set_rows p vs db) = (map (\<lambda>t. snd (snd t)) db)[p := vs]"
  by (simp add: set_rows_def map_update)

lemma set_rows_schema: "map (\<lambda>t. (fst t, fst (snd t))) (set_rows p vs db) = map (\<lambda>t. (fst t, fst (snd t))) db"
  by (cases "p < length db") (simp_all add: set_rows_def columns_at_def map_update list_update_same_conv list_update_beyond)

lemma session_relI:
  assumes "session_rel b db s" "state_rel b' ((map (\<lambda>t. snd (snd t)) db)[p := vs]) s'" "statics s' = statics s"
  shows "session_rel b' (set_rows p vs db) s'"
proof -
  have "map (\<lambda>t. (tableName t, Columns t)) (metas s') = map (\<lambda>t. (tableName t, Columns t)) (metas s)"
    using arg_cong [OF assms(3), of "map snd"] by (simp add: statics_def comp_def)
  then show ?thesis using assms(1,2) by (simp add: session_rel_def set_rows_map set_rows_schema)
qed

subsection \<open>Statements\<close>

lemma sql_step_state: "snd (sql_step txid stmt db :: ('e exec_error + Result) \<times> abs_table list) = snd (sql_step txid stmt db :: ('f exec_error + Result) \<times> abs_table list)"
  by (simp add: sql_step_def create_step_def insert_step_def select_step_def delete_step_def Let_def split: option.splits)

context hal_reliable
begin

lemma create_session:
  assumes rel: "session_rel (blocks w) db s" "world_ok w" and ct: "stmtCreateTable stmt = Some ct"
    and fit: "ctTable ct \<noteq> []" "utf8_valid (ctTable ct)" "list_all column_ok (table_columns (ctColumns ct))" "int (length db) < 2 ^ 40"
  shows "\<exists>s' w'. executeCreateTable h stmt s w = (fst (create_step ct db), s', w') \<and> world_ok w' \<and>
    session_rel (blocks w') (snd (create_step ct db :: ('b exec_error + Result) \<times> abs_table list)) s' \<and> nextLSN (wal s') = nextLSN (wal s)"
proof (cases "table_index (ctTable ct) db")
  case (Some p)
  then show ?thesis using rel session_index [OF rel(1), of "ctTable ct"] by (simp add: executeCreateTable_def ct CreateTable_def create_step_def)
next
  case None
  let ?cols = "table_columns (ctColumns ct)"
  note st = session_relD(1) [OF rel(1)]
  have new: "map_of (tables s) (ctTable ct) = None" using session_index [OF rel(1)] None by simp
  have ok: "storage_ok (blocks w) s" using st by (simp add: state_rel_def)
  have id: "nextTableID s < 2 ^ 48" using storage_ok_parts(4) [OF ok] session_relD(2) [OF rel(1)] fit(4) by simp
  obtain w' where run: "CreateTable h (ctTable ct) ?cols s w = (Inr (), created (ctTable ct) ?cols s, w')"
    by (rule CreateTable_run [OF rel(2) ok new id])
  from rel_create [OF st rel(2) run fit(1-3) id]
  have r: "world_ok w'" "state_rel (blocks w') (map (\<lambda>t. snd (snd t)) db @ [[]]) (created (ctTable ct) ?cols s)" by simp_all
  have "metas (created (ctTable ct) ?cols s) = metas s @ [new_meta (nextTableID s) (ctTable ct) ?cols]" "wal (created (ctTable ct) ?cols s) = wal s"
    by (simp_all add: created_def set_table_def)
  then show ?thesis using rel r run None by (simp add: executeCreateTable_def ct create_step_def session_rel_def new_meta_def)
qed

lemma insert_session:
  assumes rel: "session_rel (blocks w) db s" "world_ok w" and ins: "stmtInsert stmt = Some ins" and tx: "in_i64 txid"
    and p: "table_index (insTable ins) db = Some p"
    and fit: "list_all is_literal (insValues ins)" "length (rows_at db p) < 10000"
      "row_storable (columns_at db p) (insert_row_values ins (columns_at db p))" "nextLSN (wal s) + 1 < 2 ^ 62"
  shows "\<exists>s' w'. executeInsert h stmt txid s w = (fst (insert_step txid ins db), s', w') \<and> world_ok w' \<and>
    session_rel (blocks w') (snd (insert_step txid ins db :: ('b exec_error + Result) \<times> abs_table list)) s' \<and> nextLSN (wal s') = nextLSN (wal s) + 1"
proof -
  note st = session_relD [OF rel(1)]
  note pl = table_index_bound [OF p]
  have nm: "map_of (tables s) (insTable ins) = Some p" using session_index [OF rel(1)] p by simp
  have cols: "Columns (metas s ! p) = columns_at db p" by (rule st(4) [OF pl])
  have vs: "insert_row_values ins (columns_at db p) =
      insert_values (if insColumns ins = [] then map colName (Columns (metas s ! p)) else insColumns ins) (insValues ins)"
    by (simp add: cols insert_row_values_def)
  have "table_repr (blocks w) (metas s ! p) (rows_at db p)" using st(1) pl by (auto simp: state_rel_def db_repr_def rows_at_def)
  then have room: "RowCount (metas s ! p) < tableZSpacing" using fit(2) by (simp add: table_repr_def tableZSpacing_def)
  obtain s' w' where r: "executeInsert h stmt txid s w = (Inr (tag_result ''INSERT 0 1''), s', w')" "world_ok w'"
    "state_rel (blocks w') ((map (\<lambda>t. snd (snd t)) db)[p := map (\<lambda>t. snd (snd t)) db ! p @ [new_version txid (insert_row_values ins (columns_at db p))]]) s'"
    "statics s' = statics s" "nextLSN (wal s') = nextLSN (wal s) + 1"
    by (rule insert_run [OF st(1) rel(2) ins nm vs fit(1) room _ tx fit(4)]) (use fit(3) in \<open>simp_all add: cols\<close>)
  then show ?thesis using session_relI [OF rel(1) r(3,4)] p pl by (simp add: insert_step_def rows_at_def)
qed

lemma select_session:
  assumes rel: "session_rel (blocks w) db s" "world_ok w" and sel: "stmtSelect stmt = Some sel"
    and p: "table_index (selTable sel) db = Some p" and fit: "columns_distinct (columns_at db p)"
  shows "\<exists>w'. executeSelect h (\<lambda>_. False) stmt txid s w = (fst (select_step txid sel db), s, w') \<and> world_ok w' \<and> blocks w' = blocks w"
proof -
  note st = session_relD [OF rel(1)]
  note pl = table_index_bound [OF p]
  have nm: "map_of (tables s) (selTable sel) = Some p" using session_index [OF rel(1)] p by simp
  have cols: "Columns (metas s ! p) = columns_at db p" by (rule st(4) [OF pl])
  show ?thesis
    by (rule select_run [OF st(1) rel(2) sel nm, of txid]) (use fit p pl in \<open>auto simp: cols select_step_def rows_at_def Let_def\<close>)
qed

lemma delete_session:
  assumes rel: "session_rel (blocks w) db s" "world_ok w" and del: "stmtDelete stmt = Some del" and tx: "in_i64 txid"
    and p: "table_index (delTable del) db = Some p" and fit: "columns_distinct (columns_at db p)" "nextLSN (wal s) + int (length (rows_at db p)) < 2 ^ 62"
  shows "\<exists>s' w'. executeDelete h (\<lambda>_. False) stmt txid s w = (fst (delete_step txid del db), s', w') \<and> world_ok w' \<and>
    session_rel (blocks w') (snd (delete_step txid del db :: ('b exec_error + Result) \<times> abs_table list)) s' \<and>
    nextLSN (wal s') = nextLSN (wal s) + int (matching txid (columns_at db p) (delWhere del) (rows_at db p))"
proof -
  note st = session_relD [OF rel(1)]
  note pl = table_index_bound [OF p]
  have nm: "map_of (tables s) (delTable del) = Some p" using session_index [OF rel(1)] p by simp
  have cols: "Columns (metas s ! p) = columns_at db p" by (rule st(4) [OF pl])
  have rows: "map (\<lambda>t. snd (snd t)) db ! p = rows_at db p" using pl by (simp add: rows_at_def)
  have stmt: "stmtDelete stmt = Some \<lparr>delTable = delTable del, delWhere = delWhere del\<rparr>" using del by simp
  obtain s' w' where r: "executeDelete h (\<lambda>_. False) stmt txid s w =
      (Inr (tag_result (''DELETE '' @ fmt_d (int (matching txid (columns_at db p) (delWhere del) (rows_at db p))))), s', w')" "world_ok w'"
    "state_rel (blocks w') ((map (\<lambda>t. snd (snd t)) db)[p := map (delete_matching txid (columns_at db p) (delWhere del)) (rows_at db p)]) s'"
    "metas s' = metas s" "nextLSN (wal s') = nextLSN (wal s) + int (matching txid (columns_at db p) (delWhere del) (rows_at db p))"
    by (rule delete_run [OF st(1) rel(2) stmt nm _ tx]) (use fit in \<open>simp_all add: cols rows\<close>)
  have "statics s' = statics s" using r(4) by (simp add: statics_def)
  then show ?thesis using session_relI [OF rel(1) r(3)] r p by (simp add: delete_step_def)
qed

lemma Execute_session:
  assumes rel: "session_rel (blocks w) db s" "world_ok w" and fit: "statement_fits txid stmt db (nextLSN (wal s))"
  shows "\<exists>s' w'. Execute h (\<lambda>_. False) stmt txid s w = (fst (sql_step txid stmt db), s', w') \<and> world_ok w' \<and>
    session_rel (blocks w') (snd (sql_step txid stmt db :: ('b exec_error + Result) \<times> abs_table list)) s' \<and>
    nextLSN (wal s') = nextLSN (wal s) + int (entries_written txid stmt db)"
proof -
  note idx = session_index [OF rel(1)]
  have tx: "in_i64 txid" using fit by (simp add: statement_fits_def)
  consider "stmtType stmt = StmtCreateTable" | "stmtType stmt = StmtInsert" | "stmtType stmt = StmtSelect" | "stmtType stmt = StmtDelete"
    | "stmtType stmt \<notin> {StmtCreateTable, StmtInsert, StmtSelect, StmtDelete}" by blast
  then show ?thesis
  proof cases
    case 1
    show ?thesis
    proof (cases "stmtCreateTable stmt")
      case None
      then show ?thesis using 1 rel by (simp add: Execute_def executeCreateTable_def sql_step_def entries_written_def stmt_consts)
    next
      case (Some ct)
      then have "ctTable ct \<noteq> []" "utf8_valid (ctTable ct)" "list_all column_ok (table_columns (ctColumns ct))" "int (length db) < 2 ^ 40"
        using 1 fit by (simp_all add: statement_fits_def)
      from create_session [OF rel Some this] show ?thesis
        using 1 Some by (auto simp: Execute_def sql_step_def entries_written_def stmt_consts)
    qed
  next
    case 2
    show ?thesis
    proof (cases "stmtInsert stmt")
      case None
      then show ?thesis using 2 rel by (simp add: Execute_def executeInsert_def sql_step_def entries_written_def stmt_consts)
    next
      case (Some ins)
      show ?thesis
      proof (cases "table_index (insTable ins) db")
        case None
        then show ?thesis using 2 Some rel idx
          by (simp add: Execute_def executeInsert_def GetTable_def sql_step_def insert_step_def entries_written_def stmt_consts)
      next
        case p: (Some p)
        then have "list_all is_literal (insValues ins)" "length (rows_at db p) < 10000"
          "row_storable (columns_at db p) (insert_row_values ins (columns_at db p))" "nextLSN (wal s) + 1 < 2 ^ 62"
          using 2 Some fit by (simp_all add: statement_fits_def)
        from insert_session [OF rel Some tx p this] show ?thesis
          using 2 Some p by (auto simp: Execute_def sql_step_def entries_written_def stmt_consts)
      qed
    qed
  next
    case 3
    show ?thesis
    proof (cases "stmtSelect stmt")
      case None
      then show ?thesis using 3 rel by (simp add: Execute_def executeSelect_def sql_step_def entries_written_def stmt_consts)
    next
      case (Some sel)
      show ?thesis
      proof (cases "table_index (selTable sel) db")
        case None
        then show ?thesis using 3 Some rel idx
          by (simp add: Execute_def executeSelect_def GetTable_def sql_step_def select_step_def entries_written_def stmt_consts)
      next
        case p: (Some p)
        then have d: "columns_distinct (columns_at db p)" using 3 Some fit by (simp add: statement_fits_def)
        have "snd (select_step txid sel db) = db" using p by (simp add: select_step_def Let_def)
        with select_session [OF rel Some p d, of txid] show ?thesis
          using 3 Some p rel(1) by (auto simp: Execute_def sql_step_def entries_written_def stmt_consts select_step_def Let_def)
      qed
    qed
  next
    case 4
    show ?thesis
    proof (cases "stmtDelete stmt")
      case None
      then show ?thesis using 4 rel by (simp add: Execute_def executeDelete_def sql_step_def entries_written_def stmt_consts)
    next
      case (Some del)
      show ?thesis
      proof (cases "table_index (delTable del) db")
        case None
        then show ?thesis using 4 Some rel idx
          by (simp add: Execute_def executeDelete_def GetTable_def sql_step_def delete_step_def entries_written_def stmt_consts)
      next
        case p: (Some p)
        then have "columns_distinct (columns_at db p)" "nextLSN (wal s) + int (length (rows_at db p)) < 2 ^ 62"
          using 4 Some fit by (simp_all add: statement_fits_def)
        from delete_session [OF rel Some tx p this] show ?thesis
          using 4 Some p by (auto simp: Execute_def sql_step_def entries_written_def stmt_consts)
      qed
    qed
  next
    case 5
    then show ?thesis using rel by (simp add: Execute_def sql_step_def entries_written_def)
  qed
qed

lemma Execute_all_session:
  "session_rel (blocks w) db s \<Longrightarrow> world_ok w \<Longrightarrow> session_fits stmts db (nextLSN (wal s)) \<Longrightarrow>
   \<exists>s' w'. Execute_all h stmts s w = (fst (sql_session stmts db), s', w') \<and> world_ok w' \<and>
     session_rel (blocks w') (snd (sql_session stmts db :: ('b exec_error + Result) list \<times> abs_table list)) s'"
proof (induction stmts arbitrary: db s w)
  case (Cons a stmts)
  obtain txid stmt where a: "a = (txid, stmt)" by fastforce
  let ?step = "sql_step txid stmt db :: ('b exec_error + Result) \<times> abs_table list"
  have fit: "statement_fits txid stmt db (nextLSN (wal s))"
    "session_fits stmts (snd ?step) (nextLSN (wal s) + int (entries_written txid stmt db))"
    using Cons.prems(3) by (simp_all add: a sql_step_state [where 'e = 'b and 'f = unit])
  obtain s1 w1 where 1: "Execute h (\<lambda>_. False) stmt txid s w = (fst ?step, s1, w1)" "world_ok w1" "session_rel (blocks w1) (snd ?step) s1"
    "nextLSN (wal s1) = nextLSN (wal s) + int (entries_written txid stmt db)"
    using Execute_session [OF Cons.prems(1,2) fit(1)] by blast
  obtain s' w' where "Execute_all h stmts s1 w1 = (fst (sql_session stmts (snd ?step)), s', w')" "world_ok w'"
    "session_rel (blocks w') (snd (sql_session stmts (snd ?step) :: ('b exec_error + Result) list \<times> abs_table list)) s'"
    using Cons.IH [OF 1(3,2)] fit(2) 1(4) by auto
  then show ?case using 1(1) by (auto simp: a split: prod.splits)
qed simp

end

text \<open>A session on an empty world: a table, a row, its deletion, and an insert into a table that does not exist.\<close>

definition sample_session :: "(int \<times> Statement) list" where
  "sample_session =
     [(1, (empty_statement StmtCreateTable)\<lparr>stmtCreateTable := Some \<lparr>ctTable = ''t'', ctColumns = [\<lparr>sqlName = ''a'', sqlType = ''int4''\<rparr>]\<rparr>\<rparr>),
      (1, insert_stmt ''t'' [VInt64 7]), (1, delete_stmt ''t'' []), (1, insert_stmt ''u'' [VInt64 8])]"

lemma sample_session_answers:
  "(sql_session sample_session [] :: (unit exec_error + Result) list \<times> abs_table list) =
     ([Inr (tag_result ''CREATE TABLE''), Inr (tag_result ''INSERT 0 1''), Inr (tag_result ''DELETE 1''), Inl (ExecStorage (TableNotFound ''u''))],
      [(''t'', [\<lparr>colName = ''a'', colOrdinal = 0, colType = ''INT''\<rparr>], [\<lparr>vmin = 1, vmax = Some 1, vals = [(''a'', VInt64 7)]\<rparr>])])"
  by code_simp

lemma sample_session_fits: "session_fits sample_session [] 1"
  by code_simp

subsection \<open>Properties\<close>

text \<open>
  Property C2: sessions. Any sequence of statements within the limits of the implementation, executed on a world that
  represents an abstract database, gives exactly the answers of the specification (results, tags and errors such as an
  unknown table or one that exists already), and the final world represents the database that the specification ends with.
\<close>

theorem session_refines:
  fixes h :: "('w, 'e) hal"
  assumes "hal_reliable h blocks ok" "ok w" "session_rel (blocks w) db s" "session_fits stmts db (nextLSN (wal s))"
    "sql_session stmts db = (answers, db')"
  shows "\<exists>s' w'. Execute_all h stmts s w = (answers, s', w') \<and> ok w' \<and> session_rel (blocks w') db' s'"
  using hal_reliable.Execute_all_session [OF assms(1,3,2,4)] assms(5) by auto

theorem session_refines_witness:
  "\<exists>s' w'. Execute_all (mock_hal :: (mock, unit) hal) sample_session (NewStorage NewWAL) NewStorage_mock =
      ([Inr (tag_result ''CREATE TABLE''), Inr (tag_result ''INSERT 0 1''), Inr (tag_result ''DELETE 1''), Inl (ExecStorage (TableNotFound ''u''))], s', w') \<and>
    session_rel (mock_blocks w')
      [(''t'', [\<lparr>colName = ''a'', colOrdinal = 0, colType = ''INT''\<rparr>], [\<lparr>vmin = 1, vmax = Some 1, vals = [(''a'', VInt64 7)]\<rparr>])] s'"
proof -
  have "session_rel (mock_blocks NewStorage_mock) [] (NewStorage NewWAL)"
    using mock_start by (simp add: session_rel_def) (simp add: NewStorage_def)
  moreover have "session_fits sample_session [] (nextLSN (wal (NewStorage NewWAL)))"
    using sample_session_fits by (simp add: NewStorage_def NewWAL_def)
  ultimately show ?thesis
    using session_refines [OF mock.hal_reliable_axioms mock_ok_new _ _ sample_session_answers] by blast
qed

end
