(* ===== verification/Remote.thy ===== *)
theory Remote
  imports Program Session Concurrent Hal_Client Boot
begin

text \<open>
  The whole system over the network: statements executed on the TCP client that is connected to a peer which keeps blocks. The client
  is a block store only for what its protocol can carry: coordinates of 32 bits and data whose length
  fits. \<open>transmits\<close> says that every call a process makes stays within these limits, and a process that does runs over the client
  exactly as over an ideal block store. The rest shows that every statement stays within them while the tables, the log and the
  literals do.
\<close>

subsection \<open>An ideal store\<close>

definition blocks_hal :: "(blocks, 'e) hal" where
  "blocks_hal =
     \<lparr>ReadBlock = (\<lambda>x y z b. (Inr (b (x, y, z)), b)), WriteBlock = (\<lambda>x y z t d b. (Inr (), put_block (x, y, z) d b)),
      BatchRead = (\<lambda>ps b. (Inr (map (b \<circ> pos_key) ps), b)), BatchWrite = (\<lambda>ws b. (Inr (), put_writes ws b)),
      ForceLoadChunk = (\<lambda>cx cz b. (Inr (), b)), IsChunkLoaded = (\<lambda>cx cz b. (Inr True, b))\<rparr>"

definition no_empty :: "blocks \<Rightarrow> bool" where
  "no_empty b \<longleftrightarrow> (\<forall>q. b q \<noteq> Some [])"

lemma no_empty_put [simp]: "no_empty b \<Longrightarrow> no_empty (put_block q d b)"
  using put_block_no_empty by (simp add: no_empty_def)

lemma no_empty_writes [simp]: "no_empty b \<Longrightarrow> no_empty (put_writes ws b)"
  by (induction ws arbitrary: b) (simp_all add: put_write_def)

lemma no_emptyD: "no_empty b \<Longrightarrow> b q \<noteq> Some []"
  unfolding no_empty_def by blast

interpretation ideal: hal_reliable blocks_hal "\<lambda>b. b" no_empty
  by unfold_locales (auto simp: blocks_hal_def no_emptyD)

subsection \<open>What the protocol carries\<close>

text \<open>Blocks of up to 1 MiB and batches of up to 1028 blocks are far inside the lengths of 32 bits.\<close>

definition blockLimit :: nat where "blockLimit = 1048576"

definition batchLimit :: nat where "batchLimit = 1028"

definition limited :: "blocks \<Rightarrow> bool" where
  "limited b \<longleftrightarrow> (\<forall>q. b q \<noteq> Some [] \<and> length (slice_bytes (b q)) \<le> blockLimit)"

definition write_fits :: "BlockWrite \<Rightarrow> bool" where
  "write_fits bw \<longleftrightarrow> i32_pos (Pos bw) \<and> length (Data bw) \<le> blockLimit"

text \<open>
  \<open>transmits p Q s b\<close>: every call that \<open>p\<close> makes from a state \<open>s\<close> and blocks \<open>b\<close> is within the limits, whether earlier calls succeeded, failed or
  took effect and failed, and \<open>Q\<close> holds at the end.
\<close>

primrec transmits :: "('e, 'r) process \<Rightarrow> ('r \<Rightarrow> Storage \<Rightarrow> blocks \<Rightarrow> bool) \<Rightarrow> Storage \<Rightarrow> blocks \<Rightarrow> bool" where
  "transmits (Return r) Q s b \<longleftrightarrow> Q r s b"
| "transmits (CallRead x y z k) Q s b \<longleftrightarrow>
     i32_pos (mk_pos x y z) \<and> transmits (k (Inr (b (x, y, z)))) Q s b \<and> (\<forall>e. transmits (k (Inl e)) Q s b)"
| "transmits (CallWrite x y z t d k) Q s b \<longleftrightarrow>
     i32_pos (mk_pos x y z) \<and> length d \<le> blockLimit \<and> transmits (k (Inr ())) Q s (put_block (x, y, z) d b) \<and>
     (\<forall>e. transmits (k (Inl e)) Q s b \<and> transmits (k (Inl e)) Q s (put_block (x, y, z) d b))"
| "transmits (CallBatchRead ps k) Q s b \<longleftrightarrow>
     list_all i32_pos ps \<and> length ps \<le> batchLimit \<and> transmits (k (Inr (map (b \<circ> pos_key) ps))) Q s b \<and> (\<forall>e. transmits (k (Inl e)) Q s b)"
| "transmits (CallBatchWrite ws k) Q s b \<longleftrightarrow>
     list_all write_fits ws \<and> length ws \<le> batchLimit \<and> transmits (k (Inr ())) Q s (put_writes ws b) \<and>
     (\<forall>e. transmits (k (Inl e)) Q s b \<and> transmits (k (Inl e)) Q s (put_writes ws b))"
| "transmits (CallForceLoad cx cz k) Q s b \<longleftrightarrow> transmits (k (Inr ())) Q s b \<and> (\<forall>e. transmits (k (Inl e)) Q s b)"
| "transmits (Locked f k) Q s b \<longleftrightarrow> transmits (k s) Q (f s) b"

lemma transmits_bind: "transmits (bind_process p f) Q s b \<longleftrightarrow> transmits p (\<lambda>r. transmits (f r) Q) s b"
  by (induction p arbitrary: s b) simp_all

lemma transmits_mono: "transmits p Q s b \<Longrightarrow> (\<And>r s b. Q r s b \<Longrightarrow> Q' r s b) \<Longrightarrow> transmits p Q' s b"
  by (induction p arbitrary: s b) auto

lemma limited_put: "limited b \<Longrightarrow> length d \<le> blockLimit \<Longrightarrow> limited (put_block q d b)"
  by (auto simp: limited_def put_block_apply slice_bytes_def)

lemma limited_writes: "limited b \<Longrightarrow> list_all write_fits ws \<Longrightarrow> limited (put_writes ws b)"
  by (induction ws arbitrary: b) (auto simp: put_write_def write_fits_def intro!: limited_put)

lemma length_concat_le: "(\<And>x. x \<in> set xs \<Longrightarrow> length (f x) \<le> n) \<Longrightarrow> length (concat (map f xs)) \<le> length xs * n"
  by (induction xs) (auto simp: add_le_mono)

lemma limitedD: "limited b \<Longrightarrow> b q \<noteq> Some [] \<and> length (slice_bytes (b q)) \<le> blockLimit"
  unfolding limited_def by blast

lemma limited_no_empty: "limited b \<Longrightarrow> no_empty b"
  by (simp add: limited_def no_empty_def)

lemma limited_small:
  assumes "limited b"
  shows "small_blocks b"
  unfolding small_blocks_def
proof
  fix q
  show "b q \<noteq> Some [] \<and> length (slice_bytes (b q)) + 10 < 2 ^ 32"
    using limitedD [OF assms, of q] by (simp add: blockLimit_def)
qed

lemma limited_batch:
  assumes "limited b" "length ps \<le> batchLimit"
  shows "length (batch_response (map (b \<circ> pos_key) ps)) + 1 < 2 ^ 32"
proof -
  have d: "length (slice_bytes (b q)) \<le> blockLimit" for q using limitedD [OF assms(1), of q] by blast
  have "length (concat (map data_response (map (b \<circ> pos_key) ps))) \<le> length (map (b \<circ> pos_key) ps) * (4 + blockLimit)"
    by (intro length_concat_le) (auto intro: d)
  also have "\<dots> \<le> batchLimit * (4 + blockLimit)" using assms(2) by simp
  finally show ?thesis by (simp add: batch_response_def batchLimit_def blockLimit_def)
qed

lemma limited_batch_payload:
  assumes "list_all write_fits ws" "length ws \<le> batchLimit"
  shows "length (batch_write_payload ws) + 5 < 2 ^ 32" "length ws < 2 ^ 32" "\<forall>w \<in> set ws. length (Data w) < 2 ^ 32"
proof -
  let ?f = "\<lambda>w. write_bytes (PosX (Pos w)) (PosY (Pos w)) (PosZ (Pos w)) (BlockType w) (Data w)"
  have "length (concat (map ?f ws)) \<le> length ws * (17 + blockLimit)"
    using assms(1) by (intro length_concat_le) (auto simp: list_all_iff write_fits_def)
  also have "\<dots> \<le> batchLimit * (17 + blockLimit)" using assms(2) by simp
  finally show "length (batch_write_payload ws) + 5 < 2 ^ 32" by (simp add: batch_write_payload_def batchLimit_def blockLimit_def)
  show "length ws < 2 ^ 32" "\<forall>w \<in> set ws. length (Data w) < 2 ^ 32"
    using assms by (auto simp: list_all_iff write_fits_def batchLimit_def blockLimit_def)
qed

text \<open>A process within the limits runs over the client as over the ideal store.\<close>

lemma transmits_run:
  assumes "transmits p Q s b" "limited b"
  shows "\<exists>r s' b'. run blocks_hal p s b = (r, s', b') \<and> run (peer_hal fuel) p s (on b) = (r, s', on b') \<and> Q r s' b' \<and> limited b'"
  using assms
proof (induction p arbitrary: s b)
  case (CallRead x y z k)
  have "ReadBlock (peer_hal fuel) x y z (on b) = (Inr (b (x, y, z)), on b)"
    using CallRead.prems by (intro client_read limited_small) (simp_all add: i32_pos_def)
  then show ?case using CallRead by (simp add: blocks_hal_def)
next
  case (CallWrite x y z t d k)
  have "WriteBlock (peer_hal fuel) x y z t d (on b) = (Inr (), on (put_block (x, y, z) d b))"
    using CallWrite.prems by (intro client_write) (simp_all add: i32_pos_def blockLimit_def)
  then show ?case using CallWrite limited_put [of b d] by (simp add: blocks_hal_def)
next
  case (CallBatchRead ps k)
  have "BatchRead (peer_hal fuel) ps (on b) = (Inr (map (b \<circ> pos_key) ps), on b)"
    using CallBatchRead.prems by (intro client_batch_read limited_small limited_batch) (simp_all add: batchLimit_def)
  then show ?case using CallBatchRead by (simp add: blocks_hal_def)
next
  case (CallBatchWrite ws k)
  have f: "list_all write_fits ws" "length ws \<le> batchLimit" using CallBatchWrite.prems by simp_all
  then have "BatchWrite (peer_hal fuel) ws (on b) = (Inr (), on (put_writes ws b))"
    using limited_batch_payload by (intro client_batch_write) (auto simp: list_all_iff write_fits_def)
  then show ?case using CallBatchWrite limited_writes [of b ws] by (simp add: blocks_hal_def)
next
  case (CallForceLoad cx cz k)
  then show ?case by (simp add: blocks_hal_def client_force)
qed simp_all

subsection \<open>The sizes of log entries and rows\<close>

lemma length_dec_digits: "0 \<le> n \<Longrightarrow> n < 10 ^ Suc k \<Longrightarrow> length (dec_digits n) \<le> Suc k"
proof (induction k arbitrary: n)
  case 0
  then show ?case by (subst dec_digits.simps) simp
next
  case (Suc k)
  have "length (dec_digits (n div 10)) \<le> Suc k" if "\<not> n < 10" using Suc.prems by (intro Suc.IH) auto
  then show ?case by (subst dec_digits.simps) simp
qed

lemma length_fmt_d: "in_i64 i \<Longrightarrow> length (fmt_d i) \<le> 20"
  using length_dec_digits [of i 18] length_dec_digits [of "- i" 18] by (auto simp: in_i64_def fmt_d_def)

lemma length_Join: "length (Join ps sep) \<le> sum_list (map length ps) + length sep * length ps"
  by (induction ps sep rule: Join.induct) simp_all

lemma length_value_pages: "length (value_pages v) \<le> length v"
proof (induction v rule: value_pages.induct)
  case (1 v)
  show ?case
  proof (cases "v = []")
    case False
    then have "0 < length v" by simp
    moreover have "length (value_pages (drop 200 v)) \<le> length v - 200" using 1 False by simp
    ultimately have "Suc (length (value_pages (drop 200 v))) \<le> length v" by linarith
    then show ?thesis by (simp add: value_pages_step [OF False])
  qed simp
qed

definition valueLimit :: nat where "valueLimit = 65536"

text \<open>The book of an entry whose new value has at most 64 KiB fits a block.\<close>

lemma length_book:
  assumes "entry_ok e" "length (Op e) \<le> 16" "length (NewValue e) \<le> valueLimit" "length status \<le> 16"
  shows "length (book_of e status) \<le> blockLimit"
proof -
  let ?ps = "[page1 (LSN e) (TXID e) status, page2 (Op e) (TableID e), page3 (TargetX e) (TargetY e) (TargetZ e)]"
  have "in_i64 (LSN e)" "in_i64 (TXID e)" "in_i64 (TableID e)" "in_i64 (TargetX e)" "in_i64 (TargetY e)" "in_i64 (TargetZ e)"
    using assms(1) by (simp_all add: entry_ok_def)
  note d = this [THEN length_fmt_d]
  have p: "sum_list (map length ?ps) \<le> 200" using d assms(2,4) by (simp add: page1_def page2_def page3_def)
  have "sum_list (map length (value_pages (NewValue e))) = length (NewValue e)"
    using arg_cong [OF value_pages_concat [of "NewValue e"], of length] by (simp add: length_concat)
  then show ?thesis
    using p length_Join [of "?ps @ value_pages (NewValue e)" pageSep] length_value_pages [of "NewValue e"] assms(3)
    by (simp add: book_of_def serializeEntry_def pageSep_def valueLimit_def blockLimit_def)
qed

lemma length_sign: "length (encodeSignData (EncodeText t)) \<le> blockLimit"
proof -
  have l: "length (EncodeText t ! i) \<le> 16" if "i < 4" for i
    using EncodeText_lines [of t] that by (simp add: list_all_length signLineLen_def)
  show ?thesis using l [of 0] l [of 1] l [of 2] l [of 3] by (simp add: encodeSignData_def nul_def blockLimit_def)
qed

lemma row_data_fits: "d \<in> set (banner_data cols vs @ sign_data cols vs) \<Longrightarrow> length d \<le> blockLimit"
  by (induction cols) (auto simp: Let_def length_sign [unfolded blockLimit_def] length_EncodeInt64 blockLimit_def split: if_splits)

text \<open>A table whose planes the client can address and whose strips fit a batch.\<close>

definition tableLimit :: int where "tableLimit = 200000"

definition addressable :: "TableMeta \<Rightarrow> bool" where
  "addressable t \<longleftrightarrow> meta_ok t \<and> ID t \<le> tableLimit \<and> StripWidth t \<le> int batchLimit"

lemma addressable_plane:
  assumes "addressable t" "0 \<le> i" "i \<le> tableZSpacing"
  shows "wrap64 (ZStart t + i) = ZStart t + i" "0 \<le> ZStart t + i" "in_i32 (ZStart t + i)" "YLevel t = tableY"
proof -
  have t: "meta_ok t" "ID t \<le> 200000" using assms(1) by (simp_all add: addressable_def tableLimit_def)
  then show "wrap64 (ZStart t + i) = ZStart t + i" "0 \<le> ZStart t + i" using meta_z_range [OF t(1) assms(2,3)] by simp_all
  then show "in_i32 (ZStart t + i)" "YLevel t = tableY" using t assms(3) by (auto simp: in_i32_def meta_ok_def tableZSpacing_def)
qed

lemma seq_writes_fit:
  assumes "seq_writes tableY z off ws" "in_i32 z" "0 \<le> off" "off + int (length ws) \<le> int batchLimit" "\<forall>d \<in> set (map Data ws). length d \<le> blockLimit"
  shows "list_all write_fits ws \<and> list_all (\<lambda>w. PosZ (Pos w) = z) ws"
  using assms
proof (induction ws arbitrary: off)
  case (Cons bw ws)
  have "list_all write_fits ws \<and> list_all (\<lambda>w. PosZ (Pos w) = z) ws" using Cons.prems by (intro Cons.IH [of "off + 1"]) simp_all
  moreover have "write_fits bw" using Cons.prems by (simp add: write_fits_def i32_pos_def in_i32_def tableY_def batchLimit_def)
  ultimately show ?case using Cons.prems(1) by simp
qed simp

lemma row_writes_fit:
  assumes "addressable t" "in_i32 z"
  shows "list_all write_fits (row_writes (Columns t) vs txid (YLevel t) z)" "length (row_writes (Columns t) vs txid (YLevel t) z) \<le> batchLimit"
    "list_all (\<lambda>w. PosZ (Pos w) = z) (row_writes (Columns t) vs txid (YLevel t) z)"
proof -
  let ?ws = "row_writes (Columns t) vs txid (YLevel t) z"
  have y: "YLevel t = tableY" and w: "stripWidth (Columns t) \<le> int batchLimit" using assms(1) by (simp_all add: addressable_def meta_ok_def)
  then show l: "length ?ws \<le> batchLimit" using length_row_writes [of "Columns t" vs txid "YLevel t" z] by simp
  have "\<forall>d \<in> set (map Data ?ws). length d \<le> blockLimit"
    unfolding row_writes_data(1) using row_data_fits [of _ "Columns t" vs] by (auto simp: length_EncodeInt64 blockLimit_def)
  then have "list_all write_fits ?ws \<and> list_all (\<lambda>w. PosZ (Pos w) = z) ?ws"
    using row_writes_data(2) [of "YLevel t" z] l assms(2) y by (intro seq_writes_fit [of z 0]) auto
  then show "list_all write_fits ?ws" "list_all (\<lambda>w. PosZ (Pos w) = z) ?ws" by simp_all
qed

subsection \<open>Processes within the limits\<close>

lemma transmits_logged:
  assumes l: "1 \<le> nextLSN (wal s)" "nextLSN (wal s) < 2 ^ 31"
    and e: "entry_ok (numbered e (nextLSN (wal s)))" "length (Op e) \<le> 16" "length (NewValue e) \<le> valueLimit"
    and ws: "list_all write_fits ws" "length ws \<le> batchLimit" "list_all (\<lambda>w. 0 \<le> PosZ (Pos w)) ws"
    and Q: "\<And>r b'. Q r (bump_lsn s) b'"
  shows "transmits (logged e ws werr res) Q s b"
proof -
  let ?l = "nextLSN (wal s)" and ?e = "numbered e (nextLSN (wal s))"
  have pos: "wrap64 (- ?l) = - ?l" "i32_pos (mk_pos 0 walY (- ?l))"
    using l by (simp_all add: in_i64_def i32_pos_def in_i32_def tableY_def)
  have len: "length (book_of ?e st) \<le> blockLimit" if "length st \<le> 16" for st
    using length_book [OF e(1), of st] e(2,3) that by (simp add: numbered_def)
  have n: "\<forall>w \<in> set ws. pos_key (Pos w) \<noteq> (0, walY, - ?l)" using ws(3) l(1) by (auto simp: list_all_iff pos_key_def)
  have ne: "bytes_of_string (book_of ?e ''PENDING'') \<noteq> []"
    using deserialize_numbered [OF e(1)] by (auto simp: deserializeEntry_def Split.simps [of "[]"] Let_def)
  show ?thesis
    using pos len [of "''PENDING''"] len [of "''COMMITTED''"] ws(1,2) Q deserialize_numbered [OF e(1)] put_writes_frame [OF n] ne
    by (simp add: logged_def transmits_bind Append_process_def append_load_def append_write_def logged_write_def Commit_process_def commit_write_def
        logged_commit_def book_numbered [symmetric] slice_len_def slice_string_def slice_bytes_def)
qed

lemma transmits_insert:
  assumes t: "addressable (metas s ! p)" "RowCount (metas s ! p) < tableZSpacing" and tx: "in_i64 txid"
    and js: "Marshal (VMap vs) = Inr js" "length js \<le> valueLimit" and l: "1 \<le> nextLSN (wal s)" "nextLSN (wal s) < 2 ^ 31"
  shows "transmits (InsertRow_process p vs txid) (\<lambda>_ _ _. True) s b"
proof -
  let ?t = "metas s ! p" and ?z = "ZStart (metas s ! p) + RowCount (metas s ! p)"
  have r: "0 \<le> RowCount ?t" "RowCount ?t \<le> tableZSpacing" using t by (simp_all add: addressable_def meta_ok_def)
  note z = addressable_plane [OF t(1) r]
  note ws = row_writes_fit [OF t(1) z(3), of vs txid]
  have id: "in_i64 (ID ?t)" using t(1) by (simp add: addressable_def meta_ok_def in_i64_def)
  have e: "entry_ok (numbered (insert_entry txid (ID ?t) (YLevel ?t) ?z js) (nextLSN (wal (bump_rows p s))))"
    using tx id z l Marshal_text [OF js(1)]
    by (simp add: entry_ok_def numbered_def insert_entry_def empty_entry_def bump_rows_def in_i64_def in_i32_def tableY_def)
  have "transmits (logged (insert_entry txid (ID ?t) (YLevel ?t) ?z js) (row_writes (Columns ?t) vs txid (YLevel ?t) ?z) BatchWriteRow
      (mk_pos 0 (YLevel ?t) ?z)) (\<lambda>_ _ _. True) (bump_rows p s) b"
    by (rule transmits_logged [OF _ _ e _ _ ws(1,2)])
      (use ws(3) z(2) l js(2) in \<open>auto simp: bump_rows_def insert_entry_def list_all_iff\<close>)
  then show ?thesis using js(1) z(1) by (simp add: InsertRow_process_def insert_load_def Let_def)
qed

lemma delete_writes_fit:
  "i32_pos pos \<Longrightarrow> list_all write_fits (delete_writes pos txid) \<and> length (delete_writes pos txid) \<le> batchLimit \<and>
     list_all (\<lambda>w. PosZ (Pos w) = PosZ pos) (delete_writes pos txid)"
  by (simp add: delete_writes_def write_fits_def i32_pos_def in_i32_def batchLimit_def blockLimit_def length_EncodeInt64 case_prod_unfold Let_def)

lemma transmits_mark:
  assumes pos: "i32_pos pos" "0 \<le> PosZ pos" and tx: "in_i64 txid" and l: "1 \<le> nextLSN (wal s)" "nextLSN (wal s) < 2 ^ 31"
    and Q: "\<And>r s' b'. s' = s \<or> s' = bump_lsn s \<Longrightarrow> Q r s' b'"
  shows "transmits (MarkDeleted_process pos txid) Q s b"
proof -
  note ws = delete_writes_fit [OF pos(1), of txid]
  have e: "entry_ok (numbered (Process.delete_entry pos txid) (nextLSN (wal s)))"
    using tx l pos in_i32_in_i64 by (simp add: entry_ok_def numbered_def Process.delete_entry_def empty_entry_def i32_pos_def) (simp add: in_i64_def)
  have "transmits (logged (Process.delete_entry pos txid) (delete_writes pos txid) WriteDeleteMarker ()) Q s b"
    by (rule transmits_logged [OF l e])
      (use ws pos(2) Q length_fmt_d [OF tx] in \<open>auto simp: Process.delete_entry_def valueLimit_def list_all_iff\<close>)
  then show ?thesis using pos(1) Q by (simp add: MarkDeleted_process_def delete_check_def i32_pos_def in_i32_def)
qed

lemma transmits_scan:
  assumes t: "addressable t" and ri: "0 \<le> ri" "ri \<le> tableZSpacing"
    and Q: "\<And>r. (\<And>row. r = Some (ScanRow row) \<Longrightarrow> rowBlockPos row = Some (mk_pos 0 (YLevel t) (ZStart t + ri))) \<Longrightarrow>
      Q r s b"
  shows "transmits (scan_process t txid ri) Q s b"
proof -
  note z = addressable_plane [OF t ri]
  have w: "StripWidth t \<le> int batchLimit" using t by (simp add: addressable_def)
  have ps: "list_all i32_pos (map (\<lambda>ox. mk_pos ox (YLevel t) (ZStart t + ri)) [0..StripWidth t - 1])"
    "length (map (\<lambda>ox. mk_pos ox (YLevel t) (ZStart t + ri)) [0..StripWidth t - 1]) \<le> batchLimit"
    using w z(3,4) by (auto simp: list_all_iff i32_pos_def in_i32_def tableY_def batchLimit_def)
  have row: "rowBlockPos row = Some (mk_pos 0 (YLevel t) (ZStart t + ri))" if "scan_decode t txid (ZStart t + ri) data = Some row" for data row
    using that rowBlockPos_located [of t "ZStart t + ri"] by (auto simp: scan_decode_def located_def split: if_splits sum.splits)
  show ?thesis
    using ps by (simp add: scan_process_def scan_read_def z(1) Let_def) (auto intro!: Q row)
qed

lemma transmits_scan_all:
  fixes Q :: "'e ScanResult list \<Rightarrow> Storage \<Rightarrow> blocks \<Rightarrow> bool"
  shows "addressable t \<Longrightarrow> 0 \<le> ri \<Longrightarrow> ri + int n \<le> tableZSpacing \<Longrightarrow> (\<And>rs. Q rs s b) \<Longrightarrow> transmits (scan_all t txid n ri) Q s b"
proof (induction n arbitrary: ri Q)
  case (Suc n)
  have rest: "transmits (scan_all t txid n (ri + 1)) Q' s b" if "\<And>rs. Q' rs s b"
    for Q' :: "'e ScanResult list \<Rightarrow> Storage \<Rightarrow> blocks \<Rightarrow> bool"
    using Suc.prems that by (intro Suc.IH) simp_all
  show ?case
    using Suc.prems
    by (auto simp: transmits_bind intro!: transmits_scan rest split: option.splits ScanResult.splits)
qed simp

lemma transmits_delete_all:
  "addressable t \<Longrightarrow> in_i64 txid \<Longrightarrow> 0 \<le> ri \<Longrightarrow> ri + int n \<le> tableZSpacing \<Longrightarrow> 1 \<le> nextLSN (wal s) \<Longrightarrow> nextLSN (wal s) + int n < 2 ^ 31 \<Longrightarrow>
   transmits (delete_all t conds colMap txid n ri cnt :: ('e, 'e storage_error + int) process) (\<lambda>_ _ _. True) s b"
proof (induction n arbitrary: ri cnt s b)
  case (Suc n)
  note t = Suc.prems(1)
  have ri: "0 \<le> ri" "ri \<le> tableZSpacing" using Suc.prems by simp_all
  note z = addressable_plane [OF t ri]
  have l: "wrap64 (nextLSN (wal s) + 1) = nextLSN (wal s) + 1" using Suc.prems by (simp add: in_i64_def)
  have rest: "transmits (delete_all t conds colMap txid n (ri + 1) cnt' :: ('e, 'e storage_error + int) process) (\<lambda>_ _ _. True) s' b'" if "s' = s \<or> s' = bump_lsn s" for s' b' cnt'
    by (rule Suc.IH) (use Suc.prems that l in \<open>auto simp: bump_lsn_def\<close>)
  have mark: "transmits (MarkDeleted_process (mk_pos 0 (YLevel t) (ZStart t + ri)) txid) Q s b'"
    if "\<And>r s' b'. s' = s \<or> s' = bump_lsn s \<Longrightarrow> Q r s' b'" for b' and Q :: "'e storage_error + unit \<Rightarrow> Storage \<Rightarrow> blocks \<Rightarrow> bool"
    by (rule transmits_mark) (use Suc.prems z that in \<open>auto simp: i32_pos_def in_i32_def tableY_def\<close>)
  show ?case
    using rest mark
    by (auto simp: transmits_bind intro!: transmits_scan [OF t ri] split: option.splits ScanResult.splits sum.splits)
qed simp

lemma int_limits [code_unfold]: "int blockLimit = 1048576" "int valueLimit = 65536" "int batchLimit = 1028"
  by (simp_all add: blockLimit_def valueLimit_def batchLimit_def)

text \<open>What a statement needs of the limits of the protocol; \<open>lsn\<close> is the next LSN.\<close>

definition statement_sends :: "Statement \<Rightarrow> abs_table list \<Rightarrow> int \<Rightarrow> bool" where
  "statement_sends stmt db lsn \<longleftrightarrow>
     int (length db) \<le> tableLimit \<and> list_all (\<lambda>t. stripWidth (fst (snd t)) \<le> int batchLimit) db \<and>
     (stmtType stmt = StmtCreateTable \<longrightarrow>
        (case stmtCreateTable stmt of
           None \<Rightarrow> True
         | Some ct \<Rightarrow> int (length (catalog_block (int (length db) + 1) (ctTable ct) (table_columns (ctColumns ct)))) \<le> int blockLimit)) \<and>
     (stmtType stmt = StmtInsert \<longrightarrow>
        (case stmtInsert stmt of
           None \<Rightarrow> True
         | Some ins \<Rightarrow>
             (case table_index (insTable ins) db of
                None \<Rightarrow> True
              | Some p \<Rightarrow> lsn < 2 ^ 31 \<and>
                  (case Marshal (VMap (insert_row_values ins (columns_at db p))) of Inl _ \<Rightarrow> False | Inr js \<Rightarrow> int (length js) \<le> int valueLimit)))) \<and>
     (stmtType stmt = StmtDelete \<longrightarrow>
        (case stmtDelete stmt of
           None \<Rightarrow> True
         | Some del \<Rightarrow>
             (case table_index (delTable del) db of None \<Rightarrow> True | Some p \<Rightarrow> lsn + int (length (rows_at db p)) < 2 ^ 31)))"

fun session_sends :: "(int \<times> Statement) list \<Rightarrow> abs_table list \<Rightarrow> int \<Rightarrow> bool" where
  "session_sends [] db lsn = True"
| "session_sends ((txid, stmt) # stmts) db lsn \<longleftrightarrow>
     statement_sends stmt db lsn \<and>
     session_sends stmts (snd (sql_step txid stmt db :: (unit exec_error + Result) \<times> abs_table list)) (lsn + int (entries_written txid stmt db))"

lemma session_tables:
  assumes rel: "session_rel b db s" and lim: "int (length db) \<le> tableLimit" "list_all (\<lambda>t. stripWidth (fst (snd t)) \<le> int batchLimit) db"
    and p: "p < length db"
  shows "addressable (metas s ! p)" "RowCount (metas s ! p) = int (length (rows_at db p))" "int (length (rows_at db p)) \<le> tableZSpacing"
proof -
  note st = session_relD [OF rel]
  have ok: "storage_ok b s" using st(1) by (simp add: state_rel_def)
  have m: "meta_ok (metas s ! p)" "ID (metas s ! p) = int p + 1" using storage_okD [OF ok] p st(2) by simp_all
  have "stripWidth (columns_at db p) \<le> int batchLimit" using lim(2) p by (simp add: list_all_length columns_at_def)
  then show "addressable (metas s ! p)" using m lim(1) p st(4) [OF p] by (simp add: addressable_def meta_ok_def)
  have "table_repr b (metas s ! p) (rows_at db p)" using st(1) p by (auto simp: state_rel_def db_repr_def rows_at_def)
  then show "RowCount (metas s ! p) = int (length (rows_at db p))" by (simp add: table_repr_def)
  then show "int (length (rows_at db p)) \<le> tableZSpacing" using m(1) by (simp add: meta_ok_def)
qed

lemma session_counts: "session_rel b db s \<Longrightarrow> counts_ok s"
  using session_relD(1) [of b db s] storage_ok_parts(1) storage_okD(1) by (fastforce simp: state_rel_def counts_ok_def meta_ok_def)

subsection \<open>Statements over the network\<close>

abbreviation anything :: "'r \<Rightarrow> Storage \<Rightarrow> blocks \<Rightarrow> bool" where
  "anything \<equiv> \<lambda>_ _ _. True"

lemma transmits_with_table:
  assumes "\<And>p. map_of (tables s) name = Some p \<Longrightarrow> transmits (f p (metas s ! p)) anything s b"
  shows "transmits (with_table name f) anything s b"
  using assms by (auto simp: with_table_def GetTable_def split: option.splits)

lemma transmits_tagged: "transmits p anything s b \<Longrightarrow> transmits (bind_process p (tagged tag)) anything s b"
  unfolding transmits_bind by (erule transmits_mono) (auto simp: tagged_def split: sum.splits)

lemma transmits_create:
  assumes rel: "session_rel b db s" and db: "int (length db) \<le> tableLimit"
    and len: "length (catalog_block (int (length db) + 1) name cols) \<le> blockLimit"
  shows "transmits (CreateTable_process name cols) anything s b"
proof -
  have ok: "storage_ok b s" using session_relD(1) [OF rel] by (simp add: state_rel_def)
  have "nextTableID s = int (length db) + 1" "nextCatalogZ s = int (length db)" "i32_pos (mk_pos 0 catalogY (nextCatalogZ s))"
    using storage_ok_parts(3,4) [OF ok] session_relD(2) [OF rel] db by (simp_all add: i32_pos_def in_i32_def catalogY_def tableLimit_def)
  then show ?thesis
    using len by (simp add: CreateTable_process_def create_row_def create_write_def Marshal_columns_eq serialize_catalog_row catalog_block_def [symmetric])
qed

lemma transmits_statement:
  assumes rel: "session_rel b db s" and fits: "statement_fits txid stmt db (nextLSN (wal s))" and sends: "statement_sends stmt db (nextLSN (wal s))"
  shows "transmits (Execute_process stmt txid) anything s b"
proof -
  note idx = session_index [OF rel]
  have db: "int (length db) \<le> tableLimit" "list_all (\<lambda>t. stripWidth (fst (snd t)) \<le> int batchLimit) db" and tx: "in_i64 txid"
    using sends fits by (simp_all add: statement_sends_def statement_fits_def)
  have l: "1 \<le> nextLSN (wal s)"
    using session_relD(1) [OF rel] storage_ok_parts(5) [of b s] by (simp add: state_rel_def lsn_ok_def)
  have t: "addressable (metas s ! p)" "RowCount (metas s ! p) = int (length (rows_at db p))" "int (length (rows_at db p)) \<le> tableZSpacing"
    "Columns (metas s ! p) = columns_at db p" if "table_index name db = Some p" for name p
    using session_tables [OF rel db table_index_bound [OF that]] session_relD(4) [OF rel table_index_bound [OF that]] by simp_all
  consider "stmtType stmt = StmtCreateTable" | "stmtType stmt = StmtInsert" | "stmtType stmt = StmtSelect" | "stmtType stmt = StmtDelete"
    | "stmtType stmt \<notin> {StmtCreateTable, StmtInsert, StmtSelect, StmtDelete}" by blast
  then show ?thesis
  proof cases
    case 1
    then show ?thesis
      using sends transmits_create [OF rel db(1)]
      by (auto simp: Execute_process_def create_process_def statement_sends_def stmt_consts intro!: transmits_tagged split: option.splits)
  next
    case 2
    have "transmits (InsertRow_process p (insert_values (if length (insColumns ins) = 0 then map colName (Columns (metas s ! p)) else insColumns ins)
        (insValues ins)) txid :: ('a, 'a storage_error + BlockPos) process) anything s b" if ins: "stmtInsert stmt = Some ins" and p: "table_index (insTable ins) db = Some p" for ins p
    proof -
      have vs: "insert_values (if length (insColumns ins) = 0 then map colName (Columns (metas s ! p)) else insColumns ins) (insValues ins) =
          insert_row_values ins (columns_at db p)" using t(4) [OF p] by (simp add: insert_row_values_def)
      obtain js where js: "Marshal (VMap (insert_row_values ins (columns_at db p))) = Inr js" "length js \<le> valueLimit" and m: "nextLSN (wal s) < 2 ^ 31"
        using sends ins p 2 by (auto simp: statement_sends_def split: sum.splits)
      have "RowCount (metas s ! p) < tableZSpacing" using fits ins p 2 t(2) [OF p] by (simp add: statement_fits_def tableZSpacing_def)
      from transmits_insert [OF t(1) [OF p] this tx js l m] show ?thesis unfolding vs .
    qed
    then show ?thesis
      using 2 idx by (auto simp: Execute_process_def insert_process_def stmt_consts intro!: transmits_with_table transmits_tagged split: option.splits split del: if_split)
  next
    case 3
    have "transmits (scan_all (metas s ! p) txid (nat (RowCount (metas s ! p))) 0) Q s b"
      if "table_index name db = Some p" "\<And>rs. Q rs s b" for name p and Q :: "'a ScanResult list \<Rightarrow> Storage \<Rightarrow> blocks \<Rightarrow> bool"
      using t [OF that(1)] by (intro transmits_scan_all that(2)) simp_all
    then show ?thesis
      using 3 idx by (auto simp: Execute_process_def select_process_def stmt_consts Let_def transmits_bind intro!: transmits_with_table split: option.splits sum.splits)
  next
    case 4
    have "transmits (delete_all (metas s ! p) conds colMap txid (nat (RowCount (metas s ! p))) 0 0 :: ('a, 'a storage_error + int) process) anything s b"
      if "stmtDelete stmt = Some del" "table_index (delTable del) db = Some p" for del p conds colMap
      using t [OF that(2)] tx l sends that 4 by (intro transmits_delete_all) (simp_all add: statement_sends_def)
    then show ?thesis
      using 4 idx by (auto simp: Execute_process_def delete_process_def stmt_consts intro!: transmits_with_table transmits_tagged split: option.splits)
  next
    case 5
    then show ?thesis by (simp add: Execute_process_def)
  qed
qed

lemma Execute_remote:
  assumes rel: "session_rel b db s" and lim: "limited b" and fits: "statement_fits txid stmt db (nextLSN (wal s))"
    and sends: "statement_sends stmt db (nextLSN (wal s))"
  shows "\<exists>s' b'. Execute (peer_hal fuel) (\<lambda>_. False) stmt txid s (on b) = (fst (sql_step txid stmt db), s', on b') \<and> limited b' \<and>
    session_rel b' (snd (sql_step txid stmt db :: (unit client_error exec_error + Result) \<times> abs_table list)) s' \<and>
    nextLSN (wal s') = nextLSN (wal s) + int (entries_written txid stmt db)"
proof -
  note counts = session_counts [OF rel]
  obtain r s' b' where r: "run blocks_hal (Execute_process stmt txid :: (unit client_error, _) process) s b = (r, s', b')"
    "run (peer_hal fuel) (Execute_process stmt txid) s (on b) = (r, s', on b')" "limited b'"
    using transmits_run [OF transmits_statement [OF rel fits sends] lim, of fuel] by blast
  then show ?thesis
    using ideal.Execute_session [OF rel limited_no_empty [OF lim] fits, where 'a = "unit client_error"]
    by (auto simp: Execute_process_run [OF counts])
qed

lemma Execute_all_remote:
  "session_rel b db s \<Longrightarrow> limited b \<Longrightarrow> session_fits stmts db (nextLSN (wal s)) \<Longrightarrow> session_sends stmts db (nextLSN (wal s)) \<Longrightarrow>
   \<exists>s' b'. Execute_all (peer_hal fuel) stmts s (on b) = (fst (sql_session stmts db), s', on b') \<and> limited b' \<and>
     session_rel b' (snd (sql_session stmts db :: (unit client_error exec_error + Result) list \<times> abs_table list)) s'"
proof (induction stmts arbitrary: db s b)
  case (Cons a stmts)
  obtain txid stmt where a: "a = (txid, stmt)" by fastforce
  let ?step = "sql_step txid stmt db :: (unit client_error exec_error + Result) \<times> abs_table list"
  have fit: "statement_fits txid stmt db (nextLSN (wal s))" "statement_sends stmt db (nextLSN (wal s))"
    "session_fits stmts (snd ?step) (nextLSN (wal s) + int (entries_written txid stmt db))"
    "session_sends stmts (snd ?step) (nextLSN (wal s) + int (entries_written txid stmt db))"
    using Cons.prems(3,4) by (simp_all add: a sql_step_state [where 'e = "unit client_error" and 'f = unit])
  obtain s1 b1 where 1: "Execute (peer_hal fuel) (\<lambda>_. False) stmt txid s (on b) = (fst ?step, s1, on b1)" "limited b1" "session_rel b1 (snd ?step) s1"
    "nextLSN (wal s1) = nextLSN (wal s) + int (entries_written txid stmt db)"
    using Execute_remote [OF Cons.prems(1,2) fit(1,2)] by blast
  obtain s' b' where "Execute_all (peer_hal fuel) stmts s1 (on b1) = (fst (sql_session stmts (snd ?step)), s', on b')" "limited b'"
    "session_rel b' (snd (sql_session stmts (snd ?step) :: (unit client_error exec_error + Result) list \<times> abs_table list)) s'"
    using Cons.IH [OF 1(3,2)] fit(3,4) 1(4) by auto
  then show ?case using 1(1) by (auto simp: a split: prod.splits)
qed auto

text \<open>Connecting and starting on a world of air.\<close>

definition air :: blocks where
  "air = (\<lambda>_. None)"

lemma air_facts: "air q = None" "limited air" "session_rel air [] (NewStorage NewWAL)"
  using ideal.rel_init [of air] by (simp_all add: air_def limited_def session_rel_def slice_bytes_def NewStorage_def)

lemma boot_air: "boot (Suc n) (peer_hal fuel) (on air) = Some (Inr (NewStorage NewWAL), on air)"
proof -
  have r: "ReadBlock (peer_hal fuel) x y z (on air) = (Inr None, on air)" if "in_i32 x" "in_i32 y" "in_i32 z" for x y z
    using client_read [OF limited_small [OF air_facts(2)] that, of fuel] by (simp add: air_facts(1))
  have "ReadBlock (peer_hal fuel) 0 walY (- 1) (on air) = (Inr None, on air)" "ReadBlock (peer_hal fuel) 0 catalogY 0 (on air) = (Inr None, on air)"
    by (rule r; simp add: in_i32_def tableY_def catalogY_def)+
  then show ?thesis
    by (simp add: boot_def Recover_def recover_iter_def client_force raise_lsn_def NewWAL_def LoadCatalog_def load_loop.simps [of _ 0] maxCatalogZ_def
        slice_len_def NewStorage_def Let_def in_i64_def)
qed

lemma sample_session_sends: "session_sends sample_session [] 1"
  by code_simp

lemma sample_session_answers_client:
  "(sql_session sample_session [] :: (unit client_error exec_error + Result) list \<times> abs_table list) =
     ([Inr (tag_result ''CREATE TABLE''), Inr (tag_result ''INSERT 0 1''), Inr (tag_result ''DELETE 1''), Inl (ExecStorage (TableNotFound ''u''))],
      [(''t'', [\<lparr>colName = ''a'', colOrdinal = 0, colType = ''INT''\<rparr>], [\<lparr>vmin = 1, vmax = Some 1, vals = [(''a'', VInt64 7)]\<rparr>])])"
  by code_simp

subsection \<open>Properties\<close>

text \<open>
  Property C3: the database over the network. On a client connected to a peer that keeps blocks and follows the protocol, any sequence of statements within
  the limits of the implementation and of the protocol gives exactly the answers of the specification; no request fails or is
  cut, and the blocks that the peer holds at the end represent the database that the specification ends with.
\<close>

theorem session_over_network:
  assumes "limited b" "session_rel b db s" "session_fits stmts db (nextLSN (wal s))" "session_sends stmts db (nextLSN (wal s))"
    "sql_session stmts db = (answers, db')"
  shows "\<exists>s' b'. Execute_all (peer_hal fuel) stmts s (on b) = (answers, s', on b') \<and> limited b' \<and> session_rel b' db' s'"
  using Execute_all_remote [OF assms(2,1,3,4), of fuel] assms(5) by auto

theorem session_over_network_witness:
  "\<exists>c s s' b'. NewClient (peer_net block_peer) (air, []) = (Some c, link c) \<and> boot 1 (peer_hal 1) c = Some (Inr s, c) \<and>
    Execute_all (peer_hal 1) sample_session s c =
      ([Inr (tag_result ''CREATE TABLE''), Inr (tag_result ''INSERT 0 1''), Inr (tag_result ''DELETE 1''), Inl (ExecStorage (TableNotFound ''u''))], s', on b') \<and>
    session_rel b'
      [(''t'', [\<lparr>colName = ''a'', colOrdinal = 0, colType = ''INT''\<rparr>], [\<lparr>vmin = 1, vmax = Some 1, vals = [(''a'', VInt64 7)]\<rparr>])] s'"
proof -
  have "NewClient (peer_net block_peer) (air, []) = (Some (on air), link (on air))" by (simp add: NewClient_def peer_net_def on_def)
  moreover have "boot 1 (peer_hal 1) (on air) = Some (Inr (NewStorage NewWAL), on air)" using boot_air [of 0 1] by simp
  moreover have "session_fits sample_session [] (nextLSN (wal (NewStorage NewWAL)))" "session_sends sample_session [] (nextLSN (wal (NewStorage NewWAL)))"
    using sample_session_fits sample_session_sends by (simp_all add: NewStorage_def NewWAL_def)
  note session_over_network [OF air_facts(2,3) this sample_session_answers_client, of 1]
  ultimately show ?thesis by blast
qed

end
