(* ===== verification/Faulty.thy ===== *)
theory Faulty
  imports Hal_Client
begin

text \<open>
  The TCP client on a network that fails. Every dial, write and read may fail, at any time and any number of times; a write that
  fails may have reached the peer or not, and takes effect at once if it has. The client answers a failure by closing the connection and opens a new one with the next
  request. The lemmas show that it never takes a response for the answer to another request and that a failed
  request has happened as a whole or not at all.
\<close>

text \<open>\<open>Lost\<close>: the call has no effect; \<open>Late\<close>: it takes effect and fails.\<close>

datatype fault = Lost | Late

record 'p wire =
  peerState :: 'p
  unread :: bytes
  faults :: "fault option list"

definition next_fault :: "'p wire \<Rightarrow> fault option \<times> 'p wire" where
  "next_fault n = (case faults n of [] \<Rightarrow> (None, n) | f # fs \<Rightarrow> (f, n\<lparr>faults := fs\<rparr>))"

definition deliver :: "'p peer \<Rightarrow> bytes \<Rightarrow> 'p wire \<Rightarrow> 'p wire" where
  "deliver peer buf n =
     (if Uint32 buf \<noteq> int (length buf) - 4 then n
      else (case peer (buf ! 4) (drop 5 buf) (peerState n) of ((op, d), p) \<Rightarrow> n\<lparr>peerState := p, unread := unread n @ frame op d\<rparr>))"

definition faulty_write :: "'p peer \<Rightarrow> bytes \<Rightarrow> 'p wire \<Rightarrow> (unit + unit) \<times> 'p wire" where
  "faulty_write peer buf n =
     (case next_fault n of
        (None, n) \<Rightarrow> (Inr (), deliver peer buf n)
      | (Some Lost, n) \<Rightarrow> (Inl (), n)
      | (Some Late, n) \<Rightarrow> (Inl (), deliver peer buf n))"

definition faulty_read :: "nat \<Rightarrow> 'p wire \<Rightarrow> (unit + bytes) \<times> 'p wire" where
  "faulty_read k n =
     (case next_fault n of
        (None, n) \<Rightarrow> if k \<le> length (unread n) then (Inr (take k (unread n)), n\<lparr>unread := drop k (unread n)\<rparr>) else (Inl (), n)
      | (Some _, n) \<Rightarrow> (Inl (), n))"

text \<open>A fault at the wait before the next dial is a context that is done. Setting a deadline does not fail on an open connection.\<close>

definition faulty_net :: "'p peer \<Rightarrow> ('p wire, unit) net" where
  "faulty_net peer =
     \<lparr>DialContext = (\<lambda>n. case next_fault n of (None, n) \<Rightarrow> (True, n\<lparr>unread := []\<rparr>) | (Some _, n) \<Rightarrow> (False, n)),
      WaitOrDone = (\<lambda>_ n. case next_fault n of (f, n) \<Rightarrow> (f \<noteq> None, n)), SetDeadline = (\<lambda>n. (Inr (), n)),
      ConnWrite = faulty_write peer, ReadFull = faulty_read, ConnClose = (\<lambda>n. n\<lparr>unread := []\<rparr>), ctxErr = (\<lambda>_. ())\<rparr>"

text \<open>Between requests an open connection has nothing to read.\<close>

definition ready :: "'p wire Client \<Rightarrow> bool" where
  "ready c \<longleftrightarrow> (connected c \<longrightarrow> unread (link c) = [])"

abbreviation held :: "'p wire Client \<Rightarrow> 'p" where
  "held c \<equiv> peerState (link c)"

abbreviation calm :: "'p wire Client \<Rightarrow> bool" where
  "calm c \<equiv> faults (link c) = []"

lemma next_fault_keeps:
  "next_fault n = (f, n') \<Longrightarrow> peerState n' = peerState n \<and> unread n' = unread n \<and> (faults n = [] \<longrightarrow> f = None \<and> n' = n)"
  by (auto simp: next_fault_def split: list.splits)

subsection \<open>Connecting\<close>

lemma connect_faulty:
  "connect (faulty_net peer) fuel backoff c = (r, c') \<Longrightarrow> \<not> connected c \<Longrightarrow>
   held c' = held c \<and> ready c' \<and> (r = Inr () \<longrightarrow> connected c') \<and> (calm c \<and> 0 < fuel \<longrightarrow> r = Inr () \<and> calm c')"
proof (induction fuel arbitrary: backoff c)
  case (Suc fuel)
  show ?case
  proof (cases "faults (link c)")
    case Nil
    then show ?thesis using Suc.prems by (auto simp: faulty_net_def next_fault_def ready_def)
  next
    case (Cons f fs)
    show ?thesis
    proof (cases f)
      case None
      then show ?thesis using Suc.prems Cons by (auto simp: faulty_net_def next_fault_def ready_def)
    next
      case (Some e)
      obtain g n where g: "next_fault ((link c)\<lparr>faults := fs\<rparr>) = (g, n)" by fastforce
      show ?thesis
      proof (cases g)
        case None
        have "connect (faulty_net peer) fuel (min (backoff * 2) maxBackoff) (c\<lparr>link := n\<rparr>) = (r, c')"
          using Suc.prems Cons Some g None by (simp add: faulty_net_def next_fault_def [of "link c"] min_def Let_def split: if_splits)
        from Suc.IH [OF this] show ?thesis
          using Suc.prems(2) next_fault_keeps [OF g] Cons by (auto simp: ready_def)
      next
        case (Some e')
        then show ?thesis
          using Suc.prems Cons \<open>f = Some e\<close> g next_fault_keeps [OF g] by (auto simp: faulty_net_def next_fault_def [of "link c"] ready_def)
      qed
    qed
  qed
qed (auto simp: ready_def)

lemma ensure_faulty:
  assumes "ensureConn (faulty_net peer) fuel c = (r, c')" "ready c" "0 < fuel"
  shows "held c' = held c" "ready c'" "r = Inr () \<Longrightarrow> connected c'" "calm c \<Longrightarrow> r = Inr () \<and> calm c'"
  using assms connect_faulty [of peer fuel initialBackoff c r c'] by (auto simp: ensureConn_def split: if_splits)

subsection \<open>Requests\<close>

lemma deliver_frame:
  assumes "length payload + 5 < 2 ^ 32" "peer op payload (peerState n) = ((rop, rd), p')"
  shows "deliver peer (PutUint32 (1 + int (length payload)) @ op # payload) n = n\<lparr>peerState := p', unread := unread n @ frame rop rd\<rparr>"
proof -
  let ?buf = "PutUint32 (1 + int (length payload)) @ op # payload"
  have "Uint32 ?buf = int (length ?buf) - 4" using assms(1) by (simp add: mod_pos_pos_trivial)
  moreover have "?buf ! 4 = op" "drop 5 ?buf = payload" by (simp_all add: nth_append)
  ultimately show ?thesis using assms(2) by (simp only: deliver_def) simp
qed

lemma send_faulty:
  assumes small: "length payload + 5 < 2 ^ 32" and peer: "peer op payload (held c) = ((rop, rd), p')"
    and c: "connected c" "ready c" and run: "send (faulty_net peer) op payload c = (r, c')"
  shows "(r = Inr () \<and> connected c' \<and> held c' = p' \<and> unread (link c') = frame rop rd \<and> (calm c \<longrightarrow> calm c')) \<or>
    ((\<exists>e. r = Inl e) \<and> \<not> connected c' \<and> (held c' = held c \<or> held c' = p') \<and> \<not> calm c)"
proof -
  let ?l = "1 + int (length payload)"
  obtain f n where f: "next_fault (link c) = (f, n)" by fastforce
  note keep = next_fault_keeps [OF f]
  have l: "uint32_of ?l = ?l" "uint32_of (4 + ?l) = 4 + ?l" using small by simp_all
  have buf: "take (nat (4 + ?l)) (PutUint32 ?l @ op # payload) = PutUint32 ?l @ op # payload" by simp
  have d: "deliver peer (PutUint32 ?l @ op # payload) n = n\<lparr>peerState := p', unread := unread n @ frame rop rd\<rparr>"
    using deliver_frame [OF small, of peer op n] peer keep by simp
  have u: "unread n = []" using keep c by (simp add: ready_def)
  have w: "faulty_write peer (PutUint32 ?l @ op # payload) (link c) =
      (case f of None \<Rightarrow> (Inr (), n\<lparr>peerState := p', unread := frame rop rd\<rparr>) | Some Lost \<Rightarrow> (Inl (), n)
       | Some Late \<Rightarrow> (Inl (), n\<lparr>peerState := p', unread := frame rop rd\<rparr>))"
    using d u by (auto simp: faulty_write_def f split: option.splits fault.splits)
  have "(r, c') =
      (case faulty_write peer (PutUint32 ?l @ op # payload) (link c) of
         (Inl err, n) \<Rightarrow> (Inl (SendError err), disconnect (faulty_net peer) (c\<lparr>link := n\<rparr>)) | (Inr _, n) \<Rightarrow> (Inr (), c\<lparr>link := n\<rparr>))"
    using run c(1) unfolding send_def setDeadline_def Let_def l by (simp add: faulty_net_def buf del: take_append)
  then show ?thesis
    using keep c(1) by (auto simp: w disconnect_def faulty_net_def split: option.splits fault.splits)
qed

lemma faulty_read_cases:
  assumes "faulty_read k n = (r, n')" "unread n = bs @ rest" "length bs = k"
  shows "peerState n' = peerState n \<and> (r = Inr bs \<and> unread n' = rest \<and> (faults n = [] \<longrightarrow> faults n' = []) \<or> (\<exists>e. r = Inl e) \<and> faults n \<noteq> [])"
proof -
  obtain f m where f: "next_fault n = (f, m)" by fastforce
  then show ?thesis using assms next_fault_keeps [OF f] by (cases f) (auto simp: faulty_read_def)
qed

lemma recv_faulty:
  assumes small: "length rd + 1 < 2 ^ 32" and c: "connected c" "unread (link c) = frame rop rd" and run: "recv (faulty_net peer) c = (r, c')"
  shows "held c' = held c \<and> ready c' \<and> (r = Inr (rop, rd) \<and> (calm c \<longrightarrow> calm c') \<or> (\<exists>e. r = Inl e) \<and> \<not> calm c)"
proof -
  let ?n = "1 + int (length rd)"
  obtain r1 n1 where 1: "faulty_read 4 (link c) = (r1, n1)" by fastforce
  have "unread (link c) = PutUint32 ?n @ (rop # rd)" using c(2) by (simp add: frame_def)
  note cases1 = faulty_read_cases [OF 1 this length_PutUint32]
  have n: "Uint32 (PutUint32 ?n) = ?n" using small Uint32_Put [of ?n "[]"] by (simp add: mod_pos_pos_trivial)
  show ?thesis
  proof (cases r1)
    case (Inl e)
    then show ?thesis using run c(1) 1 cases1 by (auto simp: recv_def setDeadline_def faulty_net_def disconnect_def ready_def)
  next
    case (Inr lenBuf)
    obtain r2 n2 where 2: "faulty_read (nat ?n) n1 = (r2, n2)" by fastforce
    have u: "unread n1 = (rop # rd) @ []" "lenBuf = PutUint32 ?n" using cases1 Inr by simp_all
    have k: "length (rop # rd) = nat ?n" by (simp add: nat_add_distrib)
    note cases2 = faulty_read_cases [OF 2 u(1) k]
    show ?thesis
      using run c(1) 1 2 cases1 cases2 n Inr u(2)
      by (cases r2) (auto simp: recv_def setDeadline_def faulty_net_def disconnect_def ready_def Let_def)
  qed
qed

lemma request_faulty:
  assumes small: "length payload + 5 < 2 ^ 32" "length rd + 1 < 2 ^ 32" and peer: "peer op payload (held c) = ((rop, rd), p')"
    and c: "connected c" "ready c" and run: "request (faulty_net peer) op payload answer c = (r, c')"
  shows "ready c' \<and>
    (r = answer rop rd \<and> held c' = p' \<and> (calm c \<longrightarrow> calm c') \<or> (\<exists>e. r = Inl e) \<and> (held c' = held c \<or> held c' = p') \<and> \<not> calm c)"
proof -
  obtain r1 c1 where 1: "send (faulty_net peer) op payload c = (r1, c1)" by fastforce
  note s = send_faulty [where peer = peer and op = op, OF small(1) peer c 1]
  show ?thesis
  proof (cases r1)
    case (Inl e)
    then show ?thesis using run 1 s by (auto simp: request_def ready_def)
  next
    case (Inr u)
    obtain r2 c2 where 2: "recv (faulty_net peer) c1 = (r2, c2)" by fastforce
    have "connected c1" "unread (link c1) = frame rop rd" using s Inr by simp_all
    note recv_faulty [OF small(2) this 2]
    then show ?thesis using run 1 2 s Inr by (auto simp: request_def)
  qed
qed

subsection \<open>Operations\<close>

text \<open>Connecting and one request, for the operations of the client.\<close>

lemma operation_faulty:
  assumes c: "ready c" "0 < fuel" and small: "length payload + 5 < 2 ^ 32" "length rd + 1 < 2 ^ 32"
    and peer: "peer op payload (held c) = ((rop, rd), p')"
    and run: "(case ensureConn (faulty_net peer) fuel c of (Inl err, c) \<Rightarrow> (Inl err, c) | (Inr _, c) \<Rightarrow> request (faulty_net peer) op payload answer c) = (r, c')"
  shows "ready c' \<and>
    (r = answer rop rd \<and> held c' = p' \<and> (calm c \<longrightarrow> calm c') \<or> (\<exists>e. r = Inl e) \<and> (held c' = held c \<or> held c' = p') \<and> \<not> calm c)"
proof -
  obtain r1 c1 where 1: "ensureConn (faulty_net peer) fuel c = (r1, c1)" by fastforce
  note e = ensure_faulty [OF 1 c]
  show ?thesis
  proof (cases r1)
    case (Inl err)
    then show ?thesis using run 1 e by auto
  next
    case (Inr u)
    have "peer op payload (held c1) = ((rop, rd), p')" using peer e(1) by simp
    moreover have "request (faulty_net peer) op payload answer c1 = (r, c')" using run 1 Inr by simp
    ultimately show ?thesis
      using request_faulty [where peer = peer and op = op, OF small _ _ e(2)] e Inr by fastforce
  qed
qed

abbreviation faulty_hal :: "nat \<Rightarrow> (blocks wire Client, unit client_error) hal" where
  "faulty_hal \<equiv> client_hal (faulty_net block_peer)"

lemma read_faulty:
  assumes "ready c" "0 < fuel" "small_blocks (held c)" "i32_pos (mk_pos x y z)" "ReadBlock (faulty_hal fuel) x y z c = (r, c')"
  shows "ready c' \<and> held c' = held c \<and> (r = Inr (held c (x, y, z)) \<or> (\<exists>e. r = Inl e) \<and> \<not> calm c) \<and> (calm c \<longrightarrow> calm c')"
proof -
  let ?b = "held c"
  have b: "?b (x, y, z) \<noteq> Some []" "length (slice_bytes (?b (x, y, z))) + 10 < 2 ^ 32" using assms(3) by (simp_all add: small_blocks_def)
  from operation_faulty [where peer = block_peer and op = opRead, OF assms(1,2) _ _ peer_reads [OF assms(4)] assms(5)
      [simplified client_hal_def client_ReadBlock_def encode_pos hal.simps]]
  show ?thesis using b by (auto simp: parse_data_response)
qed

lemma write_faulty:
  assumes "ready c" "0 < fuel" "i32_pos (mk_pos x y z)" "length d + 22 < 2 ^ 32" "WriteBlock (faulty_hal fuel) x y z t d c = (r, c')"
  shows "ready c' \<and> (r = Inr () \<and> held c' = put_block (x, y, z) d (held c) \<or>
    (\<exists>e. r = Inl e) \<and> (held c' = held c \<or> held c' = put_block (x, y, z) d (held c)) \<and> \<not> calm c) \<and> (calm c \<longrightarrow> calm c')"
proof -
  from operation_faulty [where peer = block_peer and op = opWrite, OF assms(1,2) _ _ peer_writes [OF assms(4,3)] assms(5)
      [simplified client_hal_def client_WriteBlock_def hal.simps]]
  show ?thesis using assms(4) by (auto simp: ack_answer_def)
qed

lemma force_faulty:
  assumes "ready c" "0 < fuel" "ForceLoadChunk (faulty_hal fuel) cx cz c = (r, c')"
  shows "ready c' \<and> held c' = held c \<and> (r = Inr () \<or> (\<exists>e. r = Inl e) \<and> \<not> calm c) \<and> (calm c \<longrightarrow> calm c')"
proof -
  have "block_peer opForceLoad (encodeInt32s [wrap32 cx, wrap32 cz]) (held c) = ((opAck, []), held c)" by (simp add: block_peer_def)
  from operation_faulty [where peer = block_peer and op = opForceLoad, OF assms(1,2) _ _ this assms(3)
      [simplified client_hal_def client_ForceLoadChunk_def hal.simps]]
  show ?thesis by (auto simp: ack_answer_def encodeInt32s_def)
qed

text \<open>A batch of nothing only connects.\<close>

lemma empty_faulty:
  assumes "ready c" "0 < fuel" "(case ensureConn (faulty_net peer) fuel c of (Inl err, c) \<Rightarrow> (Inl err, c) | (Inr _, c) \<Rightarrow> (Inr v, c)) = (r, c')"
  shows "ready c' \<and> held c' = held c \<and> (r = Inr v \<or> (\<exists>e. r = Inl e) \<and> \<not> calm c) \<and> (calm c \<longrightarrow> calm c')"
proof -
  obtain r1 c1 where 1: "ensureConn (faulty_net peer) fuel c = (r1, c1)" by fastforce
  show ?thesis using assms(3) 1 ensure_faulty [OF 1 assms(1,2)] by (cases r1) auto
qed

lemma batch_read_faulty:
  assumes "ready c" "0 < fuel" "small_blocks (held c)" "list_all i32_pos ps" "12 * length ps + 9 < 2 ^ 32"
    "length (batch_response (map (held c \<circ> pos_key) ps)) + 1 < 2 ^ 32" "BatchRead (faulty_hal fuel) ps c = (r, c')"
  shows "ready c' \<and> held c' = held c \<and> (r = Inr (map (held c \<circ> pos_key) ps) \<or> (\<exists>e. r = Inl e) \<and> \<not> calm c) \<and> (calm c \<longrightarrow> calm c')"
proof (cases "ps = []")
  case True
  then have "(case ensureConn (faulty_net block_peer) fuel c of (Inl err, c) \<Rightarrow> (Inl err, c) | (Inr _, c) \<Rightarrow> (Inr [], c)) = (r, c')"
    using assms(7) by (simp add: client_hal_def client_BatchRead_def split: prod.splits sum.splits)
  from empty_faulty [OF assms(1,2) this] True show ?thesis by simp
next
  case False
  have "(case ensureConn (faulty_net block_peer) fuel c of (Inl err, c) \<Rightarrow> (Inl err, c)
      | (Inr _, c) \<Rightarrow> request (faulty_net block_peer) opBatchRead (batch_read_payload ps)
          (\<lambda>op data. if op = opBatchData then parseBatchDataResponse data
             else if op = opError then Inl (PluginError (parseErrorMessage data)) else Inl (UnexpectedOpcode op ''BATCH_READ'')) c) = (r, c')"
    using assms(7) False by (simp add: client_hal_def client_BatchRead_def split: prod.splits sum.splits)
  from operation_faulty [where peer = block_peer and op = opBatchRead, OF assms(1,2) _ assms(6) peer_batch_reads [OF assms(4,5)] this]
  show ?thesis using assms(5) batch_read_parsed [OF assms(3,5)] by (auto simp: length_batch_read)
qed

lemma batch_write_faulty:
  assumes "ready c" "0 < fuel" "list_all (\<lambda>w. i32_pos (Pos w)) ws" "length (batch_write_payload ws) + 5 < 2 ^ 32" "length ws < 2 ^ 32"
    "\<forall>w \<in> set ws. length (Data w) < 2 ^ 32" "BatchWrite (faulty_hal fuel) ws c = (r, c')"
  shows "ready c' \<and> (r = Inr () \<and> held c' = put_writes ws (held c) \<or>
    (\<exists>e. r = Inl e) \<and> (held c' = held c \<or> held c' = put_writes ws (held c)) \<and> \<not> calm c) \<and> (calm c \<longrightarrow> calm c')"
proof (cases "ws = []")
  case True
  then have "(case ensureConn (faulty_net block_peer) fuel c of (Inl err, c) \<Rightarrow> (Inl err, c) | (Inr _, c) \<Rightarrow> (Inr (), c)) = (r, c')"
    using assms(7) by (auto simp: client_hal_def client_BatchWrite_def split: prod.splits sum.splits)
  from empty_faulty [OF assms(1,2) this] True show ?thesis by auto
next
  case False
  have "(case ensureConn (faulty_net block_peer) fuel c of (Inl err, c) \<Rightarrow> (Inl err, c)
      | (Inr _, c) \<Rightarrow> request (faulty_net block_peer) opBatchWrite (batch_write_payload ws) (ack_answer ''BATCH_WRITE'') c) = (r, c')"
    using assms(7) False by (auto simp: client_hal_def client_BatchWrite_def split: prod.splits sum.splits)
  from operation_faulty [where peer = block_peer and op = opBatchWrite, OF assms(1,2,4) _ peer_batch_writes [OF assms(3,5,6)] this]
  show ?thesis by (auto simp: ack_answer_def)
qed

end
