(* ===== verification/Outage.thy ===== *)
theory Outage
  imports Remote Faulty
begin

text \<open>
  Operations over a network that fails. Every run of a process over the TCP client, whatever fails and whenever, is a run over
  a block store whose calls fail in the same places, and that store is an instance of the contract \<open>hal_store\<close>. What is
  proved of the storage layer on such stores therefore holds over the failing network.
\<close>

subsection \<open>A block store that fails as told\<close>

text \<open>\<open>Failed e late\<close>: the call fails with \<open>e\<close>; \<open>late\<close> says that it has taken effect.\<close>

datatype 'e outcome = Done | Failed 'e bool

definition settle :: "'a \<Rightarrow> blocks \<Rightarrow> blocks \<times> 'e outcome list \<Rightarrow> ('e + 'a) \<times> blocks \<times> 'e outcome list" where
  "settle v b' w =
     (case snd w of
        [] \<Rightarrow> (Inr v, (b', []))
      | Done # os \<Rightarrow> (Inr v, (b', os))
      | Failed e late # os \<Rightarrow> (Inl e, (if late then b' else fst w, os)))"

definition shaky_hal :: "(blocks \<times> 'e outcome list, 'e) hal" where
  "shaky_hal =
     \<lparr>ReadBlock = (\<lambda>x y z w. settle (fst w (x, y, z)) (fst w) w), WriteBlock = (\<lambda>x y z t d w. settle () (put_block (x, y, z) d (fst w)) w),
      BatchRead = (\<lambda>ps w. settle (map (fst w \<circ> pos_key) ps) (fst w) w), BatchWrite = (\<lambda>ws w. settle () (put_writes ws (fst w)) w),
      ForceLoadChunk = (\<lambda>cx cz w. settle () (fst w) w), IsChunkLoaded = (\<lambda>cx cz w. settle True (fst w) w)\<rparr>"

lemma settle_cases:
  assumes "settle v b' w = (r, w')"
  shows "r = Inr v \<and> fst w' = b' \<or> (\<exists>e. r = Inl e) \<and> (fst w' = fst w \<or> fst w' = b')"
  using assms by (auto simp: settle_def split: list.splits outcome.splits if_splits)

lemma settle_Cons [simp]:
  "settle v b' (b, Done # os) = (Inr v, (b', os))" "settle v b' (b, Failed e late # os) = (Inl e, (if late then b' else b, os))"
  by (simp_all add: settle_def)

interpretation shaky: hal_store shaky_hal fst "\<lambda>w. no_empty (fst w)"
proof unfold_locales
  fix w :: "blocks \<times> 'e outcome list" and x y z t d r rw w'
  assume w: "no_empty (fst w)"
  show "fst w p \<noteq> Some []" for p by (rule no_emptyD [OF w])
  show "ReadBlock shaky_hal x y z w = (r, w') \<Longrightarrow>
      no_empty (fst w') \<and> fst w' = fst w \<and> (\<forall>d. r = Inr d \<longrightarrow> d = fst w (x, y, z))"
    using w settle_cases [of "fst w (x, y, z)" "fst w" w r w'] by (auto simp: shaky_hal_def)
  show "WriteBlock shaky_hal x y z t d w = (rw, w') \<Longrightarrow>
      no_empty (fst w') \<and>
      (case rw of Inr _ \<Rightarrow> fst w' = put_block (x, y, z) d (fst w) | Inl _ \<Rightarrow> fst w' = fst w \<or> fst w' = put_block (x, y, z) d (fst w))"
    using w settle_cases [of "()" "put_block (x, y, z) d (fst w)" w rw w'] by (auto simp: shaky_hal_def)
next
  fix w :: "blocks \<times> 'e outcome list" and ps rb w'
  assume "no_empty (fst w)" "BatchRead shaky_hal ps w = (rb, w')"
  then show "no_empty (fst w') \<and> fst w' = fst w \<and> (\<forall>ds. rb = Inr ds \<longrightarrow> ds = map (fst w \<circ> pos_key) ps)"
    using settle_cases [of "map (fst w \<circ> pos_key) ps" "fst w" w rb w'] by (auto simp: shaky_hal_def)
next
  fix w :: "blocks \<times> 'e outcome list" and ws rbw w'
  assume w: "no_empty (fst w)" and run: "BatchWrite shaky_hal ws w = (rbw, w')"
  have run: "settle () (put_writes ws (fst w)) w = (rbw, w')" using run by (simp add: shaky_hal_def)
  have part: "\<exists>k \<le> length ws. b' = put_writes (take k ws) (fst w)" if "b' = fst w \<or> b' = put_writes ws (fst w)" for b'
    using that
  proof
    assume "b' = fst w"
    then show ?thesis by (intro exI [of _ 0]) simp
  next
    assume "b' = put_writes ws (fst w)"
    then show ?thesis by (intro exI [of _ "length ws"]) simp
  qed
  note cs = settle_cases [OF run]
  have "no_empty (fst w')" using cs w no_empty_writes by auto
  moreover have "case rbw of Inr _ \<Rightarrow> fst w' = put_writes ws (fst w) | Inl _ \<Rightarrow> \<exists>k \<le> length ws. fst w' = put_writes (take k ws) (fst w)"
    using cs part [of "fst w'"] by (cases rbw) simp_all
  ultimately show "no_empty (fst w') \<and>
      (case rbw of Inr _ \<Rightarrow> fst w' = put_writes ws (fst w) | Inl _ \<Rightarrow> \<exists>k \<le> length ws. fst w' = put_writes (take k ws) (fst w))" by blast
next
  fix w :: "blocks \<times> 'e outcome list" and cx cz rf w'
  assume "no_empty (fst w)" "ForceLoadChunk shaky_hal cx cz w = (rf, w')"
  then show "no_empty (fst w') \<and> fst w' = fst w" using settle_cases [of "()" "fst w" w rf w'] by (auto simp: shaky_hal_def)
qed

subsection \<open>Runs over the failing network\<close>

text \<open>The outcome of a call of the client, as the store is told it.\<close>

lemma outcome_exists:
  assumes "r = Inr v \<and> b2 = b' \<or> (\<exists>e. r = Inl e) \<and> (b2 = b \<or> b2 = b')"
  obtains o1 where "\<And>os. settle v b' (b, o1 # os) = (r, (b2, os))"
proof (cases r)
  case (Inr u)
  then show ?thesis using that [of Done] assms by simp
next
  case (Inl e)
  then show ?thesis using that [of "Failed e (b2 = b')"] assms by auto
qed

text \<open>A run over the client and a run over the store that end alike.\<close>

definition same_run ::
  "nat \<Rightarrow> (unit client_error, 'r) process \<Rightarrow> ('r \<Rightarrow> Storage \<Rightarrow> blocks \<Rightarrow> bool) \<Rightarrow> Storage \<Rightarrow> blocks wire Client \<Rightarrow> bool" where
  "same_run fuel p Q s c \<longleftrightarrow>
     (\<exists>r s' c' os os'. run (faulty_hal fuel) p s c = (r, s', c') \<and> run shaky_hal p s (held c, os) = (r, s', (held c', os')) \<and>
        Q r s' (held c') \<and> limited (held c') \<and> ready c')"

lemma same_run_call:
  assumes "run (faulty_hal fuel) p s c = run (faulty_hal fuel) (k r) s c1"
    "\<And>os. run shaky_hal p s (held c, os) = (case settle v b' (held c, os) of (r, w) \<Rightarrow> run shaky_hal (k r) s w)"
    "r = Inr v \<and> held c1 = b' \<or> (\<exists>e. r = Inl e) \<and> (held c1 = held c \<or> held c1 = b')" "same_run fuel (k r) Q s c1"
  shows "same_run fuel p Q s c"
proof -
  obtain o1 where o1: "\<And>os. settle v b' (held c, o1 # os) = (r, (held c1, os))" using outcome_exists [OF assms(3)] by blast
  obtain r' s' c' os os' where *: "run (faulty_hal fuel) (k r) s c1 = (r', s', c')" "run shaky_hal (k r) s (held c1, os) = (r', s', (held c', os'))"
    "Q r' s' (held c')" "limited (held c')" "ready c'"
    using assms(4) unfolding same_run_def by blast
  have "run shaky_hal p s (held c, o1 # os) = (r', s', (held c', os'))" using assms(2) [of "o1 # os"] o1 *(2) by simp
  then show ?thesis unfolding same_run_def using assms(1) * by metis
qed

lemma transmits_faulty:
  assumes "transmits p Q s (held c)" "limited (held c)" "ready c" "0 < fuel"
  shows "same_run fuel p Q s c"
  using assms(1-3)
proof (induction p arbitrary: s c)
  case (Return r)
  then show ?case unfolding same_run_def by (intro exI [of _ r] exI [of _ s] exI [of _ c] exI [of _ "[]"]) simp
next
  case (CallRead x y z k)
  obtain r c1 where 1: "ReadBlock (faulty_hal fuel) x y z c = (r, c1)" by fastforce
  have f: "i32_pos (mk_pos x y z)" using CallRead.prems by simp
  note st = read_faulty [OF CallRead.prems(3) assms(4) limited_small [OF CallRead.prems(2)] f 1]
  have "transmits (k r) Q s (held c1)" using CallRead.prems(1) st by auto
  then have "same_run fuel (k r) Q s c1" using CallRead.prems(2) st by (intro CallRead.IH) simp_all
  then show ?case by (rule same_run_call [rotated 3]) (use 1 st in \<open>auto simp: shaky_hal_def\<close>)
next
  case (CallWrite x y z t d k)
  obtain r c1 where 1: "WriteBlock (faulty_hal fuel) x y z t d c = (r, c1)" by fastforce
  have f: "i32_pos (mk_pos x y z)" "length d \<le> blockLimit" "length d + 22 < 2 ^ 32" using CallWrite.prems by (simp_all add: blockLimit_def)
  note st = write_faulty [OF CallWrite.prems(3) assms(4) f(1,3) 1]
  have "transmits (k r) Q s (held c1)" using CallWrite.prems(1) st by auto
  moreover have "limited (held c1)" using CallWrite.prems(2) st limited_put [OF CallWrite.prems(2) f(2)] by auto
  ultimately have "same_run fuel (k r) Q s c1" using st by (intro CallWrite.IH) simp_all
  then show ?case by (rule same_run_call [rotated 3]) (use 1 st in \<open>auto simp: shaky_hal_def\<close>)
next
  case (CallBatchRead ps k)
  obtain r c1 where 1: "BatchRead (faulty_hal fuel) ps c = (r, c1)" by fastforce
  have f: "list_all i32_pos ps" "length ps \<le> batchLimit" "12 * length ps + 9 < 2 ^ 32" using CallBatchRead.prems by (simp_all add: batchLimit_def)
  note st = batch_read_faulty [OF CallBatchRead.prems(3) assms(4) limited_small [OF CallBatchRead.prems(2)] f(1,3) limited_batch [OF CallBatchRead.prems(2) f(2)] 1]
  have "transmits (k r) Q s (held c1)" using CallBatchRead.prems(1) st by auto
  then have "same_run fuel (k r) Q s c1" using CallBatchRead.prems(2) st by (intro CallBatchRead.IH) simp_all
  then show ?case by (rule same_run_call [rotated 3]) (use 1 st in \<open>auto simp: shaky_hal_def\<close>)
next
  case (CallBatchWrite ws k)
  obtain r c1 where 1: "BatchWrite (faulty_hal fuel) ws c = (r, c1)" by fastforce
  have f: "list_all write_fits ws" "length ws \<le> batchLimit" "list_all (\<lambda>w. i32_pos (Pos w)) ws"
    using CallBatchWrite.prems by (simp_all add: list_all_iff write_fits_def)
  note st = batch_write_faulty [OF CallBatchWrite.prems(3) assms(4) f(3) limited_batch_payload [OF f(1,2)] 1]
  have "transmits (k r) Q s (held c1)" using CallBatchWrite.prems(1) st by auto
  moreover have "limited (held c1)" using CallBatchWrite.prems(2) st limited_writes [OF CallBatchWrite.prems(2) f(1)] by auto
  ultimately have "same_run fuel (k r) Q s c1" using st by (intro CallBatchWrite.IH) simp_all
  then show ?case by (rule same_run_call [rotated 3]) (use 1 st in \<open>auto simp: shaky_hal_def\<close>)
next
  case (CallForceLoad cx cz k)
  obtain r c1 where 1: "ForceLoadChunk (faulty_hal fuel) cx cz c = (r, c1)" by fastforce
  note st = force_faulty [OF CallForceLoad.prems(3) assms(4) 1]
  have "transmits (k r) Q s (held c1)" using CallForceLoad.prems(1) st by auto
  then have "same_run fuel (k r) Q s c1" using CallForceLoad.prems(2) st by (intro CallForceLoad.IH) simp_all
  then show ?case by (rule same_run_call [rotated 3]) (use 1 st in \<open>auto simp: shaky_hal_def\<close>)
next
  case (Locked f k)
  then have "same_run fuel (k s) Q (f s) c" by simp
  then show ?case by (simp add: same_run_def)
qed

subsection \<open>Starting over the network\<close>

text \<open>The start of the process, on the state of a new storage layer over a new log.\<close>

definition boot_load :: "('e, ('e boot_error + Storage) option) process" where
  "boot_load =
     bind_process LoadCatalog_process
       (\<lambda>r. case r of Inl err \<Rightarrow> Return (Some (Inl (CatalogFailed err))) | Inr _ \<Rightarrow> Locked id (\<lambda>s. Return (Some (Inr s))))"

definition boot_process :: "nat \<Rightarrow> ('e, ('e boot_error + Storage) option) process" where
  "boot_process fuel =
     bind_process (Recover_process fuel (- 1))
       (\<lambda>r. case r of
          None \<Rightarrow> Return None
        | Some (Inl err) \<Rightarrow> Return (Some (Inl (RecoveryFailed err)))
        | Some (Inr _) \<Rightarrow> boot_load)"

lemma boot_process_run:
  "boot fuel h w = (case run h (boot_process fuel) (NewStorage NewWAL) w of (r, s, w') \<Rightarrow> map_option (\<lambda>x. (x, w')) r)"
proof -
  have s: "(NewStorage NewWAL)\<lparr>wal := wl\<rparr> = NewStorage wl" for wl by (simp add: NewStorage_def)
  have wl: "wal (NewStorage NewWAL) = NewWAL" by (simp add: NewStorage_def)
  show ?thesis
  proof (cases "recover_loop fuel h (- 1) NewWAL w")
    case None
    then show ?thesis
      using Recover_process_run [where fuel = fuel and h = h and z = "- 1" and s = "NewStorage NewWAL" and w = w]
      by (auto simp: wl boot_def Recover_def boot_process_def run_bind split: prod.splits)
  next
    case (Some x)
    obtain r wl' w' where x: "x = (r, wl', w')" by (metis prod_cases3)
    then have "run h (Recover_process fuel (- 1)) (NewStorage NewWAL) w = (Some r, NewStorage wl', w')"
      using Recover_process_run [where fuel = fuel and h = h and z = "- 1" and s = "NewStorage NewWAL" and w = w] Some by (simp add: wl s)
    then show ?thesis
      using Some x
      by (cases r) (auto simp: boot_def Recover_def boot_process_def boot_load_def run_bind LoadCatalog_process_run Let_def split: prod.splits sum.splits)
  qed
qed

lemma transmits_load:
  "0 \<le> z \<Longrightarrow> z + int n \<le> maxCatalogZ \<Longrightarrow> (\<And>r s b. Q r s b) \<Longrightarrow> transmits (load_process n z m l) Q s b"
proof (induction n arbitrary: z m l s b)
  case (Suc n)
  have "i32_pos (mk_pos 0 catalogY z)" using Suc.prems(1,2) by (simp add: i32_pos_def in_i32_def catalogY_def maxCatalogZ_def)
  then show ?case using Suc.prems Suc.IH [of "z + 1"] by (auto split: sum.splits)
qed simp

lemma transmits_boot_load: "transmits boot_load anything s b"
proof -
  have "transmits LoadCatalog_process anything s b"
    unfolding LoadCatalog_process_def transmits_bind
    by (rule transmits_load) (auto simp: maxCatalogZ_def split: sum.splits)
  then show ?thesis unfolding boot_load_def transmits_bind by (rule transmits_mono) (auto split: sum.splits)
qed

text \<open>A log entry that recovery can handle over the network: it is committed, or its target can be addressed and its book fits.\<close>

definition entry_sends :: "bytes option \<Rightarrow> bool" where
  "entry_sends data \<longleftrightarrow>
     (case deserializeEntry (slice_string data) of
        Inl _ \<Rightarrow> True
      | Inr e \<Rightarrow>
          Status e = ''COMMITTED'' \<or>
          i32_pos (mk_pos (TargetX e) (TargetY e) (TargetZ e)) \<and> 0 \<le> TargetZ e \<and> length (book_of e ''COMMITTED'') \<le> blockLimit)"

definition log_sends :: "blocks \<Rightarrow> nat \<Rightarrow> bool" where
  "log_sends b n \<longleftrightarrow> (\<forall>i \<in> {1..n}. entry_sends (b (0, walY, - int i)))"

definition log_above :: "int \<Rightarrow> blocks \<Rightarrow> blocks \<Rightarrow> bool" where
  "log_above z b b' \<longleftrightarrow> (\<forall>z' < z. b' (0, walY, z') = b (0, walY, z'))"

lemma log_above_simps [simp]: "log_above z b b" "log_above z b (put_block (0, tableY, z) d b') \<longleftrightarrow> log_above z b b'"
  by (auto simp: log_above_def put_block_apply)

lemma length_encodeInt64: "length (fst (encodeInt64 v)) = 12" "length (snd (encodeInt64 v)) = 12"
  by (simp_all add: encodeInt64_def Let_def bytesPerBanner_def)

lemma transmits_replay:
  assumes e: "i32_pos (mk_pos (TargetX e) (TargetY e) (TargetZ e))" "0 \<le> TargetZ e" and z: "z < 0"
    and Q: "\<And>r b'. log_above z b b' \<Longrightarrow> Q r s b'"
  shows "transmits (replay_process e) Q s b"
proof -
  have p: "i32_pos (mk_pos 2 (TargetY e) (TargetZ e))" "i32_pos (mk_pos 3 (TargetY e) (TargetZ e))" using e(1) by (simp_all add: i32_pos_def in_i32_def)
  have w: "write_fits (mk_write x (TargetY e) (TargetZ e) t (bytes_of_string d))" if "x = 2 \<or> x = 3" "length d = 12" for x t d
    using that p by (auto simp: write_fits_def blockLimit_def)
  have a: "log_above z b (put_writes [mk_write 2 (TargetY e) (TargetZ e) t d, mk_write 3 (TargetY e) (TargetZ e) t' d'] b)" for t d t' d'
    using e(2) z by (auto simp: log_above_def put_block_apply)
  show ?thesis
    using e(1) p w [of 2] w [of 3] a Q [of b] Q length_encodeInt64
    by (auto simp: replay_process_def xmax_process_def batchLimit_def case_prod_unfold Let_def split: sum.splits)
qed

lemma transmits_recover_body:
  assumes z: "z < 0" "in_i32 z" and d: "entry_sends (b (0, walY, z))" and some: "\<And>x s' b'. Q (Some x) s' b'"
    and none: "\<And>s' b'. b (0, walY, z) \<noteq> None \<Longrightarrow> log_above z b b' \<Longrightarrow> Q None s' b'"
  shows "transmits (recover_body z) Q s b"
proof -
  have p: "i32_pos (mk_pos 0 walY z)" using z by (simp add: i32_pos_def in_i32_def tableY_def)
  have "transmits (recover_entry z (b (0, walY, z))) Q s b"
  proof (cases "slice_len (b (0, walY, z)) = 0 \<or> isl (deserializeEntry (slice_string (b (0, walY, z))))")
    case True
    then show ?thesis using some none by (auto simp: recover_entry_def slice_len_def slice_bytes_def split: sum.splits option.splits)
  next
    case False
    then obtain e where e: "deserializeEntry (slice_string (b (0, walY, z))) = Inr e" and ne: "b (0, walY, z) \<noteq> None" "slice_len (b (0, walY, z)) \<noteq> 0"
      by (cases "deserializeEntry (slice_string (b (0, walY, z)))") (auto simp: slice_len_def slice_bytes_def split: option.splits)
    show ?thesis
    proof (cases "Status e = ''COMMITTED''")
      case True
      then show ?thesis using e ne none by (simp add: recover_entry_def)
    next
      case False
      then have s: "i32_pos (mk_pos (TargetX e) (TargetY e) (TargetZ e))" "0 \<le> TargetZ e" "length (book_of e ''COMMITTED'') \<le> blockLimit"
        using d e by (simp_all add: entry_sends_def)
      have "transmits (replay_process e) (\<lambda>r. transmits (recover_commit z e r) Q) s b"
        by (rule transmits_replay [OF s(1,2) z(1)])
          (use s(3) p some none ne in \<open>auto simp: recover_commit_def split: sum.splits\<close>)
      then show ?thesis using e ne False by (simp add: recover_entry_def transmits_bind)
    qed
  qed
  then show ?thesis using p some by (simp add: recover_body_def)
qed

lemma transmits_recover:
  assumes log: "log_sends b0 n" "b0 (0, walY, - int (Suc n)) = None" "int n + 1 < 2 ^ 31" and Q: "\<And>r s b. Q r s b"
  shows "1 \<le> i \<Longrightarrow> i \<le> Suc n \<Longrightarrow> log_above (1 - int i) b0 b \<Longrightarrow> transmits (Recover_process fuel (- int i)) Q s b"
proof (induction fuel arbitrary: i s b)
  case (Suc fuel)
  have z: "- int i < 0" "in_i32 (- int i)" "wrap64 (- int i - 1) = - int (Suc i)" using Suc.prems log(3) by (simp_all add: in_i32_def in_i64_def)
  have eq: "b (0, walY, - int i) = b0 (0, walY, - int i)" using Suc.prems(3) by (simp add: log_above_def)
  have d: "entry_sends (b (0, walY, - int i))"
  proof (cases "i = Suc n")
    case True
    have "deserializeEntry [] = Inl (ExpectedPages 1)" by (simp add: deserializeEntry_def Split.simps [of "[]"] Let_def)
    then show ?thesis using eq log(2) True by (simp add: entry_sends_def slice_string_def slice_bytes_def string_of_bytes_def)
  next
    case False
    then show ?thesis using eq log(1) Suc.prems by (simp add: log_sends_def)
  qed
  have next_i: "transmits (Recover_process fuel (- int (Suc i))) Q s' b'" if "b (0, walY, - int i) \<noteq> None" "log_above (- int i) b b'" for s' b'
  proof (rule Suc.IH)
    show "Suc i \<le> Suc n" using that(1) eq log(2) Suc.prems(2) by (cases "i = Suc n") auto
    show "log_above (1 - int (Suc i)) b0 b'" using that(2) Suc.prems(3) by (auto simp: log_above_def)
  qed simp
  show ?case
    unfolding Recover_process.simps transmits_bind z(3)
    by (rule transmits_recover_body [where b = b, OF z(1,2) d]) (use Q next_i in simp_all)
qed (simp add: Q)

lemma load_catalog_ideal: "\<exists>s'. LoadCatalog (blocks_hal :: (blocks, 'e) hal) s b = (Inr (), s', b)"
proof -
  have "\<exists>ml s'. load_loop (blocks_hal :: (blocks, 'e) hal) z m l s b = (Inr ml, s', b)" for z m l s
  proof (induction "nat (maxCatalogZ - z)" arbitrary: z m l s)
    case 0
    then show ?case by (subst load_loop.simps) simp
  next
    case (Suc n)
    have "\<exists>ml s'. load_loop (blocks_hal :: (blocks, 'e) hal) (z + 1) m l s b = (Inr ml, s', b)" for m l s using Suc.hyps by (intro Suc.hyps(1)) simp
    then show ?case using Suc.hyps(2) by (subst load_loop.simps) (auto simp: blocks_hal_def Let_def split: sum.splits)
  qed
  then obtain m l s' where "load_loop (blocks_hal :: (blocks, 'e) hal) 0 0 0 s b = (Inr (m, l), s', b)" by (metis prod.collapse)
  then show ?thesis by (simp add: LoadCatalog_def Let_def)
qed

lemma boot_remote:
  assumes "limited b" "log_sends b n" "log_length b n" "int n + 1 < 2 ^ 31" "n < fuel"
  shows "\<exists>s. boot fuel (peer_hal dials) (on b) = Some (Inr s, on (recover_blocks n b))"
proof -
  have "transmits (boot_process fuel :: (unit client_error, _) process) anything (NewStorage NewWAL) b"
    unfolding boot_process_def transmits_bind
    by (rule transmits_recover [OF assms(2) _ assms(4), where i = 1, simplified])
      (use assms(3) transmits_boot_load in \<open>auto simp: log_length_def split: option.splits sum.splits\<close>)
  from transmits_run [OF this assms(1), of dials]
  obtain r s' b' where r: "run blocks_hal (boot_process fuel) (NewStorage NewWAL) b = (r, s', b')"
    "run (peer_hal dials) (boot_process fuel) (NewStorage NewWAL) (on b) = (r, s', on b')" by blast
  then have eq: "boot fuel (peer_hal dials) (on b) = map_option (\<lambda>x. (x, on b')) r"
    "boot fuel (blocks_hal :: (blocks, unit client_error) hal) b = map_option (\<lambda>x. (x, b')) r" by (simp_all add: boot_process_run)
  obtain wl where rec: "Recover fuel (blocks_hal :: (blocks, unit client_error) hal) NewWAL b = Some (Inr (), wl, recover_blocks n b)"
    using ideal.recover_run [OF assms(3) _ limited_no_empty [OF assms(1)] assms(5), of NewWAL] assms(4) by (auto simp: NewWAL_def)
  obtain s where "LoadCatalog (blocks_hal :: (blocks, unit client_error) hal) (NewStorage wl) (recover_blocks n b) = (Inr (), s, recover_blocks n b)"
    using load_catalog_ideal by blast
  then have "boot fuel (blocks_hal :: (blocks, unit client_error) hal) b = Some (Inr s, recover_blocks n b)"
    using rec by (simp add: boot_def Let_def)
  then show ?thesis using eq by auto
qed

subsection \<open>A delete that is cut off\<close>

lemma entry_sends_None: "entry_sends None"
proof -
  have "deserializeEntry [] = Inl (ExpectedPages 1)" by (simp add: deserializeEntry_def Split.simps [of "[]"] Let_def)
  then show ?thesis by (simp add: entry_sends_def slice_string_def slice_bytes_def string_of_bytes_def)
qed

lemma entry_sends_book:
  assumes e: "entry_ok e" "length (Op e) \<le> 16" "length (NewValue e) \<le> valueLimit" "i32_pos (mk_pos (TargetX e) (TargetY e) (TargetZ e))" "0 \<le> TargetZ e"
    and status: "CHR 0x0A \<notin> set status"
  shows "entry_sends (Some (bytes_of_string (book_of e status)))"
  using e length_book [OF e(1-3), of "''COMMITTED''"] deserialize_book [OF e(1) status]
  by (simp add: entry_sends_def slice_string_def slice_bytes_def book_of_def)

lemma delete_log_sends:
  assumes log: "log_sends b n" "b (0, walY, - int (Suc n)) = None" and out: "delete_outcome pos txid (int (Suc n)) b b'"
    and pos: "i32_pos pos" "0 \<le> PosZ pos" and tx: "in_i64 txid" and n: "int (Suc n) < 2 ^ 31"
  shows "log_sends b' (Suc n)"
proof -
  let ?e = "Crash.delete_entry pos txid (int (Suc n))"
  let ?ws = "[banner_write 2 (PosY pos) (PosZ pos) (fst (EncodeInt64 txid)), banner_write 3 (PosY pos) (PosZ pos) (snd (EncodeInt64 txid))]"
  have ok: "pos_ok pos" using pos in_i32_in_i64 by (simp add: pos_ok_def i32_pos_def)
  have e: "entry_ok ?e" using ok tx n by (intro delete_entry_ok) (simp_all add: in_i64_def)
  have x: "TargetX (Crash.delete_entry pos txid l) = PosX pos" for l by (simp add: Crash.delete_entry_def log_entry_def)
  have "length (fmt_d txid) \<le> valueLimit" using length_fmt_d [OF tx] by (simp add: valueLimit_def)
  then have book: "entry_sends (Some (bytes_of_string (book_of ?e st)))" if "CHR 0x0A \<notin> set st" for st
    using pos that by (intro entry_sends_book [OF e]) (simp_all add: x i32_pos_def)
  have ws: "put_writes (take k ?ws) b1 (0, walY, z) = b1 (0, walY, z)" if "z < 0" for k b1 z
    using that pos(2) by (intro put_writes_frame) (auto simp: pos_key_def dest!: in_set_takeD)
  have ws2: "put_writes ?ws b1 (0, walY, z) = b1 (0, walY, z)" if "z < 0" for b1 z using ws [OF that, of 2 b1] by simp
  have "entry_sends (b' (0, walY, - int i))" if i: "1 \<le> i" "i \<le> Suc n" for i
  proof (cases "i = Suc n")
    case True
    have z: "- int (Suc n) < 0" by simp
    have "b' (0, walY, - int (Suc n)) \<in> {None, Some (bytes_of_string (book_of ?e ''PENDING'')), Some (bytes_of_string (book_of ?e ''COMMITTED''))}"
      using out log(2) ws [OF z] ws2 [OF z] unfolding delete_outcome_def Let_def by (auto simp: put_book_apply)
    then show ?thesis using True book entry_sends_None by auto
  next
    case False
    have z: "- int i < 0" using i by simp
    have "b' (0, walY, - int i) = b (0, walY, - int i)"
      using out False ws [OF z] ws2 [OF z] unfolding delete_outcome_def Let_def by (auto simp: put_book_apply)
    then show ?thesis using log(1) i False by (simp add: log_sends_def)
  qed
  then show ?thesis by (simp add: log_sends_def)
qed

subsection \<open>Properties\<close>

text \<open>
  Property C6: a delete over a network that fails. The delete runs over the TCP client while dials, writes and reads fail at any point; then the process
  starts again, over a new connection to the same peer. The start succeeds, and the blocks are those before the delete or the row
  carries the deleting transaction; a delete that returned without error is never lost, and no other block outside the log has changed.
\<close>

theorem delete_over_failing_network:
  assumes "ready c" "0 < dials" "limited (held c)" "MarkDeleted (faulty_hal dials) pos txid s c = (r, s', c')"
    "log_settled (held c) n" "log_sends (held c) n" "nextLSN (wal s) = int (Suc n)" "int n + 2 < 2 ^ 31" "Suc n < fuel"
    "in_i64 txid" "0 \<le> txid" "i32_pos pos" "0 \<le> PosZ pos"
  shows "\<exists>s2 b2. boot fuel (peer_hal dials) (on (held c')) = Some (Inr s2, on b2) \<and>
    (b2 = held c \<or> xmax_at b2 (PosY pos) (PosZ pos) = Inr (VInt64 txid)) \<and>
    (r = Inr () \<longrightarrow> xmax_at b2 (PosY pos) (PosZ pos) = Inr (VInt64 txid)) \<and>
    (\<forall>q. elsewhere pos q \<longrightarrow> b2 q = held c q)"
proof -
  have pos: "pos_ok pos" using assms(12,13) in_i32_in_i64 by (simp add: pos_ok_def i32_pos_def)
  have "transmits (MarkDeleted_process pos txid :: (unit client_error, _) process) anything s (held c)"
    using assms(7,8,10,12,13) by (intro transmits_mark) simp_all
  from transmits_faulty [OF this assms(3,1,2)] assms(4)
  obtain os os' where run: "MarkDeleted shaky_hal pos txid s (held c, os) = (r, s', (held c', os'))" and lim: "limited (held c')"
    by (auto simp: same_run_def MarkDeleted_process_run)
  have ok: "no_empty (fst (held c, os))" using limited_no_empty [OF assms(3)] by simp
  obtain m where m: "m \<le> Suc n" "log_length (held c') m" "delete_outcome pos txid (int (Suc n)) (held c) (held c')"
    "recover_blocks m (held c') = held c \<or> xmax_at (recover_blocks m (held c')) (PosY pos) (PosZ pos) = Inr (VInt64 txid)"
    "r = Inr () \<Longrightarrow> xmax_at (recover_blocks m (held c')) (PosY pos) (PosZ pos) = Inr (VInt64 txid)"
    "\<forall>q. elsewhere pos q \<longrightarrow> recover_blocks m (held c') q = held c q"
    using delete_recovered [OF shaky.hal_store_axioms ok run, of n] assms(5,7,8,10,11) pos by auto
  have "log_sends (held c') (Suc n)"
    by (rule delete_log_sends [OF assms(6) _ m(3) assms(12,13,10)]) (use assms(5,8) in \<open>simp_all add: log_settled_def log_length_def\<close>)
  then have "log_sends (held c') m" using m(1) by (simp add: log_sends_def)
  from boot_remote [OF lim this m(2), of fuel dials] m assms(8,9) show ?thesis by auto
qed

text \<open>A row whose \<open>xmax\<close> is null, and a connection that breaks in the middle of the delete, after the peer has received a write.\<close>

definition null_row :: blocks where
  "null_row = put_writes [banner_write 2 64 0 nullHex, banner_write 3 64 0 nullHex] air"

definition cut_off :: "blocks wire Client" where
  "cut_off = \<lparr>connected = False, link = \<lparr>peerState = null_row, unread = [], faults = replicate 13 None @ [Some Late]\<rparr>\<rparr>"

theorem delete_over_failing_network_witness:
  "\<exists>r s' c' s2 b2. MarkDeleted (faulty_hal 1) (mk_pos 0 64 0) 7 (NewStorage NewWAL) cut_off = (r, s', c') \<and>
    boot 2 (peer_hal 1) (on (held c')) = Some (Inr s2, on b2) \<and> (b2 = null_row \<or> xmax_at b2 64 0 = Inr (VInt64 7))"
proof -
  obtain r s' c' where run: "MarkDeleted (faulty_hal 1) (mk_pos 0 64 0) 7 (NewStorage NewWAL) cut_off = (r, s', c')" by (metis prod_cases3)
  have held: "held cut_off = null_row" and ready: "ready cut_off" by (simp_all add: cut_off_def ready_def)
  have "limited null_row"
    unfolding null_row_def by (rule limited_writes [OF air_facts(2)]) (simp add: write_fits_def i32_pos_def in_i32_def blockLimit_def)
  then have lim: "limited (held cut_off)" by (simp add: held)
  have log: "log_settled (held cut_off) 0" "log_sends (held cut_off) 0"
    by (simp_all add: held null_row_def air_def log_settled_def log_length_def log_sends_def put_write_def put_block_apply pos_key_def)
  have lsn: "nextLSN (wal (NewStorage NewWAL)) = int (Suc 0)" by (simp add: NewStorage_def NewWAL_def)
  have "in_i64 7" "i32_pos (mk_pos 0 64 0)" by (simp_all add: in_i64_def i32_pos_def in_i32_def)
  with delete_over_failing_network [OF ready _ lim run log lsn, of 2] run show ?thesis by (auto simp: held)
qed

end
