(* ===== verification/Spec2Isabelle.thy ===== *)
theory Spec2Isabelle
  imports Serve Queries Hal_Client Schedule Outage
begin

text \<open>
  mineSQL, a database that keeps its rows in the blocks of a Minecraft world, as a library of definitions and theorems. The program is the
  Go code under \<open>src/internal\<close> and \<open>src/cmd\<close>; each definition follows one function, type or loop of it.

  \<^bold>\<open>The program.\<close> A query reaches one of two servers (\<open>internal/wire\<close>), is parsed (\<open>internal/parser\<close>), executed
  (\<open>internal/executor\<close>) and turned into operations of the storage layer (\<open>internal/storage\<close>): tables are rows of a catalog at Y = 10,
  a table has 10000 planes of constant Z at Y = 64, one per row version, and a version is a strip of blocks along X: two banners for the inserting
  transaction, two for the deleting one, one or two banners per number or truth value and one sign per text. Inserts and deletes
  go through a write-ahead log (\<open>internal/wal\<close>) of books on lecterns at Z = -1, -2, ... All of them use the world through the interface of
  \<open>internal/hal\<close>, which a TCP client to the server plugin and an in-memory store implement. \<open>cmd/minesql\<close> recovers the log, loads
  the catalog and starts the servers.

  \<^bold>\<open>The theories\<close>, in the order of their imports:
  \<^item> \<open>Minesql_Prelude\<close>: bytes, texts, Go maps as association lists, nil slices; shared lemmas and the collections \<open>go_simps\<close> and so on.
  \<^item> \<open>Go_Int\<close>, \<open>Go_Strings\<close>, \<open>Go_Float\<close>, \<open>Go_Json\<close>: what the program uses of Go and its standard library: fixed-width integers as \<open>int\<close> with the
    wrap-around written out, big-endian bytes, decimal input and output; \<open>strings\<close> and \<open>hex\<close>; \<open>float64\<close> with rounding, \<open>strconv.ParseFloat\<close> and
    shortest printing; dynamic values, \<open>json.Marshal\<close> and the scanner of \<open>json.Unmarshal\<close>, with the round trip.
  \<^item> \<open>Codec\<close> (\<open>storage/codec.go\<close>): the encodings of banners and signs.
  \<^item> \<open>Hal\<close> (\<open>hal/hal.go\<close>): the storage interface as a record of methods on a world of any type. Its contract is the locale \<open>hal_store\<close> (a
    failed call may have happened, a failed batch in part and in order), extended by \<open>hal_reliable\<close> (no call fails).
  \<^item> \<open>Hal_Mock\<close> (\<open>hal/mock/mock.go\<close>): the in-memory store, an instance of \<open>hal_reliable\<close>, and any store behind a connection that breaks, an
    instance of \<open>hal_store\<close>.
  \<^item> \<open>Hal_Client\<close> (\<open>hal/client.go\<close>): the TCP client over a network given by its calls; on a peer that follows the protocol it is
    a block store for 32-bit coordinates.
  \<^item> \<open>Wal\<close> (\<open>wal/wal.go\<close>): the log, proved inside the two locales.
  \<^item> \<open>Storage\<close> (\<open>storage/storage.go\<close>): the state of the storage layer and its operations. \<open>Rows\<close>, \<open>Catalog\<close> and \<open>Database\<close> prove it: strips and
    versions, the JSON of the catalog, and the simulation of an abstract database, one list of row versions per table, by every
    operation (\<open>state_rel\<close>), with the runs from an empty world as the inductive relation \<open>reach\<close>.
  \<^item> \<open>Restart\<close> and \<open>Crash\<close>: loading the catalog in a new process; calls that fail at any point and the recovery that follows.
  \<^item> \<open>Parser\<close> (\<open>parser/parser.go\<close>): statements from the syntax trees of \<open>pg_query\<close>, which is a parameter (a record of the
    functions and getters that the code uses).
  \<^item> \<open>Executor\<close> (\<open>executor/executor.go\<close>), \<open>Conditions\<close> and \<open>Sql\<close>: statements, the comparisons of \<open>WHERE\<close>, and what each statement
    returns and does to the represented database.
  \<^item> \<open>Wire\<close> (\<open>wire/server.go\<close>, \<open>wire/chatserver.go\<close>) and \<open>Queries\<close>: the two servers, the relation \<open>dialogue\<close> between the requests of a
    connection and their answers, which the server implements, and queries from their text to the answer.
  \<^item> \<open>Boot\<close> and \<open>Serve\<close> (\<open>cmd/minesql/main.go\<close>, \<open>ListenAndServe\<close> of both servers): the start of the process; the accept loops, signals and
    the shutdown, with the life of the process as the step relation \<open>life_step\<close>.
  \<^item> \<open>Process\<close>: inserting, deleting, logging and a row of a scan as processes, trees of calls and locked sections that other goroutines may run
    between. \<open>Concurrent\<close> runs any number of inserts and deletes under any schedule and shows that the outcome is that of some
    order of the whole operations.
  \<^item> \<open>Schedule\<close>: the two goroutines of a \<open>DELETE\<close> with the channel of capacity 100 between them, under any fair schedule.
  \<^item> \<open>Session\<close>: an abstract interpreter of statements over named lists of row versions, and that sequences of statements refine it, answers and
    errors included.
  \<^item> \<open>Program\<close> and \<open>Remote\<close>: whole statements, recovery and loading the catalog as processes, and sessions over the TCP client: within the
    limits of the protocol (32-bit coordinates, blocks of at most 1 MiB, batches of at most 1028 blocks) they give the answers of the abstract
    interpreter.
  \<^item> \<open>Faulty\<close> and \<open>Outage\<close>: the TCP client on a network whose dials, writes and reads fail at any time. A run over it is a run over a failing block
    store, an instance of \<open>hal_store\<close>; a delete that is cut off and the start over a new connection that follows are atomic.

  \<^bold>\<open>Modelling.\<close> An operation takes the implementation \<open>h\<close> of the interface, the state of its component and the world, and returns its result with both.
  Errors are values, one constructor per place that creates one. Pointers to table metadata are indices into a heap, because a scan and an insert share
  the row count behind them. A scan is the list of what its goroutine sends; the context is a predicate that says at which rows it is found
  cancelled. In \<open>Executor\<close> a delete handles each row when the scan has sent it, which \<open>delete_every_schedule\<close> justifies. Operations run one at
  a time except in \<open>Process\<close>, \<open>Concurrent\<close> and \<open>Schedule\<close>, where every call and every section under a mutex is a step of its own. Where Go would
  panic the client returns \<open>Panic\<close>.

  \<^bold>\<open>Bounds and fuel.\<close> \<open>Recover\<close> reads the log until the first empty lectern and could run for ever on a full world: it takes fuel, and
  \<open>recover_settles\<close> shows that one more than the number of entries is enough. \<open>connect\<close> dials until it succeeds and takes fuel too, one
  more than the number of failing dials. Theorems assume fewer than \<open>2^62\<close> log entries and \<open>2^48\<close> tables, which keeps every coordinate within
  \<open>int64\<close>, at most 10000 rows per table and 1024 tables where the code relies on it; \<open>table_overflow\<close> and \<open>restart_forgets_rows\<close> show what the
  code does beyond.

  \<^bold>\<open>Not modelled.\<close> Log output, deadlines, the operating system's listeners and sockets (their results are arguments), the texts of errors other than the
  parser's, the environment variable that is only printed, and the Java plugin. \<open>CREATE TABLE\<close>, which holds the mutex across its call, runs alone. The packages
  \<open>pg_query_go\<close> and \<open>pgproto3\<close> are parameters or lists of messages. On the failing network a request takes effect at once or never: one that the plugin
  executes only after the client has connected again is left out. In \<open>life_step\<close> the goroutine that closes \<open>done\<close> and the receive of \<open>main\<close> are one step.
\<close>

end
